(* ===== verification/Prelude.thy ===== *)
theory Prelude
  imports Main "HOL-Library.Multiset"
begin

text \<open>
  Shared ground of the development: Rust's \<open>for\<close> loops with the \<open>?\<close> operator as a
  fold that stops at the first error, the standard-library string operations the sources use
  (byte strings: \<open>split\<close>, \<open>rsplit\<close>, \<open>rfind\<close>, \<open>strip_prefix\<close>, \<open>join\<close>), the
  \<open>HashMap\<close> built from an iterator, decimal rendering, and the generic lemmas about them.
\<close>

named_theorems res_simps \<open>evaluation of results (\<open>error + value\<close>)\<close>
named_theorems str_simps \<open>byte-string operations\<close>

section \<open>Results\<close>

text \<open>
  A Rust \<open>Result<T, E>\<close> is \<open>'e + 'a\<close>: \<open>Inl\<close> is \<open>Err\<close>, \<open>Inr\<close> is \<open>Ok\<close>.
  \<open>and_then\<close> is the \<open>?\<close> operator followed by the rest of the function.
\<close>

definition and_then :: "'e + 'a \<Rightarrow> ('a \<Rightarrow> 'e + 'b) \<Rightarrow> 'e + 'b" where
  "and_then r f = (case r of Inl e \<Rightarrow> Inl e | Inr x \<Rightarrow> f x)"

lemma and_then_simps [simp, res_simps]:
  "and_then (Inl e) f = Inl e"
  "and_then (Inr x) f = f x"
  by (simp_all add: and_then_def)

lemma and_then_Inr_iff: "and_then r f = Inr y \<longleftrightarrow> (\<exists>x. r = Inr x \<and> f x = Inr y)"
  by (cases r) simp_all

lemma and_then_cong [fundef_cong]:
  "r = r' \<Longrightarrow> (\<And>x. r' = Inr x \<Longrightarrow> f x = g x) \<Longrightarrow> and_then r f = and_then r' g"
  by (cases r') simp_all

text \<open>
  \<open>for x in xs { body }\<close>: the loop state is threaded through the body; \<open>?\<close> in the body
  leaves the function, so the first error ends the loop. \<open>continue\<close> is the state unchanged.
\<close>

fun for_each :: "('a \<Rightarrow> 's \<Rightarrow> 'e + 's) \<Rightarrow> 'a list \<Rightarrow> 's \<Rightarrow> 'e + 's" where
  "for_each f [] s = Inr s"
| "for_each f (x # xs) s = and_then (f x s) (for_each f xs)"

lemma for_each_cong [fundef_cong]:
  assumes "xs = ys" and "s = t" and "\<And>x r. x \<in> set ys \<Longrightarrow> f x r = g x r"
  shows "for_each f xs s = for_each g ys t"
proof -
  have "for_each f ys t = for_each g ys t" using assms(3)
    by (induction ys arbitrary: t) (auto intro: and_then_cong)
  with assms(1,2) show ?thesis by simp
qed

lemma for_each_append:
  "for_each f (xs @ ys) s = and_then (for_each f xs s) (for_each f ys)"
  by (induction xs arbitrary: s) (auto simp: and_then_def split: sum.splits)

text \<open>A loop whose body never fails is an ordinary fold.\<close>

lemma for_each_total:
  assumes "\<And>x r. x \<in> set xs \<Longrightarrow> f x r = Inr (g x r)"
  shows "for_each f xs s = Inr (fold g xs s)"
  using assms by (induction xs arbitrary: s) auto

lemma for_each_invariant:
  assumes "for_each f xs s = Inr t" and "I s"
    and "\<And>x r r'. x \<in> set xs \<Longrightarrow> I r \<Longrightarrow> f x r = Inr r' \<Longrightarrow> I r'"
  shows "I t"
  using assms
proof (induction xs arbitrary: s)
  case Nil
  then show ?case by simp
next
  case (Cons x xs)
  from Cons.prems(1) obtain r where r: "f x s = Inr r" "for_each f xs r = Inr t"
    by (auto simp: and_then_Inr_iff)
  have "I r" by (rule Cons.prems(3)[OF _ Cons.prems(2) r(1)]) simp
  show ?case by (rule Cons.IH[OF r(2) \<open>I r\<close>]) (use Cons.prems(3) in auto)
qed

lemma fold_invariant:
  assumes "I s" and "\<And>x r. x \<in> set xs \<Longrightarrow> I r \<Longrightarrow> I (g x r)"
  shows "I (fold g xs s)"
  using assms by (induction xs arbitrary: s) auto

lemma for_each_ok:
  assumes "\<And>x s. x \<in> set xs \<Longrightarrow> \<exists>s'. f x s = Inr s'"
  shows "\<exists>s'. for_each f xs s = Inr s'"
  using assms
proof (induction xs arbitrary: s)
  case (Cons x xs)
  obtain s' where "f x s = Inr s'" using Cons.prems [of x s] by auto
  with Cons show ?case by simp
qed simp

lemma and_then_ok:
  assumes "\<exists>x. r = Inr x" and "\<And>x. r = Inr x \<Longrightarrow> \<exists>y. f x = Inr y"
  shows "\<exists>y. and_then r f = Inr y"
  using assms by auto

text \<open>A loop that threads two states, of which the second does not depend on the first.\<close>

lemma for_each_pair:
  assumes "\<And>x s u. x \<in> set xs \<Longrightarrow> f x (s, u) = and_then (g x s) (\<lambda>s'. Inr (s', h x u))"
  shows "for_each f xs (s, u) = and_then (for_each g xs s) (\<lambda>s'. Inr (s', fold h xs u))"
  using assms
proof (induction xs arbitrary: s u)
  case (Cons x xs)
  show ?case
  proof (cases "g x s")
    case (Inr s')
    with Cons show ?thesis by simp
  qed (use Cons.prems in simp)
qed simp

text \<open>A loop whose body returns early with a value: the first one found.\<close>

fun find_map :: "('a \<Rightarrow> 'b option) \<Rightarrow> 'a list \<Rightarrow> 'b option" where
  "find_map f [] = None"
| "find_map f (x # xs) = (case f x of Some y \<Rightarrow> Some y | None \<Rightarrow> find_map f xs)"

lemma find_map_cong [fundef_cong]:
  assumes "xs = ys" and "\<And>x. x \<in> set ys \<Longrightarrow> f x = g x"
  shows "find_map f xs = find_map g ys"
proof -
  have "find_map f ys = find_map g ys" using assms(2)
    by (induction ys) (auto split: option.splits)
  with assms(1) show ?thesis by simp
qed

lemma find_map_None_iff: "find_map f xs = None \<longleftrightarrow> (\<forall>x\<in>set xs. f x = None)"
  by (induction xs) (auto split: option.splits)

lemma find_map_SomeD: "find_map f xs = Some y \<Longrightarrow> \<exists>x\<in>set xs. f x = Some y"
  by (induction xs) (auto split: option.splits)

section \<open>Byte strings\<close>

text \<open>
  A Rust \<open>str\<close> is its UTF-8 bytes, a \<open>string\<close> here; every operation below looks for ASCII
  separators, which never occur inside a multi-byte character.
\<close>

fun starts_with :: "string \<Rightarrow> string \<Rightarrow> bool" where
  "starts_with [] s = True"
| "starts_with (p # ps) [] = False"
| "starts_with (p # ps) (c # cs) = (p = c \<and> starts_with ps cs)"

lemma starts_with_iff [str_simps]: "starts_with p s \<longleftrightarrow> (\<exists>r. s = p @ r)"
  by (induction p s rule: starts_with.induct) auto

lemma starts_with_append [simp]: "starts_with p (p @ r)"
  by (simp add: starts_with_iff)

definition strip_prefix :: "string \<Rightarrow> string \<Rightarrow> string option" where
  "strip_prefix p s = (if starts_with p s then Some (drop (length p) s) else None)"

lemma strip_prefix_append [simp]: "strip_prefix p (p @ r) = Some r"
  by (simp add: strip_prefix_def)

lemma strip_prefix_Some_iff: "strip_prefix p s = Some r \<longleftrightarrow> s = p @ r"
  by (auto simp: strip_prefix_def starts_with_iff)

definition ends_with :: "string \<Rightarrow> string \<Rightarrow> bool" where
  "ends_with p s = starts_with (rev p) (rev s)"

lemma ends_with_iff [str_simps]: "ends_with p s \<longleftrightarrow> (\<exists>r. s = r @ p)"
proof -
  have "rev s = rev p @ r \<longleftrightarrow> s = rev r @ p" for r
    by (metis rev_append rev_rev_ident)
  then have "(\<exists>r. rev s = rev p @ r) \<longleftrightarrow> (\<exists>r. s = r @ p)"
    by (metis rev_rev_ident)
  then show ?thesis by (simp add: ends_with_def starts_with_iff)
qed

text \<open>\<open>s.split(c)\<close>: always at least one piece.\<close>

fun split_on :: "char \<Rightarrow> string \<Rightarrow> string list" where
  "split_on c [] = [[]]"
| "split_on c (x # xs) =
     (if x = c then [] # split_on c xs
      else (case split_on c xs of [] \<Rightarrow> [[x]] | y # ys \<Rightarrow> (x # y) # ys))"

lemma split_on_not_Nil [simp]: "split_on c s \<noteq> []"
  by (induction s) (auto split: list.splits)

fun join :: "string \<Rightarrow> string list \<Rightarrow> string" where
  "join sep [] = []"
| "join sep [x] = x"
| "join sep (x # y # ys) = x @ sep @ join sep (y # ys)"

lemma split_on_no_sep [simp]: "c \<notin> set s \<Longrightarrow> split_on c s = [s]"
  by (induction s) auto

lemma split_on_append_sep:
  "split_on c (s @ c # t) = split_on c s @ split_on c t"
  by (induction s) (auto split: list.splits)

lemma join_split_on: "join [c] (split_on c s) = s"
proof (induction s)
  case (Cons x s)
  show ?case
  proof (cases "split_on c s")
    case (Cons y ys)
    with Cons.IH show ?thesis by (cases ys) auto
  qed simp
qed simp

lemma split_on_join:
  assumes "xs \<noteq> []" and "\<And>x. x \<in> set xs \<Longrightarrow> c \<notin> set x"
  shows "split_on c (join [c] xs) = xs"
  using assms
proof (induction "[c]" xs rule: join.induct)
  case (3 x y ys)
  from "3.prems"(2) have "c \<notin> set x" by simp
  have "split_on c (join [c] (y # ys)) = y # ys" using "3.hyps" "3.prems" by simp
  with \<open>c \<notin> set x\<close> show ?case by (simp add: split_on_append_sep)
qed auto

text \<open>\<open>s.rsplit(c).next()\<close>: the piece after the last separator.\<close>

definition rsplit_next :: "char \<Rightarrow> string \<Rightarrow> string" where
  "rsplit_next c s = last (split_on c s)"

lemma rsplit_next_no_sep [simp]: "c \<notin> set s \<Longrightarrow> rsplit_next c s = s"
  by (simp add: rsplit_next_def)

lemma rsplit_next_append [simp]:
  "c \<notin> set t \<Longrightarrow> rsplit_next c (s @ c # t) = t"
  by (simp add: rsplit_next_def split_on_append_sep)

text \<open>\<open>s.find(c)\<close> and \<open>s.rfind(c)\<close>: the byte index of the first and last occurrence.\<close>

fun find_char :: "char \<Rightarrow> string \<Rightarrow> nat option" where
  "find_char c [] = None"
| "find_char c (x # xs) = (if x = c then Some 0 else map_option Suc (find_char c xs))"

fun rfind :: "char \<Rightarrow> string \<Rightarrow> nat option" where
  "rfind c [] = None"
| "rfind c (x # xs) =
     (case rfind c xs of Some i \<Rightarrow> Some (Suc i) | None \<Rightarrow> (if x = c then Some 0 else None))"

lemma rfind_less: "rfind c s = Some i \<Longrightarrow> i < length s"
  by (induction s arbitrary: i) (auto split: option.splits if_splits)

lemma rfind_None_iff: "rfind c s = None \<longleftrightarrow> c \<notin> set s"
  by (induction s) (auto split: option.splits)

lemma rfind_append_sep: "c \<notin> set t \<Longrightarrow> rfind c (s @ c # t) = Some (length s)"
proof (induction s)
  case Nil
  then have "rfind c t = None" by (simp add: rfind_None_iff)
  then show ?case by simp
qed simp

lemma find_char_append_sep: "c \<notin> set s \<Longrightarrow> find_char c (s @ c # t) = Some (length s)"
  by (induction s) auto

lemma find_char_None_iff: "find_char c s = None \<longleftrightarrow> c \<notin> set s"
  by (induction s) auto

text \<open>\<open>s.replace\<close> of single characters by a string.\<close>

definition replace_chars :: "char list \<Rightarrow> string \<Rightarrow> string \<Rightarrow> string" where
  "replace_chars cs r s = concat (map (\<lambda>c. if c \<in> set cs then r else [c]) s)"

section \<open>Decimal numerals\<close>

definition digit :: "nat \<Rightarrow> char" where
  "digit d = ''0123456789'' ! (d mod 10)"

fun dec_nat :: "nat \<Rightarrow> string" where
  "dec_nat n = (if n < 10 then [digit n] else dec_nat (n div 10) @ [digit n])"

declare dec_nat.simps [simp del]

lemma dec_nat_not_Nil [simp]: "dec_nat n \<noteq> []"
  by (subst dec_nat.simps) simp

section \<open>\<open>HashMap\<close> from an iterator\<close>

text \<open>
  \<open>iter.collect::<HashMap<_, _>>()\<close> keeps the value of the last pair with a given key.
\<close>

definition hash_map_of :: "('k \<times> 'v) list \<Rightarrow> 'k \<rightharpoonup> 'v" where
  "hash_map_of ps = map_of (rev ps)"

lemma hash_map_of_simps [simp]:
  "hash_map_of [] = Map.empty"
  "hash_map_of (ps @ [(k, v)]) = (hash_map_of ps)(k \<mapsto> v)"
  by (simp_all add: hash_map_of_def)

lemma hash_map_of_distinct:
  "distinct (map fst ps) \<Longrightarrow> hash_map_of ps = map_of ps"
  unfolding hash_map_of_def
  by (rule map_of_inject_set[THEN iffD2]) (simp_all add: rev_map [symmetric])

lemma hash_map_of_SomeD: "hash_map_of ps k = Some v \<Longrightarrow> (k, v) \<in> set ps"
  unfolding hash_map_of_def by (auto dest: map_of_SomeD)

lemma hash_map_of_None_iff: "hash_map_of ps k = None \<longleftrightarrow> k \<notin> fst ` set ps"
  unfolding hash_map_of_def by (simp add: map_of_eq_None_iff)

lemma option_eqI: "(\<And>x. a = Some x \<longleftrightarrow> b = Some x) \<Longrightarrow> a = b"
  by (cases a; cases b) auto

lemma map_eqI: "(\<And>k x. m k = Some x \<longleftrightarrow> n k = Some x) \<Longrightarrow> m = n"
  by (rule ext) (metis not_None_eq)

text \<open>\<open>filter_map\<close> of an iterator.\<close>

definition filter_map :: "('a \<Rightarrow> 'b option) \<Rightarrow> 'a list \<Rightarrow> 'b list" where
  "filter_map f xs = List.map_filter f xs"

lemma filter_map_simps [simp]:
  "filter_map f [] = []"
  "filter_map f (x # xs) = (case f x of None \<Rightarrow> filter_map f xs | Some y \<Rightarrow> y # filter_map f xs)"
  by (simp_all add: filter_map_def List.map_filter_simps split: option.split)

lemma set_filter_map: "set (filter_map f xs) = {y. \<exists>x\<in>set xs. f x = Some y}"
  by (induction xs) (auto split: option.splits)

text \<open>
  \<open>HashMap<String, &T>\<close> over the elements of a slice, by a key some of them have: a reference
  into the slice is the pair of the position and the element. Of the elements with one key the
  last is kept.
\<close>

definition index_by :: "('a \<Rightarrow> 'k option) \<Rightarrow> 'a list \<Rightarrow> 'k \<rightharpoonup> nat \<times> 'a" where
  "index_by key xs =
     hash_map_of (filter_map (\<lambda>(i, x). map_option (\<lambda>k. (k, (i, x))) (key x)) (List.enumerate 0 xs))"

definition keys_of :: "('a \<Rightarrow> 'k option) \<Rightarrow> 'a list \<Rightarrow> 'k set" where
  "keys_of key xs = set (filter_map key xs)"

lemma mem_keys_of [simp]: "k \<in> keys_of key xs \<longleftrightarrow> (\<exists>x\<in>set xs. key x = Some k)"
  by (auto simp: keys_of_def set_filter_map)

lemma index_by_SomeD:
  assumes "index_by key xs k = Some (i, x)"
  shows "i < length xs" and "x = xs ! i" and "key x = Some k"
  using assms unfolding index_by_def
  by (auto dest!: hash_map_of_SomeD simp: set_filter_map in_set_enumerate_eq)

lemma index_by_mem [termination_simp]: "index_by key xs k = Some (i, x) \<Longrightarrow> x \<in> set xs"
  using index_by_SomeD by (metis nth_mem)

lemma index_by_None_iff: "index_by key xs k = None \<longleftrightarrow> k \<notin> keys_of key xs"
proof -
  have "index_by key xs k = None \<longleftrightarrow>
    k \<notin> fst ` set (filter_map (\<lambda>(i, x). map_option (\<lambda>k. (k, (i, x))) (key x)) (List.enumerate 0 xs))"
    by (simp add: index_by_def hash_map_of_None_iff)
  also have "fst ` set (filter_map (\<lambda>(i, x). map_option (\<lambda>k. (k, (i, x))) (key x)) (List.enumerate n xs)) =
    keys_of key xs" for n
    by (induction xs arbitrary: n) (auto simp: keys_of_def split: option.splits)
  finally show ?thesis .
qed

text \<open>With distinct keys the index finds exactly the element with the key.\<close>

lemma index_by_distinct:
  assumes "distinct (filter_map key xs)" and "x \<in> set xs" and "key x = Some k"
  shows "\<exists>i. index_by key xs k = Some (i, x)"
proof -
  have "k \<in> keys_of key xs" using assms(2,3) by auto
  then obtain i y where iy: "index_by key xs k = Some (i, y)"
    by (metis index_by_None_iff not_None_eq surj_pair)
  then have y: "y \<in> set xs" "key y = Some k" by (auto dest: index_by_SomeD index_by_mem)
  have "x = y" if "distinct (filter_map key zs)" "x \<in> set zs" "y \<in> set zs" for zs
    using that
  proof (induction zs)
    case (Cons z zs)
    then show ?case using assms(3) y(2)
      by (auto simp: set_filter_map split: option.splits)
  qed simp
  with assms(1,2) y(1) iy show ?thesis by blast
qed

end
