(* ===== verification/Json.thy ===== *)
theory Json
  imports Prelude "HOL-Library.Word"
begin

text \<open>
  The JSON values of \<open>serde_json\<close> as the sources use them (feature \<open>preserve_order\<close>, set in
  the workspace's \<open>Cargo.toml\<close>): \<open>Value\<close> is \<open>json\<close>, \<open>Map<String, Value>\<close> is an association
  list in insertion order. \<open>insert\<close> overwrites in place or appends, \<open>remove\<close> moves the last
  entry into the hole (\<open>swap_remove\<close>, as the crate documents for this feature), \<open>==\<close> on maps
  ignores the order. A number is one of the three shapes the crate distinguishes; a float is
  carried by its printed text, which identifies every finite double but the sign of zero.
\<close>

section \<open>Values\<close>

datatype number =
    PosInt "64 word"
  | NegInt "64 word"
  | Float string

datatype json =
    JNull
  | JBool bool
  | JNum number
  | JStr string
  | JArr "json list"
  | JObj "(string \<times> json) list"

type_synonym json_map = "(string \<times> json) list"

fun number_to_string :: "number \<Rightarrow> string" where
  "number_to_string (PosInt w) = dec_nat (unat w)"
| "number_to_string (NegInt w) = CHR ''-'' # dec_nat (nat (- sint w))"
| "number_to_string (Float t) = t"

definition bool_to_string :: "bool \<Rightarrow> string" where
  "bool_to_string b = (if b then ''true'' else ''false'')"

lemma size_json_entry [termination_simp]:
  "(k, v) \<in> set m \<Longrightarrow> size v < Suc (size_list (size_prod (\<lambda>_. 0) size) m)"
  by (induction m) auto

lemma size_json_item [termination_simp]: "v \<in> set xs \<Longrightarrow> size v < size (JArr xs)"
  by (induction xs) auto

lemma size_map_of [termination_simp]:
  "map_of m k = Some v \<Longrightarrow> size v < Suc (size_list (size_prod (\<lambda>_. 0) size) m)"
  by (auto dest: map_of_SomeD intro: size_json_entry)

subsection \<open>Accessors\<close>

fun as_object :: "json \<Rightarrow> json_map option" where
  "as_object (JObj m) = Some m"
| "as_object _ = None"

fun as_array :: "json \<Rightarrow> json list option" where
  "as_array (JArr xs) = Some xs"
| "as_array _ = None"

fun as_str :: "json \<Rightarrow> string option" where
  "as_str (JStr s) = Some s"
| "as_str _ = None"

fun is_object :: "json \<Rightarrow> bool" where
  "is_object (JObj _) = True"
| "is_object _ = False"

fun is_array :: "json \<Rightarrow> bool" where
  "is_array (JArr _) = True"
| "is_array _ = False"

fun is_null :: "json \<Rightarrow> bool" where
  "is_null JNull = True"
| "is_null _ = False"

lemma as_object_Some_iff [simp]: "as_object v = Some m \<longleftrightarrow> v = JObj m"
  by (cases v) auto

lemma as_array_Some_iff [simp]: "as_array v = Some xs \<longleftrightarrow> v = JArr xs"
  by (cases v) auto

lemma as_str_Some_iff [simp]: "as_str v = Some s \<longleftrightarrow> v = JStr s"
  by (cases v) auto

lemma is_null_iff [simp]: "is_null v \<longleftrightarrow> v = JNull"
  by (cases v) auto

lemma is_object_iff: "is_object v \<longleftrightarrow> (\<exists>m. v = JObj m)"
  by (cases v) auto

text \<open>\<open>Value::get\<close> with a string index, and \<open>Value::pointer\<close> along object fields.\<close>

definition value_get :: "json \<Rightarrow> string \<Rightarrow> json option" where
  "value_get v k = Option.bind (as_object v) (\<lambda>m. map_of m k)"

fun value_path :: "json \<Rightarrow> string list \<Rightarrow> json option" where
  "value_path v [] = Some v"
| "value_path v (k # ks) = Option.bind (value_get v k) (\<lambda>w. value_path w ks)"

lemma value_get_JObj [simp]: "value_get (JObj m) k = map_of m k"
  by (simp add: value_get_def)

section \<open>Maps\<close>

fun map_insert :: "string \<Rightarrow> 'v \<Rightarrow> (string \<times> 'v) list \<Rightarrow> (string \<times> 'v) list" where
  "map_insert k v [] = [(k, v)]"
| "map_insert k v ((k', v') # m) =
     (if k' = k then (k, v) # m else (k', v') # map_insert k v m)"

definition contains_key :: "(string \<times> 'v) list \<Rightarrow> string \<Rightarrow> bool" where
  "contains_key m k = (map_of m k \<noteq> None)"

fun key_index :: "string \<Rightarrow> (string \<times> 'v) list \<Rightarrow> nat option" where
  "key_index k [] = None"
| "key_index k ((k', v) # m) = (if k' = k then Some 0 else map_option Suc (key_index k m))"

definition map_remove :: "string \<Rightarrow> (string \<times> 'v) list \<Rightarrow> (string \<times> 'v) list" where
  "map_remove k m =
     (case key_index k m of
        None \<Rightarrow> m
      | Some i \<Rightarrow> if Suc i = length m then butlast m else (butlast m)[i := last m])"

definition map_retain :: "(string \<Rightarrow> bool) \<Rightarrow> (string \<times> 'v) list \<Rightarrow> (string \<times> 'v) list" where
  "map_retain p m = filter (\<lambda>(k, _). p k) m"

definition distinct_keys :: "(string \<times> 'v) list \<Rightarrow> bool" where
  "distinct_keys m = distinct (map fst m)"

lemma map_of_map_insert [simp]: "map_of (map_insert k v m) = (map_of m)(k \<mapsto> v)"
  by (induction m) (auto simp: fun_eq_iff)

lemma map_insert_same: "map_of m k = Some v \<Longrightarrow> map_insert k v m = m"
  by (induction m) (auto split: if_splits)

lemma map_fst_map_insert:
  "map fst (map_insert k v m) = (if k \<in> fst ` set m then map fst m else map fst m @ [k])"
  by (induction m) (auto, force)

lemma keys_map_insert [simp]: "fst ` set (map_insert k v m) = insert k (fst ` set m)"
  unfolding set_map [symmetric] map_fst_map_insert by auto

lemma distinct_keys_insert [simp]: "distinct_keys (map_insert k v m) = distinct_keys m"
  unfolding distinct_keys_def map_fst_map_insert by (auto simp: image_image)

lemma map_of_iff_distinct:
  "distinct_keys m \<Longrightarrow> map_of m k = Some v \<longleftrightarrow> (k, v) \<in> set m"
  unfolding distinct_keys_def by (rule map_of_eq_Some_iff)

lemma distinct_keys_unique:
  "distinct_keys m \<Longrightarrow> (k, v) \<in> set m \<Longrightarrow> (k, w) \<in> set m \<Longrightarrow> w = v"
  by (metis map_of_iff_distinct option.inject)

lemma key_index_SomeD:
  "key_index k m = Some i \<Longrightarrow> i < length m \<and> fst (m ! i) = k \<and> map_of m k = Some (snd (m ! i))"
  by (induction k m arbitrary: i rule: key_index.induct) (auto split: if_splits)

lemma key_index_None_iff: "key_index k m = None \<longleftrightarrow> map_of m k = None"
  by (induction k m rule: key_index.induct) auto

lemma mset_map_remove:
  assumes "map_of m k = Some v"
  shows "mset (map_remove k m) = mset m - {#(k, v)#}"
proof -
  from assms obtain i where i: "key_index k m = Some i"
    by (metis key_index_None_iff not_None_eq)
  with assms have at: "i < length m" "m ! i = (k, v)"
    by (auto dest: key_index_SomeD simp: prod_eq_iff)
  then obtain xs x where m: "m = xs @ [x]" by (cases m rule: rev_cases) auto
  show ?thesis
  proof (cases "i = length xs")
    case True
    with i at m show ?thesis by (simp add: map_remove_def)
  next
    case False
    with at m have "i < length xs" "xs ! i = (k, v)" by (auto simp: nth_append)
    then have "(k, v) \<in># mset xs" by (metis nth_mem set_mset_mset)
    with i m False \<open>xs ! i = (k, v)\<close> \<open>i < length xs\<close> show ?thesis
      by (simp add: map_remove_def mset_update)
  qed
qed

lemma map_remove_absent [simp]: "map_of m k = None \<Longrightarrow> map_remove k m = m"
  by (simp add: map_remove_def key_index_None_iff [symmetric])

lemma distinct_keys_remove [simp]:
  assumes "distinct_keys m"
  shows "distinct_keys (map_remove k m)"
proof (cases "map_of m k")
  case (Some v)
  have "mset (map_remove k m) = mset (remove1 (k, v) m)"
    by (simp add: mset_map_remove [OF Some])
  then have "mset (map fst (map_remove k m)) = mset (map fst (remove1 (k, v) m))"
    by simp
  moreover have "distinct (map fst (remove1 (k, v) m))"
    using assms unfolding distinct_keys_def distinct_map
    by (meson distinct_remove1 inj_on_subset set_remove1_subset)
  ultimately show ?thesis unfolding distinct_keys_def by (metis mset_eq_imp_distinct_iff)
qed (use assms in simp)

lemma map_of_map_remove [simp]:
  assumes "distinct_keys m"
  shows "map_of (map_remove k m) = (map_of m)(k := None)"
proof (cases "map_of m k")
  case (Some v)
  have set: "set (map_remove k m) = set m - {(k, v)}"
  proof -
    have "set (map_remove k m) = set_mset (mset m - {#(k, v)#})"
      by (metis mset_map_remove [OF Some] set_mset_mset)
    also have "\<dots> = set (remove1 (k, v) m)" by (metis mset_remove1 set_mset_mset)
    also have "\<dots> = set m - {(k, v)}"
      using assms by (intro set_remove1_eq) (auto simp: distinct_keys_def distinct_map)
    finally show ?thesis .
  qed
  have "map_of (map_remove k m) x = Some w \<longleftrightarrow> ((map_of m)(k := None)) x = Some w" for x w
    using assms Some by (auto simp: map_of_iff_distinct set dest: distinct_keys_unique)
  then show ?thesis by (metis ext option.exhaust)
qed (auto simp: fun_eq_iff)

lemma map_of_map_retain [simp]:
  "map_of (map_retain p m) k = (if p k then map_of m k else None)"
  by (induction m) (auto simp: map_retain_def)

lemma distinct_keys_retain [simp]: "distinct_keys m \<Longrightarrow> distinct_keys (map_retain p m)"
  unfolding distinct_keys_def map_retain_def by (auto simp: distinct_map_filter)

lemma distinct_keys_Nil [simp]: "distinct_keys []"
  by (simp add: distinct_keys_def)

lemma distinct_keys_Cons:
  "distinct_keys ((k, v) # m) \<longleftrightarrow> map_of m k = None \<and> distinct_keys m"
  by (auto simp: distinct_keys_def map_of_eq_None_iff)

subsection \<open>The map contract\<close>

text \<open>
  What the patch algorithms rely on of a map: lookups after \<open>insert\<close>, \<open>remove\<close> and \<open>retain\<close>,
  on maps whose keys are distinct. The lemmas of the block are about any map that keeps these
  promises; the interpretation discharges them for the association lists of the model.
\<close>

locale key_map =
  fixes get :: "'m \<Rightarrow> 'k \<Rightarrow> 'v option"
    and ins :: "'k \<Rightarrow> 'v \<Rightarrow> 'm \<Rightarrow> 'm"
    and del :: "'k \<Rightarrow> 'm \<Rightarrow> 'm"
    and ret :: "('k \<Rightarrow> bool) \<Rightarrow> 'm \<Rightarrow> 'm"
    and ok :: "'m \<Rightarrow> bool"
  assumes get_ins: "get (ins k v m) = (get m)(k \<mapsto> v)"
    and get_del: "ok m \<Longrightarrow> get (del k m) = (get m)(k := None)"
    and get_ret: "get (ret p m) k = (if p k then get m k else None)"
    and ok_ins: "ok m \<Longrightarrow> ok (ins k v m)"
    and ok_del: "ok m \<Longrightarrow> ok (del k m)"
    and ok_ret: "ok m \<Longrightarrow> ok (ret p m)"
begin

lemmas laws = get_ins get_del get_ret ok_ins ok_del ok_ret

lemma ins_all_ok: "ok m \<Longrightarrow> ok (fold (\<lambda>x. ins (f x) (g x)) xs m)"
  by (induction xs arbitrary: m) (auto intro: ok_ins)

lemma get_ins_all:
  "get (fold (\<lambda>k. ins k (g k)) ks m) x = (if x \<in> set ks then Some (g x) else get m x)"
  by (induction ks arbitrary: m) (auto simp: get_ins)

text \<open>
  A loop that, for each key of a list, rewrites that key's entry from its present value
  (deleting it on \<open>None\<close>) ends with every listed key rewritten once.
\<close>

definition rewrite :: "('k \<Rightarrow> 'v option \<Rightarrow> 'v option) \<Rightarrow> 'k \<Rightarrow> 'm \<Rightarrow> 'm" where
  "rewrite f k m = (case f k (get m k) of None \<Rightarrow> del k m | Some v \<Rightarrow> ins k v m)"

lemma rewrite_ok: "ok m \<Longrightarrow> ok (rewrite f k m)"
  by (simp add: rewrite_def ok_ins ok_del split: option.split)

lemma get_rewrite: "ok m \<Longrightarrow> get (rewrite f k m) x = (if x = k then f k (get m k) else get m x)"
  by (simp add: rewrite_def get_ins get_del split: option.split)

lemma get_rewrite_all:
  assumes "ok m" and "distinct ks"
  shows "get (fold (rewrite f) ks m) x = (if x \<in> set ks then f x (get m x) else get m x)"
  using assms by (induction ks arbitrary: m) (auto simp: rewrite_ok get_rewrite)

end

interpretation jm: key_map map_of map_insert map_remove map_retain distinct_keys
  by unfold_locales auto

section \<open>Well-formed values and equality\<close>

text \<open>The keys of a \<open>Map\<close> are distinct, at every level.\<close>

fun wf_json :: "json \<Rightarrow> bool" where
  "wf_json (JObj m) = (distinct_keys m \<and> list_all (\<lambda>(k, v). wf_json v) m)"
| "wf_json (JArr xs) = list_all wf_json xs"
| "wf_json _ = True"

lemma wf_json_JObj: "wf_json (JObj m) \<longleftrightarrow> distinct_keys m \<and> (\<forall>k v. (k, v) \<in> set m \<longrightarrow> wf_json v)"
  by (auto simp: list_all_iff)

lemma wf_json_map_of: "wf_json (JObj m) \<Longrightarrow> map_of m k = Some v \<Longrightarrow> wf_json v"
  by (auto simp: list_all_iff dest: map_of_SomeD)

lemma wf_json_item: "wf_json (JArr xs) \<Longrightarrow> x \<in> set xs \<Longrightarrow> wf_json x"
  by (simp add: list_all_iff)

text \<open>\<open>==\<close> on values: arrays element by element, objects by key whatever the order.\<close>

fun json_eq :: "json \<Rightarrow> json \<Rightarrow> bool" where
  "json_eq JNull JNull = True"
| "json_eq (JBool a) (JBool b) = (a = b)"
| "json_eq (JNum a) (JNum b) = (a = b)"
| "json_eq (JStr a) (JStr b) = (a = b)"
| "json_eq (JArr xs) (JArr ys) = list_all2 json_eq xs ys"
| "json_eq (JObj m) (JObj n) =
     (length m = length n \<and>
      list_all (\<lambda>(k, v). case map_of n k of None \<Rightarrow> False | Some w \<Rightarrow> json_eq v w) m)"
| "json_eq _ _ = False"

text \<open>\<open>HashSet<&Value>::contains\<close> and \<open>slice == slice\<close>.\<close>

definition json_mem :: "json \<Rightarrow> json list \<Rightarrow> bool" where
  "json_mem x xs = list_ex (\<lambda>y. json_eq y x) xs"

definition json_list_eq :: "json list \<Rightarrow> json list \<Rightarrow> bool" where
  "json_list_eq xs ys = list_all2 json_eq xs ys"

lemma keys_eq_if_subset:
  assumes "distinct_keys m" "distinct_keys n" "length m = length n"
    and "fst ` set m \<subseteq> fst ` set n"
  shows "fst ` set m = fst ` set n"
proof -
  have "card (fst ` set m) = card (fst ` set n)"
    using assms(1-3) unfolding distinct_keys_def set_map [symmetric]
    by (metis distinct_card length_map)
  with assms(4) show ?thesis by (simp add: card_subset_eq)
qed

lemma distinct_keys_length:
  assumes "distinct_keys m" "distinct_keys n" "fst ` set m = fst ` set n"
  shows "length m = length n"
  using assms unfolding distinct_keys_def set_map [symmetric]
  by (metis distinct_card length_map)

lemma json_eq_JObj:
  assumes "distinct_keys m" "distinct_keys n"
  shows "json_eq (JObj m) (JObj n) \<longleftrightarrow> (\<forall>k. rel_option json_eq (map_of m k) (map_of n k))"
    (is "?l \<longleftrightarrow> ?r")
proof
  assume l: ?l
  have sub: "fst ` set m \<subseteq> fst ` set n"
    using l by (auto simp: list_all_iff split: option.splits dest!: map_of_SomeD) (force dest: map_of_SomeD)
  with l assms have eq: "fst ` set m = fst ` set n" by (intro keys_eq_if_subset) auto
  show ?r
  proof
    fix k
    show "rel_option json_eq (map_of m k) (map_of n k)"
    proof (cases "map_of m k")
      case None
      then have "map_of n k = None" using eq by (simp add: map_of_eq_None_iff)
      with None show ?thesis by simp
    next
      case (Some v)
      then have "(k, v) \<in> set m" by (rule map_of_SomeD)
      with l Some show ?thesis by (auto simp: list_all_iff split: option.splits)
    qed
  qed
next
  assume r: ?r
  have dom: "map_of m k = None \<longleftrightarrow> map_of n k = None" for k
    using r[rule_format, of k] by (auto simp: option_rel_Some1 elim: option.rel_cases)
  then have "fst ` set m = fst ` set n" by (metis map_of_eq_None_iff subsetI subset_antisym)
  then have "length m = length n" using assms by (rule distinct_keys_length[rotated 2])
  moreover have "case map_of n k of None \<Rightarrow> False | Some w \<Rightarrow> json_eq v w" if "(k, v) \<in> set m" for k v
  proof -
    from that assms(1) have "map_of m k = Some v" by (simp add: map_of_iff_distinct)
    with r[rule_format, of k] show ?thesis by (auto simp: option_rel_Some1)
  qed
  ultimately show ?l by (auto simp: list_all_iff)
qed

lemma json_eq_refl: "wf_json v \<Longrightarrow> json_eq v v"
proof (induction v rule: wf_json.induct)
  case (1 m)
  then have "distinct_keys m" by simp
  have "rel_option json_eq (map_of m k) (map_of m k)" for k
  proof (cases "map_of m k")
    case (Some v)
    then have "(k, v) \<in> set m" by (rule map_of_SomeD)
    with 1 Some show ?thesis by (auto simp: list_all_iff)
  qed simp
  then show ?case using json_eq_JObj [OF \<open>distinct_keys m\<close> \<open>distinct_keys m\<close>] by simp
next
  case (2 xs)
  then show ?case by (auto simp: list_all_iff list.rel_refl_strong)
qed auto

lemma json_eq_sym: "json_eq v w \<Longrightarrow> wf_json v \<Longrightarrow> wf_json w \<Longrightarrow> json_eq w v"
proof (induction v w rule: json_eq.induct)
  case (5 xs ys)
  then show ?case by (auto simp: list_all2_conv_all_nth list_all_length)
next
  case (6 m n)
  then have d: "distinct_keys m" "distinct_keys n" by auto
  have "rel_option json_eq (map_of n k) (map_of m k)" for k
  proof -
    from 6 d have r: "rel_option json_eq (map_of m k) (map_of n k)" by (simp only: json_eq_JObj)
    show ?thesis
    proof (cases "map_of m k")
      case None
      with r show ?thesis by simp
    next
      case (Some v)
      with r obtain w where w: "map_of n k = Some w" "json_eq v w" by (auto simp: option_rel_Some1)
      have "json_eq w v"
        by (rule "6.IH"[OF map_of_SomeD [OF Some] refl w(1) w(2)])
          (use "6.prems" Some w in \<open>auto intro: wf_json_map_of\<close>)
      with Some w show ?thesis by simp
    qed
  qed
  then show ?case using json_eq_JObj [OF d(2,1)] by blast
qed auto

lemma json_eq_trans:
  "json_eq u v \<Longrightarrow> json_eq v w \<Longrightarrow> wf_json u \<Longrightarrow> wf_json v \<Longrightarrow> wf_json w \<Longrightarrow> json_eq u w"
proof (induction u v arbitrary: w rule: json_eq.induct)
  case (5 xs ys)
  then obtain zs where w: "w = JArr zs" by (cases w) auto
  have "json_eq (xs ! i) (zs ! i)" if "i < length xs" for i
    by (rule "5.IH" [of "xs ! i" "ys ! i"])
      (use that "5.prems" w in \<open>auto simp: list_all2_conv_all_nth list_all_length\<close>)
  with 5 w show ?case by (auto simp: list_all2_conv_all_nth)
next
  case (6 m n)
  then obtain l where w: "w = JObj l" by (cases w) auto
  with 6 have d: "distinct_keys m" "distinct_keys n" "distinct_keys l" by auto
  have "rel_option json_eq (map_of m k) (map_of l k)" for k
  proof -
    from 6 w d have r: "rel_option json_eq (map_of m k) (map_of n k)"
      "rel_option json_eq (map_of n k) (map_of l k)" by (simp_all only: json_eq_JObj)
    show ?thesis
    proof (cases "map_of m k")
      case None
      with r show ?thesis by simp
    next
      case (Some a)
      with r obtain b c where bc: "map_of n k = Some b" "json_eq a b" "map_of l k = Some c" "json_eq b c"
        by (auto simp: option_rel_Some1)
      have "json_eq a c"
        by (rule "6.IH"[OF map_of_SomeD [OF Some] refl bc(1,2) bc(4)])
          (use "6.prems" w Some bc in \<open>auto intro: wf_json_map_of\<close>)
      with Some bc show ?thesis by simp
    qed
  qed
  then show ?case using json_eq_JObj [OF d(1,3)] w by blast
qed auto

lemma json_mem_iff: "json_mem x xs \<longleftrightarrow> (\<exists>y\<in>set xs. json_eq y x)"
  by (simp add: json_mem_def list_ex_iff)

text \<open>The empty object and the empty array are equal to themselves only.\<close>

lemma json_eq_JObj_Nil [simp]:
  "json_eq (JObj []) w \<longleftrightarrow> w = JObj []"
  "json_eq v (JObj []) \<longleftrightarrow> v = JObj []"
  by (cases w; simp) (cases v; auto)

end
