(* ===== verification/Directives.thy ===== *)
theory Directives
  imports Json
begin

text \<open>
  The directive keys of a strategic merge patch
  (\<open>crates/k8s/src/strategicpatch/directives.rs\<close>): recognising them, building them, and
  stripping them from a value. The lemmas say that the three families of keys are disjoint and
  that each key determines its field, which is what keeps a patch unambiguous.
\<close>

section \<open>Directive keys\<close>

definition DIRECTIVE_PATCH :: string where
  "DIRECTIVE_PATCH = ''$patch''"

definition DIRECTIVE_SET_ELEMENT_ORDER_PREFIX :: string where
  "DIRECTIVE_SET_ELEMENT_ORDER_PREFIX = ''$setElementOrder/''"

definition DIRECTIVE_DELETE_FROM_PRIMITIVE_LIST_PREFIX :: string where
  "DIRECTIVE_DELETE_FROM_PRIMITIVE_LIST_PREFIX = ''$deleteFromPrimitiveList/''"

definition DIRECTIVE_RETAIN_KEYS :: string where
  "DIRECTIVE_RETAIN_KEYS = ''$retainKeys''"

definition patch_value_DELETE :: string where
  "patch_value_DELETE = ''delete''"

definition patch_value_REPLACE :: string where
  "patch_value_REPLACE = ''replace''"

lemmas directive_consts =
  DIRECTIVE_PATCH_def DIRECTIVE_SET_ELEMENT_ORDER_PREFIX_def
  DIRECTIVE_DELETE_FROM_PRIMITIVE_LIST_PREFIX_def DIRECTIVE_RETAIN_KEYS_def
  patch_value_DELETE_def patch_value_REPLACE_def

definition is_directive :: "string \<Rightarrow> bool" where
  "is_directive key = starts_with ''$'' key"

definition is_set_element_order :: "string \<Rightarrow> bool" where
  "is_set_element_order key = starts_with DIRECTIVE_SET_ELEMENT_ORDER_PREFIX key"

definition extract_set_element_order_field :: "string \<Rightarrow> string option" where
  "extract_set_element_order_field key = strip_prefix DIRECTIVE_SET_ELEMENT_ORDER_PREFIX key"

definition is_delete_from_primitive_list :: "string \<Rightarrow> bool" where
  "is_delete_from_primitive_list key = starts_with DIRECTIVE_DELETE_FROM_PRIMITIVE_LIST_PREFIX key"

definition extract_delete_from_primitive_list_field :: "string \<Rightarrow> string option" where
  "extract_delete_from_primitive_list_field key =
     strip_prefix DIRECTIVE_DELETE_FROM_PRIMITIVE_LIST_PREFIX key"

definition set_element_order_key :: "string \<Rightarrow> string" where
  "set_element_order_key field = DIRECTIVE_SET_ELEMENT_ORDER_PREFIX @ field"

definition delete_from_primitive_list_key :: "string \<Rightarrow> string" where
  "delete_from_primitive_list_key field = DIRECTIVE_DELETE_FROM_PRIMITIVE_LIST_PREFIX @ field"

definition is_delete_directive :: "json \<Rightarrow> bool" where
  "is_delete_directive value =
     (case as_object value of
        None \<Rightarrow> False
      | Some obj \<Rightarrow>
          (case map_of obj DIRECTIVE_PATCH of Some (JStr s) \<Rightarrow> s = patch_value_DELETE | _ \<Rightarrow> False))"

definition is_replace_directive :: "json \<Rightarrow> bool" where
  "is_replace_directive value =
     (case as_object value of
        None \<Rightarrow> False
      | Some obj \<Rightarrow>
          (case map_of obj DIRECTIVE_PATCH of Some (JStr s) \<Rightarrow> s = patch_value_REPLACE | _ \<Rightarrow> False))"

definition create_delete_directive :: "string \<Rightarrow> json \<Rightarrow> json" where
  "create_delete_directive merge_key key_value =
     JObj (map_insert DIRECTIVE_PATCH (JStr patch_value_DELETE) (map_insert merge_key key_value []))"

fun strip_directives :: "json \<Rightarrow> json" where
  "strip_directives (JObj m) =
     JObj (map (\<lambda>(key, val). (key, strip_directives val)) (filter (\<lambda>(key, _). \<not> is_directive key) m))"
| "strip_directives (JArr arr) = JArr (map strip_directives arr)"
| "strip_directives other = other"

section \<open>Keys determine their field\<close>

lemma is_directive_iff: "is_directive k \<longleftrightarrow> (\<exists>r. k = CHR ''$'' # r)"
  by (auto simp: is_directive_def starts_with_iff)

lemma extract_order_iff:
  "extract_set_element_order_field k = Some f \<longleftrightarrow> k = set_element_order_key f"
  by (simp add: extract_set_element_order_field_def set_element_order_key_def strip_prefix_Some_iff)

lemma extract_delete_iff:
  "extract_delete_from_primitive_list_field k = Some f \<longleftrightarrow> k = delete_from_primitive_list_key f"
  by (simp add: extract_delete_from_primitive_list_field_def delete_from_primitive_list_key_def
      strip_prefix_Some_iff)

lemma order_key_inject [simp]: "set_element_order_key f = set_element_order_key g \<longleftrightarrow> f = g"
  by (simp add: set_element_order_key_def)

lemma delete_key_inject [simp]:
  "delete_from_primitive_list_key f = delete_from_primitive_list_key g \<longleftrightarrow> f = g"
  by (simp add: delete_from_primitive_list_key_def)

lemma directive_keys_distinct [simp]:
  "set_element_order_key f \<noteq> delete_from_primitive_list_key g"
  "delete_from_primitive_list_key g \<noteq> set_element_order_key f"
  "set_element_order_key f \<noteq> DIRECTIVE_RETAIN_KEYS"
  "DIRECTIVE_RETAIN_KEYS \<noteq> set_element_order_key f"
  "delete_from_primitive_list_key f \<noteq> DIRECTIVE_RETAIN_KEYS"
  "DIRECTIVE_RETAIN_KEYS \<noteq> delete_from_primitive_list_key f"
  "set_element_order_key f \<noteq> DIRECTIVE_PATCH"
  "DIRECTIVE_PATCH \<noteq> set_element_order_key f"
  "delete_from_primitive_list_key f \<noteq> DIRECTIVE_PATCH"
  "DIRECTIVE_PATCH \<noteq> delete_from_primitive_list_key f"
  "DIRECTIVE_PATCH \<noteq> DIRECTIVE_RETAIN_KEYS"
  "DIRECTIVE_RETAIN_KEYS \<noteq> DIRECTIVE_PATCH"
  by (simp_all add: set_element_order_key_def delete_from_primitive_list_key_def directive_consts)

lemma directive_keys_directive [simp]:
  "is_directive (set_element_order_key f)"
  "is_directive (delete_from_primitive_list_key f)"
  "is_directive DIRECTIVE_RETAIN_KEYS"
  "is_directive DIRECTIVE_PATCH"
  by (simp_all add: is_directive_iff set_element_order_key_def delete_from_primitive_list_key_def
      directive_consts)

lemma plain_key_neq_directive [simp]:
  assumes "\<not> is_directive k"
  shows "k \<noteq> set_element_order_key f" "set_element_order_key f \<noteq> k"
    "k \<noteq> delete_from_primitive_list_key f" "delete_from_primitive_list_key f \<noteq> k"
    "k \<noteq> DIRECTIVE_RETAIN_KEYS" "DIRECTIVE_RETAIN_KEYS \<noteq> k"
    "k \<noteq> DIRECTIVE_PATCH" "DIRECTIVE_PATCH \<noteq> k"
  using assms by auto

lemma extract_plain [simp]:
  "\<not> is_directive k \<Longrightarrow> extract_set_element_order_field k = None"
  "\<not> is_directive k \<Longrightarrow> extract_delete_from_primitive_list_field k = None"
  by (metis extract_order_iff directive_keys_directive(1) option.exhaust)
    (metis extract_delete_iff directive_keys_directive(2) option.exhaust)

section \<open>Stripping\<close>

text \<open>No directive key at any level.\<close>

fun no_directives :: "json \<Rightarrow> bool" where
  "no_directives (JObj m) = list_all (\<lambda>(k, v). \<not> is_directive k \<and> no_directives v) m"
| "no_directives (JArr xs) = list_all no_directives xs"
| "no_directives _ = True"

lemma strip_directives_clean: "no_directives (strip_directives v)"
  by (induction v rule: strip_directives.induct) (auto simp: list_all_iff)

lemma strip_directives_id: "no_directives v \<Longrightarrow> strip_directives v = v"
proof (induction v rule: no_directives.induct)
  case (1 m)
  then have "filter (\<lambda>(k, _). \<not> is_directive k) m = m"
    by (auto simp: list_all_iff filter_id_conv)
  moreover have "map (\<lambda>(k, v). (k, strip_directives v)) m = m"
    using 1 by (intro map_idI) (auto simp: list_all_iff)
  ultimately show ?case by simp
qed (auto simp: list_all_iff intro: map_idI)

lemma strip_directives_wf: "wf_json v \<Longrightarrow> wf_json (strip_directives v)"
proof (induction v rule: strip_directives.induct)
  case (1 m)
  have "distinct_keys (map (\<lambda>(k, v). (k, strip_directives v)) (filter (\<lambda>(k, _). \<not> is_directive k) m))"
    using "1.prems" by (auto simp: distinct_keys_def distinct_map_filter comp_def case_prod_unfold)
  with 1 show ?case by (auto simp: list_all_iff)
qed (auto simp: list_all_iff)

text \<open>Stripping keeps every field that is not a directive, stripped in turn.\<close>

lemma strip_directives_get:
  "value_get (strip_directives (JObj m)) k =
     (if is_directive k then None else map_option strip_directives (map_of m k))"
  by (induction m) auto

end
