(* ===== verification/Patch_Types.thy ===== *)
theory Patch_Types
  imports Directives
begin

text \<open>
  The schema metadata of \<open>crates/k8s/src/strategicpatch/types.rs\<close>: patch strategies and their
  parser, \<open>PatchMeta\<close>, nested \<open>FieldSchema\<close>s and the lookup of a field by path. A
  \<open>HashMap\<close> field is an association list read with \<open>map_of\<close>.
\<close>

section \<open>Patch strategies\<close>

datatype patch_strategy = Merge | Replace | RetainKeys

datatype unknown_patch_strategy = UnknownPatchStrategy string

definition patch_strategy_from_str :: "string \<Rightarrow> unknown_patch_strategy + patch_strategy" where
  "patch_strategy_from_str s =
     (if s = ''merge'' then Inr Merge
      else if s = ''replace'' then Inr Replace
      else if s = ''retainKeys'' then Inr RetainKeys
      else Inl (UnknownPatchStrategy s))"

section \<open>Patch metadata\<close>

record patch_meta =
  pm_strategies :: "patch_strategy list"
  pm_merge_keys :: "string list option"

definition patch_meta_default :: patch_meta where
  "patch_meta_default = \<lparr>pm_strategies = [], pm_merge_keys = None\<rparr>"

definition merge_with_key :: "string \<Rightarrow> patch_meta" where
  "merge_with_key key = \<lparr>pm_strategies = [Merge], pm_merge_keys = Some [key]\<rparr>"

definition merge_with_keys :: "string list \<Rightarrow> patch_meta" where
  "merge_with_keys keys = \<lparr>pm_strategies = [Merge], pm_merge_keys = Some keys\<rparr>"

definition meta_merge :: patch_meta where
  "meta_merge = \<lparr>pm_strategies = [Merge], pm_merge_keys = None\<rparr>"

definition meta_replace :: patch_meta where
  "meta_replace = \<lparr>pm_strategies = [Replace], pm_merge_keys = None\<rparr>"

definition is_merge :: "patch_meta \<Rightarrow> bool" where
  "is_merge m = (Merge \<in> set (pm_strategies m))"

definition is_replace :: "patch_meta \<Rightarrow> bool" where
  "is_replace m = (Replace \<in> set (pm_strategies m))"

definition has_merge_key :: "patch_meta \<Rightarrow> bool" where
  "has_merge_key m = (case pm_merge_keys m of None \<Rightarrow> False | Some k \<Rightarrow> k \<noteq> [])"

section \<open>Field schemas\<close>

datatype field_schema =
  FieldSchema patch_meta "(string \<times> field_schema) list option" "field_schema option"

definition field_schema_new :: "patch_meta \<Rightarrow> field_schema" where
  "field_schema_new pm = FieldSchema pm None None"

definition array_with_merge_key :: "string \<Rightarrow> field_schema \<Rightarrow> field_schema" where
  "array_with_merge_key key items = FieldSchema (merge_with_key key) None (Some items)"

definition field_schema_object :: "(string \<times> field_schema) list \<Rightarrow> field_schema" where
  "field_schema_object properties = FieldSchema patch_meta_default (Some properties) None"

fun field_patch_meta :: "field_schema \<Rightarrow> patch_meta" where
  "field_patch_meta (FieldSchema pm _ _) = pm"

fun get_field :: "field_schema \<Rightarrow> string \<Rightarrow> field_schema option" where
  "get_field (FieldSchema _ props _) name = Option.bind props (\<lambda>ps. map_of ps name)"

fun item_schema :: "field_schema \<Rightarrow> field_schema option" where
  "item_schema (FieldSchema _ _ items) = items"

record type_schema =
  ts_fields :: "(string \<times> field_schema) list"

text \<open>\<open>get_field_by_path\<close>: the loop over \<open>&path[1..]\<close>, leaving at the first missing field.\<close>

fun walk_fields :: "field_schema \<Rightarrow> string list \<Rightarrow> field_schema option" where
  "walk_fields current [] = Some current"
| "walk_fields current (segment # rest) =
     Option.bind (get_field current segment) (\<lambda>next. walk_fields next rest)"

definition get_field_by_path :: "type_schema \<Rightarrow> string list \<Rightarrow> field_schema option" where
  "get_field_by_path ts path =
     (case path of
        [] \<Rightarrow> None
      | p0 # rest \<Rightarrow> Option.bind (map_of (ts_fields ts) p0) (\<lambda>current. walk_fields current rest))"

definition get_patch_meta :: "type_schema \<Rightarrow> string list \<Rightarrow> patch_meta option" where
  "get_patch_meta ts path = map_option field_patch_meta (get_field_by_path ts path)"

section \<open>Facts\<close>

text \<open>The parser accepts exactly the serde names of the three strategies.\<close>

fun patch_strategy_name :: "patch_strategy \<Rightarrow> string" where
  "patch_strategy_name Merge = ''merge''"
| "patch_strategy_name Replace = ''replace''"
| "patch_strategy_name RetainKeys = ''retainKeys''"

lemma patch_strategy_from_str_iff:
  "patch_strategy_from_str s = Inr p \<longleftrightarrow> s = patch_strategy_name p"
  by (cases p) (auto simp: patch_strategy_from_str_def)

lemma walk_fields_append:
  "walk_fields f (xs @ ys) = Option.bind (walk_fields f xs) (\<lambda>g. walk_fields g ys)"
  by (induction f xs rule: walk_fields.induct) (auto split: Option.bind_split)

text \<open>A path resolves through its parent: the path's last segment is a field of the parent's schema.\<close>

lemma get_field_by_path_snoc:
  "path \<noteq> [] \<Longrightarrow>
   get_field_by_path ts (path @ [segment]) =
     Option.bind (get_field_by_path ts path) (\<lambda>f. get_field f segment)"
  by (cases path)
    (auto simp: get_field_by_path_def walk_fields_append split: Option.bind_split)

end
