(* ===== verification/Builtin_Schemas.thy ===== *)
theory Builtin_Schemas
  imports Patch_Types
begin

text \<open>
  The merge keys compiled into the program
  (\<open>crates/k8s/src/strategicpatch/builtin_schemas.rs\<close>): the table group, version, kind,
  field, one definition per API group, the parser of schema type names and the lookups. The
  compile-time perfect hash maps are association lists read with \<open>map_of\<close>.
\<close>

section \<open>Entries\<close>

datatype merge_type = ServerSideApply | StrategicMergePatch

definition merge_type_default :: merge_type where
  "merge_type_default = StrategicMergePatch"

record field_info =
  ssa_merge_keys :: "string list"
  smp_merge_keys :: "string list"
  fi_strategies :: "patch_strategy list"

definition field_info_merge_keys :: "field_info \<Rightarrow> merge_type \<Rightarrow> string list" where
  "field_info_merge_keys info mt =
     (case mt of ServerSideApply \<Rightarrow> ssa_merge_keys info | StrategicMergePatch \<Rightarrow> smp_merge_keys info)"

definition MERGE :: "patch_strategy list" where
  "MERGE = [Merge]"

definition MERGE_RETAIN_KEYS :: "patch_strategy list" where
  "MERGE_RETAIN_KEYS = [Merge, RetainKeys]"

abbreviation field :: "string list \<Rightarrow> string list \<Rightarrow> patch_strategy list \<Rightarrow> field_info" where
  "field ssa smp strategies \<equiv>
     \<lparr>ssa_merge_keys = ssa, smp_merge_keys = smp, fi_strategies = strategies\<rparr>"

section \<open>The table\<close>

definition schemas_core :: "(string \<times> (string \<times> (string \<times> field_info) list) list) list" where
  "schemas_core =
     [(''v1'',
        [(''PersistentVolumeClaimStatus'',
           [(''conditions'', field [''type''] [''type''] MERGE)]),
         (''Container'',
           [(''ports'', field [''containerPort'', ''protocol''] [''containerPort''] MERGE),
            (''env'', field [''name''] [''name''] MERGE),
            (''volumeMounts'', field [''mountPath''] [''mountPath''] MERGE),
            (''volumeDevices'', field [''devicePath''] [''devicePath''] MERGE)]),
         (''EphemeralContainer'',
           [(''ports'', field [''containerPort'', ''protocol''] [''containerPort''] MERGE),
            (''env'', field [''name''] [''name''] MERGE),
            (''volumeMounts'', field [''mountPath''] [''mountPath''] MERGE),
            (''volumeDevices'', field [''devicePath''] [''devicePath''] MERGE)]),
         (''ContainerStatus'',
           [(''volumeMounts'', field [''mountPath''] [''mountPath''] MERGE),
            (''allocatedResourcesStatus'', field [''name''] [''name''] MERGE)]),
         (''PodSpec'',
           [(''volumes'', field [''name''] [''name''] MERGE_RETAIN_KEYS),
            (''initContainers'', field [''name''] [''name''] MERGE),
            (''containers'', field [''name''] [''name''] MERGE),
            (''ephemeralContainers'', field [''name''] [''name''] MERGE),
            (''imagePullSecrets'', field [''name''] [''name''] MERGE),
            (''hostAliases'', field [''ip''] [''ip''] MERGE),
            (''topologySpreadConstraints'', field [''topologyKey'', ''whenUnsatisfiable''] [''topologyKey''] MERGE),
            (''schedulingGates'', field [''name''] [''name''] MERGE),
            (''resourceClaims'', field [''name''] [''name''] MERGE_RETAIN_KEYS)]),
         (''PodStatus'',
           [(''conditions'', field [''type''] [''type''] MERGE),
            (''hostIPs'', field [''ip''] [''ip''] MERGE),
            (''podIPs'', field [''ip''] [''ip''] MERGE),
            (''resourceClaimStatuses'', field [''name''] [''name''] MERGE_RETAIN_KEYS)]),
         (''ReplicationControllerStatus'',
           [(''conditions'', field [''type''] [''type''] MERGE)]),
         (''ResourceQuotaStatus'',
           [(''conditions'', field [''type''] [''type''] MERGE)]),
         (''ServiceSpec'',
           [(''ports'', field [''port'', ''protocol''] [''port''] MERGE)]),
         (''ServiceStatus'',
           [(''conditions'', field [''type''] [''type''] MERGE)]),
         (''ServiceAccount'',
           [(''secrets'', field [''name''] [''name''] MERGE)]),
         (''ResourceRequirements'',
           [(''claims'', field [''name''] [''name''] MERGE)]),
         (''NodeStatus'',
           [(''conditions'', field [''type''] [''type''] MERGE),
            (''addresses'', field [''type''] [''type''] MERGE)]),
         (''NamespaceStatus'',
           [(''conditions'', field [''type''] [''type''] MERGE)]),
         (''ComponentStatus'',
           [(''conditions'', field [''type''] [''type''] MERGE)])])]"

definition schemas_apps :: "(string \<times> (string \<times> (string \<times> field_info) list) list) list" where
  "schemas_apps =
     [(''v1'',
        [(''StatefulSetStatus'',
           [(''conditions'', field [''type''] [''type''] MERGE)]),
         (''DeploymentStatus'',
           [(''conditions'', field [''type''] [''type''] MERGE)]),
         (''DaemonSetStatus'',
           [(''conditions'', field [''type''] [''type''] MERGE)]),
         (''ReplicaSetStatus'',
           [(''conditions'', field [''type''] [''type''] MERGE)])])]"

definition schemas_batch :: "(string \<times> (string \<times> (string \<times> field_info) list) list) list" where
  "schemas_batch =
     [(''v1'',
        [(''JobStatus'',
           [(''conditions'', field [''type''] [''type''] MERGE)])])]"

definition schemas_autoscaling :: "(string \<times> (string \<times> (string \<times> field_info) list) list) list" where
  "schemas_autoscaling =
     [(''v2'',
        [(''HorizontalPodAutoscalerStatus'',
           [(''conditions'', field [''type''] [''type''] MERGE)])])]"

definition schemas_networking :: "(string \<times> (string \<times> (string \<times> field_info) list) list) list" where
  "schemas_networking =
     [(''v1'',
        [(''IngressLoadBalancerStatus'',
           [(''conditions'', field [''type''] [''type''] MERGE)]),
         (''ServiceCIDRStatus'',
           [(''conditions'', field [''type''] [''type''] MERGE)])])]"

definition schemas_policy :: "(string \<times> (string \<times> (string \<times> field_info) list) list) list" where
  "schemas_policy =
     [(''v1'',
        [(''PodDisruptionBudgetStatus'',
           [(''conditions'', field [''type''] [''type''] MERGE)])])]"

definition schemas_admissionregistration :: "(string \<times> (string \<times> (string \<times> field_info) list) list) list" where
  "schemas_admissionregistration =
     [(''v1'',
        [(''ValidatingAdmissionPolicySpec'',
           [(''matchConditions'', field [''name''] [''name''] MERGE),
            (''variables'', field [''name''] [''name''] MERGE)]),
         (''ValidatingAdmissionPolicyStatus'',
           [(''conditions'', field [''type''] [''type''] MERGE)]),
         (''ValidatingWebhookConfiguration'',
           [(''webhooks'', field [''name''] [''name''] MERGE)]),
         (''MutatingWebhookConfiguration'',
           [(''webhooks'', field [''name''] [''name''] MERGE)]),
         (''ValidatingWebhook'',
           [(''matchConditions'', field [''name''] [''name''] MERGE)]),
         (''MutatingWebhook'',
           [(''matchConditions'', field [''name''] [''name''] MERGE)])])]"

definition schemas_storage :: "(string \<times> (string \<times> (string \<times> field_info) list) list) list" where
  "schemas_storage =
     [(''v1'',
        [(''CSINodeSpec'',
           [(''drivers'', field [''name''] [''name''] MERGE)])])]"

definition schemas_flowcontrol :: "(string \<times> (string \<times> (string \<times> field_info) list) list) list" where
  "schemas_flowcontrol =
     [(''v1'',
        [(''FlowSchemaStatus'',
           [(''conditions'', field [''type''] [''type''] MERGE)]),
         (''PriorityLevelConfigurationStatus'',
           [(''conditions'', field [''type''] [''type''] MERGE)])])]"

definition schemas_certificates :: "(string \<times> (string \<times> (string \<times> field_info) list) list) list" where
  "schemas_certificates =
     [(''v1'',
        [(''CertificateSigningRequestStatus'',
           [(''conditions'', field [''type''] [''type''] MERGE)])]),
      (''v1beta1'',
        [(''ClusterTrustBundleStatus'',
           [(''conditions'', field [''type''] [''type''] MERGE)])])]"

definition schemas_resource :: "(string \<times> (string \<times> (string \<times> field_info) list) list) list" where
  "schemas_resource =
     [(''v1'',
        [(''ResourceClaimStatus'',
           [(''reservedFor'', field [''uid''] [''uid''] MERGE)])])]"

definition schemas_storagemigration :: "(string \<times> (string \<times> (string \<times> field_info) list) list) list" where
  "schemas_storagemigration =
     [(''v1beta1'',
        [(''StorageVersionMigrationStatus'',
           [(''conditions'', field [''type''] [''type''] MERGE)])])]"

definition BUILTIN_SCHEMAS ::
  "(string \<times> (string \<times> (string \<times> (string \<times> field_info) list) list) list) list" where
  "BUILTIN_SCHEMAS =
     [(''core'', schemas_core),
      (''apps'', schemas_apps),
      (''batch'', schemas_batch),
      (''autoscaling'', schemas_autoscaling),
      (''networking'', schemas_networking),
      (''policy'', schemas_policy),
      (''admissionregistration'', schemas_admissionregistration),
      (''storage'', schemas_storage),
      (''flowcontrol'', schemas_flowcontrol),
      (''certificates'', schemas_certificates),
      (''resource'', schemas_resource),
      (''storagemigration'', schemas_storagemigration)]"

lemmas schema_tables =
  BUILTIN_SCHEMAS_def schemas_core_def schemas_apps_def schemas_batch_def schemas_autoscaling_def schemas_networking_def schemas_policy_def schemas_admissionregistration_def schemas_storage_def schemas_flowcontrol_def schemas_certificates_def schemas_resource_def schemas_storagemigration_def
  MERGE_def MERGE_RETAIN_KEYS_def

section \<open>Lookups\<close>

definition has_builtin_coverage :: "string \<Rightarrow> string \<Rightarrow> bool" where
  "has_builtin_coverage grp version =
     (case map_of BUILTIN_SCHEMAS grp of
        None \<Rightarrow> False
      | Some versions \<Rightarrow> map_of versions version \<noteq> None)"

definition parse_schema_type :: "string \<Rightarrow> (string \<times> string \<times> string) option" where
  "parse_schema_type schema_type =
     (let parts = split_on CHR ''.'' schema_type in
      if length parts \<ge> 6 \<and> parts ! 0 = ''io'' \<and> parts ! 1 = ''k8s'' \<and> parts ! 2 = ''api''
      then Some (hd (split_on CHR ''_'' (parts ! 3)), parts ! 4, parts ! 5)
      else None)"

definition lookup_field_info :: "string \<Rightarrow> string \<Rightarrow> field_info option" where
  "lookup_field_info schema_type field_name =
     Option.bind (parse_schema_type schema_type) (\<lambda>(grp, version, kind).
     Option.bind (map_of BUILTIN_SCHEMAS grp) (\<lambda>versions.
     Option.bind (map_of versions version) (\<lambda>kinds.
     Option.bind (map_of kinds kind) (\<lambda>fields. map_of fields field_name))))"

definition builtin_get_merge_keys :: "string \<Rightarrow> string \<Rightarrow> merge_type \<Rightarrow> string list option" where
  "builtin_get_merge_keys schema_type field_name mt =
     map_option (\<lambda>info. field_info_merge_keys info mt) (lookup_field_info schema_type field_name)"

definition builtin_get_patch_strategies :: "string \<Rightarrow> string \<Rightarrow> patch_strategy list option" where
  "builtin_get_patch_strategies schema_type field_name =
     map_option fi_strategies (lookup_field_info schema_type field_name)"

definition get_field_schema :: "string \<Rightarrow> string \<Rightarrow> merge_type \<Rightarrow> field_schema option" where
  "get_field_schema schema_type field_name mt =
     map_option (\<lambda>info. field_schema_new
        \<lparr>pm_strategies = fi_strategies info, pm_merge_keys = Some (field_info_merge_keys info mt)\<rparr>)
       (lookup_field_info schema_type field_name)"

definition gvk_to_schema_type :: "string \<Rightarrow> string \<Rightarrow> string" where
  "gvk_to_schema_type api_version kind =
     (let (grp, version) =
        (case find_char CHR ''/'' api_version of
           Some slash_pos \<Rightarrow> (take slash_pos api_version, drop (Suc slash_pos) api_version)
         | None \<Rightarrow> (''core'', api_version));
        group_path =
        (if grp = ''core'' then ''core'' else replace_chars [CHR ''.'', CHR ''-''] ''_'' grp)
      in ''io.k8s.api.'' @ group_path @ ''.'' @ version @ ''.'' @ kind)"

definition EMBEDDED_SCHEMAS :: "(string \<times> string) list" where
  "EMBEDDED_SCHEMAS = [(''io.k8s.api.core.v1.PodTemplateSpec.spec'', ''io.k8s.api.core.v1.PodSpec'')]"

definition get_embedded_schema :: "string \<Rightarrow> string \<Rightarrow> string option" where
  "get_embedded_schema parent_type field_name =
     map_of EMBEDDED_SCHEMAS (parent_type @ ''.'' @ field_name)"

section \<open>Facts about the table\<close>

text \<open>
  Every entry of the table: a non-empty list of merge keys of either type, none of them a
  directive key, and \<open>merge\<close> among the strategies.
\<close>

definition field_info_ok :: "field_info \<Rightarrow> bool" where
  "field_info_ok info =
     (ssa_merge_keys info \<noteq> [] \<and> smp_merge_keys info \<noteq> [] \<and>
      list_all (\<lambda>k. \<not> is_directive k \<and> k \<noteq> []) (ssa_merge_keys info) \<and>
      list_all (\<lambda>k. \<not> is_directive k \<and> k \<noteq> []) (smp_merge_keys info) \<and>
      Merge \<in> set (fi_strategies info))"

lemma builtin_table_ok:
  "list_all (\<lambda>(_, versions). list_all (\<lambda>(_, kinds). list_all (\<lambda>(_, fields).
     list_all (\<lambda>(_, info). field_info_ok info) fields) kinds) versions) BUILTIN_SCHEMAS"
  by (simp add: schema_tables field_info_ok_def is_directive_def)

lemma lookup_field_info_ok:
  assumes "lookup_field_info schema_type field_name = Some info"
  shows "field_info_ok info"
  using assms builtin_table_ok unfolding lookup_field_info_def
  by (auto simp: list_all_iff bind_eq_Some_conv dest!: map_of_SomeD) fast

lemma builtin_get_merge_keys_ok:
  assumes "builtin_get_merge_keys schema_type field_name mt = Some ks"
  shows "ks \<noteq> []" and "k \<in> set ks \<Longrightarrow> \<not> is_directive k"
  using assms
  by (cases mt; auto simp: builtin_get_merge_keys_def field_info_merge_keys_def field_info_ok_def
      list_all_iff dest!: lookup_field_info_ok)+

text \<open>Where the table gives merge keys it gives strategies, and the other way round.\<close>

lemma builtin_lookups_agree:
  "builtin_get_merge_keys schema_type field_name mt = None \<longleftrightarrow>
   builtin_get_patch_strategies schema_type field_name = None"
  by (simp add: builtin_get_merge_keys_def builtin_get_patch_strategies_def)

text \<open>A type name the program builds from an API version parses back to group, version and kind.\<close>

lemma parse_schema_type_build:
  assumes "CHR ''.'' \<notin> set g" "CHR ''.'' \<notin> set v" "CHR ''.'' \<notin> set k"
  shows "parse_schema_type (''io.k8s.api.'' @ g @ ''.'' @ v @ ''.'' @ k) =
         Some (hd (split_on CHR ''_'' g), v, k)"
proof -
  have "split_on CHR ''.'' (''io'' @ CHR ''.'' # ''k8s'' @ CHR ''.'' # ''api'' @ CHR ''.'' #
          g @ CHR ''.'' # v @ CHR ''.'' # k) = [''io'', ''k8s'', ''api'', g, v, k]"
    using assms by (simp only: split_on_append_sep split_on_no_sep) simp
  then have "split_on CHR ''.'' (''io.k8s.api.'' @ g @ ''.'' @ v @ ''.'' @ k) =
             [''io'', ''k8s'', ''api'', g, v, k]" by simp
  then show ?thesis by (simp add: parse_schema_type_def)
qed

end
