(* ===== verification/Schema_Lookup.thy ===== *)
theory Schema_Lookup
  imports Builtin_Schemas
begin

text \<open>
  Schema lookup (\<open>crates/k8s/src/strategicpatch/schema.rs\<close>): the trait \<open>SchemaLookup\<close> as a
  record of functions (the trait object), the lookup over the built-in table with its path
  patterns, and the combined lookup that falls back to OpenAPI data. The locale
  \<open>merge_schema\<close> is what the diff and merge algorithms rely on of a lookup.
\<close>

section \<open>The trait\<close>

datatype merge_keys =
    Static "string list"
  | Borrowed "string list"

fun mk_iter :: "merge_keys \<Rightarrow> string list" where
  "mk_iter (Static keys) = keys"
| "mk_iter (Borrowed keys) = keys"

definition mk_len :: "merge_keys \<Rightarrow> nat" where
  "mk_len ks = length (mk_iter ks)"

definition mk_is_empty :: "merge_keys \<Rightarrow> bool" where
  "mk_is_empty ks = (mk_len ks = 0)"

record schema_lookup =
  sl_merge_keys :: "string \<Rightarrow> merge_keys option"
  sl_patch_strategies :: "string \<Rightarrow> patch_strategy list"
  sl_nested_type :: "string \<Rightarrow> string \<Rightarrow> string option"

text \<open>The trait's provided methods.\<close>

definition default_patch_strategies :: "string \<Rightarrow> patch_strategy list" where
  "default_patch_strategies path = []"

definition has_retain_keys :: "schema_lookup \<Rightarrow> string \<Rightarrow> bool" where
  "has_retain_keys schema path = (RetainKeys \<in> set (sl_patch_strategies schema path))"

section \<open>The built-in lookup\<close>

record builtin_lookup =
  bl_root_type :: string
  bl_kind :: string
  bl_merge_type :: merge_type

definition builtin_with_merge_type :: "string \<Rightarrow> string \<Rightarrow> merge_type \<Rightarrow> builtin_lookup" where
  "builtin_with_merge_type api_version kind mt =
     \<lparr>bl_root_type = gvk_to_schema_type api_version kind, bl_kind = kind, bl_merge_type = mt\<rparr>"

definition builtin_new :: "string \<Rightarrow> string \<Rightarrow> builtin_lookup" where
  "builtin_new api_version kind = builtin_with_merge_type api_version kind merge_type_default"

definition builtin_for_type_with_merge_type :: "string \<Rightarrow> merge_type \<Rightarrow> builtin_lookup" where
  "builtin_for_type_with_merge_type schema_type mt =
     \<lparr>bl_root_type = schema_type, bl_kind = [], bl_merge_type = mt\<rparr>"

definition builtin_for_type :: "string \<Rightarrow> builtin_lookup" where
  "builtin_for_type schema_type = builtin_for_type_with_merge_type schema_type merge_type_default"

definition resolve_podspec_path :: "string \<Rightarrow> string" where
  "resolve_podspec_path path =
     (if path = ''containers'' \<or> path = ''initContainers'' then ''io.k8s.api.core.v1.Container''
      else if path = ''ephemeralContainers'' then ''io.k8s.api.core.v1.EphemeralContainer''
      else if starts_with ''containers.'' path \<or> starts_with ''initContainers.'' path
        then ''io.k8s.api.core.v1.Container''
      else if starts_with ''ephemeralContainers.'' path
        then ''io.k8s.api.core.v1.EphemeralContainer''
      else ''io.k8s.api.core.v1.PodSpec'')"

definition resolve_schema_type :: "builtin_lookup \<Rightarrow> string \<Rightarrow> string" where
  "resolve_schema_type self path =
     (if ends_with ''spec.template.spec'' path \<or> path = ''spec.template.spec''
        then ''io.k8s.api.core.v1.PodSpec''
      else if starts_with ''spec.template.spec.'' path
        then resolve_podspec_path (the (strip_prefix ''spec.template.spec.'' path))
      else if bl_kind self = ''Pod'' \<and> path = ''spec'' then ''io.k8s.api.core.v1.PodSpec''
      else if bl_kind self = ''Pod'' \<and> starts_with ''spec.'' path
        then resolve_podspec_path (the (strip_prefix ''spec.'' path))
      else if ends_with ''spec.jobTemplate.spec.template.spec'' path
        then ''io.k8s.api.core.v1.PodSpec''
      else if starts_with ''spec.jobTemplate.spec.template.spec.'' path
        then resolve_podspec_path (the (strip_prefix ''spec.jobTemplate.spec.template.spec.'' path))
      else if bl_kind self = ''Service'' \<and> path = ''spec'' then ''io.k8s.api.core.v1.ServiceSpec''
      else if bl_kind self = ''Service'' \<and> starts_with ''spec.'' path
        then ''io.k8s.api.core.v1.ServiceSpec''
      else bl_root_type self)"

definition builtin_resolve_path :: "builtin_lookup \<Rightarrow> string \<Rightarrow> (string \<times> string) option" where
  "builtin_resolve_path self path =
     (let field_name = rsplit_next CHR ''.'' path;
        parent_path = (case rfind CHR ''.'' path of Some pos \<Rightarrow> take pos path | None \<Rightarrow> []);
        schema_type = (if parent_path = [] then bl_root_type self else resolve_schema_type self parent_path)
      in Some (schema_type, field_name))"

definition builtin_lookup_merge_keys :: "builtin_lookup \<Rightarrow> string \<Rightarrow> merge_keys option" where
  "builtin_lookup_merge_keys self path =
     Option.bind (builtin_resolve_path self path) (\<lambda>(schema_type, field_name).
       map_option Static (builtin_get_merge_keys schema_type field_name (bl_merge_type self)))"

definition builtin_lookup_patch_strategies :: "builtin_lookup \<Rightarrow> string \<Rightarrow> patch_strategy list" where
  "builtin_lookup_patch_strategies self path =
     (case builtin_resolve_path self path of
        None \<Rightarrow> []
      | Some (schema_type, field_name) \<Rightarrow>
          (case builtin_get_patch_strategies schema_type field_name of None \<Rightarrow> [] | Some s \<Rightarrow> s))"

definition builtin_lookup_nested_type :: "builtin_lookup \<Rightarrow> string \<Rightarrow> string \<Rightarrow> string option" where
  "builtin_lookup_nested_type self parent_type field_name = get_embedded_schema parent_type field_name"

definition builtin_schema :: "builtin_lookup \<Rightarrow> schema_lookup" where
  "builtin_schema self =
     \<lparr>sl_merge_keys = builtin_lookup_merge_keys self,
      sl_patch_strategies = builtin_lookup_patch_strategies self,
      sl_nested_type = builtin_lookup_nested_type self\<rparr>"

section \<open>The combined lookup\<close>

record combined_lookup =
  cl_builtin :: builtin_lookup
  cl_root_type :: string
  cl_openapi_merge_keys :: "string \<rightharpoonup> string list"
  cl_openapi_patch_strategies :: "string \<rightharpoonup> patch_strategy list"
  cl_openapi_type_refs :: "string \<rightharpoonup> string"

definition combined_with_openapi_data ::
  "string \<Rightarrow> string \<Rightarrow> (string \<rightharpoonup> string list) \<Rightarrow> (string \<rightharpoonup> patch_strategy list) \<Rightarrow>
   (string \<rightharpoonup> string) \<Rightarrow> combined_lookup" where
  "combined_with_openapi_data api_version kind mks pss refs =
     \<lparr>cl_builtin = builtin_new api_version kind,
      cl_root_type = gvk_to_schema_type api_version kind,
      cl_openapi_merge_keys = mks,
      cl_openapi_patch_strategies = pss,
      cl_openapi_type_refs = refs\<rparr>"

definition combined_new :: "string \<Rightarrow> string \<Rightarrow> combined_lookup" where
  "combined_new api_version kind =
     \<lparr>cl_builtin = builtin_new api_version kind,
      cl_root_type = gvk_to_schema_type api_version kind,
      cl_openapi_merge_keys = Map.empty,
      cl_openapi_patch_strategies = Map.empty,
      cl_openapi_type_refs = Map.empty\<rparr>"

definition lookup_merge_keys :: "combined_lookup \<Rightarrow> string \<Rightarrow> string \<Rightarrow> string list option" where
  "lookup_merge_keys self type_name field_name =
     cl_openapi_merge_keys self (type_name @ ''.'' @ field_name)"

definition lookup_patch_strategies ::
  "combined_lookup \<Rightarrow> string \<Rightarrow> string \<Rightarrow> patch_strategy list option" where
  "lookup_patch_strategies self type_name field_name =
     cl_openapi_patch_strategies self (type_name @ ''.'' @ field_name)"

definition lookup_type_ref :: "combined_lookup \<Rightarrow> string \<Rightarrow> string \<Rightarrow> string option" where
  "lookup_type_ref self type_name field_name =
     cl_openapi_type_refs self (type_name @ ''.'' @ field_name)"

text \<open>One step of the walk: follow the segment's type reference, or stay at an array element's name.\<close>

definition resolve_step :: "combined_lookup \<Rightarrow> string \<Rightarrow> string \<Rightarrow> string" where
  "resolve_step self segment current_type =
     (case lookup_type_ref self current_type segment of
        Some next_type \<Rightarrow> next_type
      | None \<Rightarrow> current_type)"

definition combined_resolve_path :: "combined_lookup \<Rightarrow> string \<Rightarrow> (string \<times> string) option" where
  "combined_resolve_path self path =
     (let parts = split_on CHR ''.'' path in
      if parts = [] then None
      else Some (fold (resolve_step self) (butlast parts) (cl_root_type self), last parts))"

definition combined_merge_keys :: "combined_lookup \<Rightarrow> string \<Rightarrow> merge_keys option" where
  "combined_merge_keys self path =
     (case builtin_lookup_merge_keys (cl_builtin self) path of
        Some keys \<Rightarrow> Some keys
      | None \<Rightarrow>
          Option.bind (combined_resolve_path self path) (\<lambda>(parent_type, field_name).
            map_option Borrowed (lookup_merge_keys self parent_type field_name)))"

definition combined_patch_strategies :: "combined_lookup \<Rightarrow> string \<Rightarrow> patch_strategy list" where
  "combined_patch_strategies self path =
     (let builtin_strategies = builtin_lookup_patch_strategies (cl_builtin self) path in
      if builtin_strategies \<noteq> [] then builtin_strategies
      else case combined_resolve_path self path of
          None \<Rightarrow> []
        | Some (parent_type, field_name) \<Rightarrow>
            (case lookup_patch_strategies self parent_type field_name of None \<Rightarrow> [] | Some s \<Rightarrow> s))"

definition combined_nested_type :: "combined_lookup \<Rightarrow> string \<Rightarrow> string \<Rightarrow> string option" where
  "combined_nested_type self parent_type field_name =
     (case builtin_lookup_nested_type (cl_builtin self) parent_type field_name of
        Some t \<Rightarrow> Some t
      | None \<Rightarrow> lookup_type_ref self parent_type field_name)"

definition combined_schema :: "combined_lookup \<Rightarrow> schema_lookup" where
  "combined_schema self =
     \<lparr>sl_merge_keys = combined_merge_keys self,
      sl_patch_strategies = combined_patch_strategies self,
      sl_nested_type = combined_nested_type self\<rparr>"

section \<open>The contract of a lookup\<close>

text \<open>
  What the patch algorithms rely on: the merge keys of a field are a non-empty list of field
  names, none of them a directive key.
\<close>

locale merge_schema =
  fixes schema :: schema_lookup
  assumes keys_nonempty: "sl_merge_keys schema path = Some ks \<Longrightarrow> mk_iter ks \<noteq> []"
    and keys_plain: "sl_merge_keys schema path = Some ks \<Longrightarrow> k \<in> set (mk_iter ks) \<Longrightarrow> \<not> is_directive k"
begin

lemma keys_not_patch:
  "sl_merge_keys schema path = Some ks \<Longrightarrow> DIRECTIVE_PATCH \<notin> set (mk_iter ks)"
  using keys_plain directive_keys_directive(4) by blast

lemma keys_len: "sl_merge_keys schema path = Some ks \<Longrightarrow> \<not> mk_is_empty ks"
  using keys_nonempty by (simp add: mk_is_empty_def mk_len_def)

end

lemma builtin_lookup_merge_keys_ok:
  assumes "builtin_lookup_merge_keys self path = Some ks"
  shows "mk_iter ks \<noteq> []" and "k \<in> set (mk_iter ks) \<Longrightarrow> \<not> is_directive k"
  using assms builtin_get_merge_keys_ok
  by (auto simp: builtin_lookup_merge_keys_def bind_eq_Some_conv)

interpretation builtin: merge_schema "builtin_schema self" for self
  by unfold_locales (auto simp: builtin_schema_def dest: builtin_lookup_merge_keys_ok)

text \<open>
  The OpenAPI data keeps the contract when its own lists do; the cluster's schemas name fields,
  never directives.
\<close>

definition openapi_keys_ok :: "combined_lookup \<Rightarrow> bool" where
  "openapi_keys_ok self =
     (\<forall>t ks. cl_openapi_merge_keys self t = Some ks \<longrightarrow> ks \<noteq> [] \<and> (\<forall>k\<in>set ks. \<not> is_directive k))"

lemma combined_merge_schema:
  assumes "openapi_keys_ok self"
  shows "merge_schema (combined_schema self)"
proof
  fix path ks
  assume ks: "sl_merge_keys (combined_schema self) path = Some ks"
  consider "builtin_lookup_merge_keys (cl_builtin self) path = Some ks"
    | t l where "cl_openapi_merge_keys self t = Some l" "ks = Borrowed l"
    using ks by (auto simp: combined_schema_def combined_merge_keys_def lookup_merge_keys_def
        bind_eq_Some_conv split: option.splits)
  note split = this
  show "mk_iter ks \<noteq> []"
    using split assms by cases (auto simp: openapi_keys_ok_def dest: builtin_lookup_merge_keys_ok)
  fix k assume "k \<in> set (mk_iter ks)"
  with split assms show "\<not> is_directive k"
    by cases (auto simp: openapi_keys_ok_def dest: builtin_lookup_merge_keys_ok)
qed

interpretation combined: merge_schema "combined_schema (combined_new api_version kind)" for api_version kind
  by (rule combined_merge_schema) (simp add: openapi_keys_ok_def combined_new_def)

section \<open>Resolution of paths\<close>

text \<open>The path of a field: \<open>format!("{}.{}", path, key)\<close>, or the key alone at the root.\<close>

definition child_path :: "string \<Rightarrow> string \<Rightarrow> string" where
  "child_path path key = (if path = [] then key else path @ ''.'' @ key)"

lemma rsplit_next_child_path [simp]: "CHR ''.'' \<notin> set key \<Longrightarrow> rsplit_next CHR ''.'' (child_path path key) = key"
  using rsplit_next_append [of "CHR ''.''" key path] by (simp add: child_path_def)

lemma builtin_resolve_child:
  assumes "CHR ''.'' \<notin> set key" "path \<noteq> []"
  shows "builtin_resolve_path self (path @ ''.'' @ key) = Some (resolve_schema_type self path, key)"
proof -
  have "rfind CHR ''.'' (path @ CHR ''.'' # key) = Some (length path)"
    by (rule rfind_append_sep [OF assms(1)])
  then show ?thesis
    using assms rsplit_next_append [OF assms(1), of path]
    by (simp add: builtin_resolve_path_def)
qed

lemma ends_with_split:
  assumes "ends_with (CHR ''.'' # p) s" and "CHR ''.'' \<notin> set p"
  shows "last (split_on CHR ''.'' s) = p"
  using assms by (auto simp: ends_with_iff split_on_append_sep)

text \<open>
  Container arrays of a pod template, for every workload kind: the containers merge by
  \<open>name\<close>, and a field below a named container is resolved in the schema of \<open>Container\<close>
  whatever the container is called, as long as the name does not imitate a template path.
\<close>

lemma resolve_container:
  assumes "\<not> ends_with ''spec.template.spec'' (''spec.template.spec.containers.'' @ name)"
  shows "resolve_schema_type self (''spec.template.spec.containers.'' @ name) =
         ''io.k8s.api.core.v1.Container''"
  using assms
  by (simp add: resolve_schema_type_def strip_prefix_def resolve_podspec_path_def)

lemma container_name_plain:
  assumes "CHR ''.'' \<notin> set name"
  shows "\<not> ends_with ''spec.template.spec'' (''spec.template.spec.containers.'' @ name)"
proof
  assume "ends_with ''spec.template.spec'' (''spec.template.spec.containers.'' @ name)"
  then obtain r where r: "''spec.template.spec.containers'' @ CHR ''.'' # name =
      (r @ ''spec.template'') @ CHR ''.'' # ''spec''"
    by (auto simp: ends_with_iff)
  have lhs: "split_on CHR ''.'' (''spec.template.spec.containers'' @ CHR ''.'' # name) =
        [''spec'', ''template'', ''spec'', ''containers''] @ [name]"
    unfolding split_on_append_sep using assms by simp
  have rhs: "split_on CHR ''.'' ((r @ ''spec.template'') @ CHR ''.'' # ''spec'') =
        split_on CHR ''.'' (r @ ''spec.template'') @ [''spec'']"
    unfolding split_on_append_sep by simp
  from arg_cong [OF r, of "split_on CHR ''.''"]
  have "split_on CHR ''.'' (r @ ''spec.template'') = [''spec'', ''template'', ''spec'', ''containers'']"
    unfolding lhs rhs append1_eq_conv by simp
  then have "r @ ''spec.template'' = ''spec.template.spec.containers''"
    using join_split_on [of "CHR ''.''" "r @ ''spec.template''"] by simp
  then have "rev (r @ ''spec.template'') = rev ''spec.template.spec.containers''" by simp
  then show False by simp
qed

text \<open>
  C19. The merge keys of a pod template's containers and of their environment, for every API
  version and kind: the list of containers merges by \<open>name\<close>, and so does the \<open>env\<close> list of the
  container of any (dot-free) name, because the path pattern of the lookup finds the schema
  \<open>Container\<close> behind it. \<open>ports\<close> merges by \<open>containerPort\<close> alone: the lookup uses the
  strategic-merge keys, not the server-side-apply ones.
\<close>

theorem container_merge_keys:
  assumes "CHR ''.'' \<notin> set name"
  shows "builtin_lookup_merge_keys (builtin_new api_version kind) ''spec.template.spec.containers'' =
           Some (Static [''name'']) \<and>
         builtin_lookup_merge_keys (builtin_new api_version kind)
           (''spec.template.spec.containers.'' @ name @ ''.env'') = Some (Static [''name'']) \<and>
         builtin_lookup_merge_keys (builtin_new api_version kind)
           (''spec.template.spec.containers.'' @ name @ ''.ports'') = Some (Static [''containerPort''])"
proof -
  let ?c = "builtin_new api_version kind"
  let ?p = "''spec.template.spec.containers.'' @ name"
  have top: "builtin_resolve_path ?c (''spec.template.spec'' @ ''.'' @ ''containers'') =
      Some (''io.k8s.api.core.v1.PodSpec'', ''containers'')"
    by (subst builtin_resolve_child) (simp_all add: resolve_schema_type_def ends_with_def)
  have below: "builtin_resolve_path ?c (?p @ ''.'' @ key) = Some (''io.k8s.api.core.v1.Container'', key)"
    if "CHR ''.'' \<notin> set key" for key
    by (subst builtin_resolve_child [OF that])
      (simp_all only: resolve_container [OF container_name_plain [OF assms]], simp)
  show ?thesis
    using top below [of "''env''"] below [of "''ports''"]
    by (simp add: builtin_lookup_merge_keys_def builtin_new_def builtin_with_merge_type_def
        merge_type_default_def builtin_get_merge_keys_def lookup_field_info_def
        parse_schema_type_def schema_tables field_info_merge_keys_def)
qed

theorem container_merge_keys_witness:
  "builtin_lookup_merge_keys (builtin_new ''apps/v1'' ''Deployment'')
     ''spec.template.spec.containers.app.env'' = Some (Static [''name''])"
  using container_merge_keys [of "''app''" "''apps/v1''" "''Deployment''"] by simp


text \<open>
  The OpenAPI walk ignores the name of an array element: a segment with no type reference under
  the current type leaves the type as it is, so the path through a named element resolves as the
  path without it does.
\<close>

lemma resolve_skips_element:
  assumes "lookup_type_ref self (fold (resolve_step self) xs (cl_root_type self)) element = None"
  shows "fold (resolve_step self) (xs @ element # ys) (cl_root_type self) =
         fold (resolve_step self) (xs @ ys) (cl_root_type self)"
  using assms by (simp add: resolve_step_def)

end
