(* ===== verification/Patch_Diff.thy ===== *)
theory Patch_Diff
  imports Schema_Lookup
begin

text \<open>
  The diff of two values (\<open>crates/k8s/src/strategicpatch/diff.rs\<close>, from \<open>DiffOptions\<close> and
  \<open>diff_values\<close> to \<open>is_empty_patch\<close>). \<open>diff_values\<close>, \<open>diff_maps\<close>, \<open>diff_arrays\<close> and
  \<open>diff_arrays_strategic\<close> are one mutual recursion, as in the code; each \<open>for\<close> loop is a
  \<open>for_each\<close> over the map's entries or the array's elements.
\<close>

section \<open>Errors and options\<close>

datatype diff_error =
    SchemaLookupFailed string
  | InvalidPatch string
  | MergeError string
  | Conflict string string string
  | PreconditionFailed string

record diff_options =
  ignore_deletions :: bool
  ignore_changes_and_additions :: bool
  build_element_order :: bool
  opt_original :: "json option"

section \<open>Helpers\<close>

fun is_empty_patch :: "json \<Rightarrow> bool" where
  "is_empty_patch (JObj m) = (m = [])"
| "is_empty_patch (JArr arr) = (arr = [])"
| "is_empty_patch JNull = True"
| "is_empty_patch _ = False"

fun is_primitive :: "json \<Rightarrow> bool" where
  "is_primitive (JStr _) = True"
| "is_primitive (JNum _) = True"
| "is_primitive (JBool _) = True"
| "is_primitive JNull = True"
| "is_primitive _ = False"

definition is_primitive_array :: "json list \<Rightarrow> bool" where
  "is_primitive_array arr = list_all is_primitive arr"

fun key_part :: "json \<Rightarrow> string option" where
  "key_part (JStr s) = Some s"
| "key_part (JNum n) = Some (number_to_string n)"
| "key_part (JBool b) = Some (bool_to_string b)"
| "key_part _ = None"

definition get_composite_key_value :: "merge_keys \<Rightarrow> json \<Rightarrow> string option" where
  "get_composite_key_value ks item =
     Option.bind (as_object item) (\<lambda>obj.
       let parts = map (\<lambda>key. case Option.bind (map_of obj key) key_part of None \<Rightarrow> [] | Some p \<Rightarrow> p)
                     (mk_iter ks)
       in if list_all (\<lambda>p. p = []) parts then None else Some (join ''::'' parts))"

definition build_key_object :: "json \<Rightarrow> merge_keys \<Rightarrow> json_map" where
  "build_key_object item ks =
     (case as_object item of
        None \<Rightarrow> []
      | Some obj \<Rightarrow>
          fold (\<lambda>key result. case map_of obj key of
                  None \<Rightarrow> result | Some value \<Rightarrow> map_insert key value result) (mk_iter ks) [])"

definition add_merge_keys_to_map :: "json_map \<Rightarrow> json \<Rightarrow> merge_keys \<Rightarrow> json_map" where
  "add_merge_keys_to_map diff_map item ks =
     (case as_object item of
        None \<Rightarrow> diff_map
      | Some obj \<Rightarrow>
          fold (\<lambda>key result. case map_of obj key of
                  None \<Rightarrow> result | Some value \<Rightarrow> map_insert key value result) (mk_iter ks) diff_map)"

definition create_composite_delete_directive :: "json \<Rightarrow> merge_keys \<Rightarrow> json" where
  "create_composite_delete_directive item ks =
     JObj (map_insert DIRECTIVE_PATCH (JStr patch_value_DELETE) (build_key_object item ks))"

text \<open>The path's segments; empty segments are skipped.\<close>

fun walk_path :: "json \<Rightarrow> string list \<Rightarrow> json option" where
  "walk_path current [] = Some current"
| "walk_path current (segment # rest) =
     (if segment = [] then walk_path current rest
      else Option.bind (value_get current segment) (\<lambda>next. walk_path next rest))"

definition extract_array_at_path :: "json \<Rightarrow> string \<Rightarrow> json list option" where
  "extract_array_at_path value path =
     Option.bind (walk_path value (split_on CHR ''.'' path)) as_array"

text \<open>The loop over \<open>rfind('.')\<close>: each ancestor, the nearest first.\<close>

function has_retain_keys_ancestor :: "string \<Rightarrow> schema_lookup \<Rightarrow> bool" where
  "has_retain_keys_ancestor path schema =
     (case rfind CHR ''.'' path of
        None \<Rightarrow> False
      | Some dot_pos \<Rightarrow>
          has_retain_keys schema (take dot_pos path) \<or>
          has_retain_keys_ancestor (take dot_pos path) schema)"
  by pat_completeness auto
termination
  by (relation "measure (\<lambda>(path, _). length path)") (auto dest: rfind_less)

declare has_retain_keys_ancestor.simps [simp del]

text \<open>The elements after the anchor: stop at one without a key or one that \<open>to\<close> has.\<close>

fun injected_after :: "string set \<Rightarrow> string set \<Rightarrow> merge_keys \<Rightarrow> json list \<Rightarrow> json list" where
  "injected_after to_keys orig_keys ks [] = []"
| "injected_after to_keys orig_keys ks (subsequent # rest) =
     (case get_composite_key_value ks subsequent of
        None \<Rightarrow> []
      | Some subsequent_key \<Rightarrow>
          if subsequent_key \<in> to_keys then []
          else (if subsequent_key \<notin> orig_keys then [JObj (build_key_object subsequent ks)] else [])
               @ injected_after to_keys orig_keys ks rest)"

definition append_server_injected_elements ::
  "string \<Rightarrow> json list \<Rightarrow> (string \<rightharpoonup> nat \<times> json) \<Rightarrow> string set \<Rightarrow> string set option \<Rightarrow> merge_keys \<Rightarrow>
   json list \<Rightarrow> json list" where
  "append_server_injected_elements anchor_key from_arr from_index to_keys original_keys ks element_order =
     (case original_keys of
        None \<Rightarrow> element_order
      | Some orig_keys \<Rightarrow>
          (case from_index anchor_key of
             None \<Rightarrow> element_order
           | Some (pos, _) \<Rightarrow>
               element_order @ injected_after to_keys orig_keys ks (drop (Suc pos) from_arr)))"

definition insert_diff_result :: "json_map \<Rightarrow> string \<Rightarrow> json \<Rightarrow> json_map" where
  "insert_diff_result result key diff =
     (let order_key = set_element_order_key key;
          delete_key = delete_from_primitive_list_key key in
      case diff of
        JObj diff_map \<Rightarrow>
          if length diff_map \<le> 2
             \<and> (contains_key diff_map order_key \<or> contains_key diff_map delete_key)
             \<and> list_all (\<lambda>(k, _). k = key \<or> k = order_key \<or> k = delete_key) diff_map
          then
            let result = (case map_of diff_map order_key of
                            None \<Rightarrow> result | Some order \<Rightarrow> map_insert order_key order result);
                result = (case map_of diff_map delete_key of
                            None \<Rightarrow> result | Some del \<Rightarrow> map_insert delete_key del result)
            in (case map_of diff_map key of
                  None \<Rightarrow> result
                | Some changes \<Rightarrow>
                    if is_empty_patch changes then result else map_insert key changes result)
          else map_insert key diff result
      | _ \<Rightarrow> map_insert key diff result)"

section \<open>Arrays of primitives\<close>

definition diff_arrays_primitive :: "json list \<Rightarrow> json list \<Rightarrow> string \<Rightarrow> diff_options \<Rightarrow> diff_error + json" where
  "diff_arrays_primitive from_arr to_arr path options =
     (if json_list_eq from_arr to_arr then Inr (JObj [])
      else
        let field_name = rsplit_next CHR ''.'' path;
            has_additions = (\<not> ignore_changes_and_additions options
                             \<and> list_ex (\<lambda>v. \<not> json_mem v from_arr) to_arr);
            deletions = (if ignore_deletions options then []
                         else filter (\<lambda>v. \<not> json_mem v to_arr) from_arr);
            delete_key = delete_from_primitive_list_key field_name
        in (case (has_additions, deletions \<noteq> []) of
              (False, False) \<Rightarrow> Inr (JObj [])
            | (True, False) \<Rightarrow> Inr (JArr to_arr)
            | (False, True) \<Rightarrow> Inr (JObj (map_insert delete_key (JArr deletions) []))
            | (True, True) \<Rightarrow>
                Inr (JObj (map_insert delete_key (JArr deletions)
                            (map_insert field_name (JArr to_arr) [])))))"

section \<open>The recursion\<close>

text \<open>The part of \<open>diff_arrays_strategic\<close> after the loop over \<open>to\<close>: deletions.\<close>

definition strategic_deletions :: "json list \<Rightarrow> json list \<Rightarrow> merge_keys \<Rightarrow> json list" where
  "strategic_deletions from_arr to_arr ks =
     (let to_keys = keys_of (get_composite_key_value ks) to_arr;
          items_to_delete =
            filter (\<lambda>from_item. case get_composite_key_value ks from_item of
                                 None \<Rightarrow> False | Some key \<Rightarrow> key \<notin> to_keys) from_arr
      in if items_to_delete \<noteq> [] \<and> length items_to_delete = length from_arr \<and> to_arr = []
         then [JObj (map_insert DIRECTIVE_PATCH (JStr patch_value_REPLACE) [])]
         else map (\<lambda>from_item. create_composite_delete_directive from_item ks) items_to_delete)"

text \<open>And the wrapping of its result with the element order.\<close>

definition strategic_wrap :: "string \<Rightarrow> diff_options \<Rightarrow> json list \<Rightarrow> json list \<Rightarrow> json" where
  "strategic_wrap path options result element_order =
     (if result = [] then JArr []
      else if build_element_order options \<and> element_order \<noteq> [] then
        let field_name = rsplit_next CHR ''.'' path;
            order_key = set_element_order_key field_name
        in JObj (map_insert order_key (JArr element_order) (map_insert field_name (JArr result) []))
      else JArr result)"

function (sequential)
  diff_values :: "schema_lookup \<Rightarrow> json \<Rightarrow> json \<Rightarrow> string \<Rightarrow> diff_options \<Rightarrow> diff_error + json" and
  diff_maps :: "schema_lookup \<Rightarrow> json_map \<Rightarrow> json_map \<Rightarrow> string \<Rightarrow> diff_options \<Rightarrow> diff_error + json" and
  diff_arrays :: "schema_lookup \<Rightarrow> json list \<Rightarrow> json list \<Rightarrow> string \<Rightarrow> diff_options \<Rightarrow> diff_error + json" and
  diff_arrays_strategic ::
    "schema_lookup \<Rightarrow> json list \<Rightarrow> json list \<Rightarrow> string \<Rightarrow> merge_keys \<Rightarrow> diff_options \<Rightarrow> diff_error + json"
where
  "diff_values schema from_val to_val path options =
     (case (from_val, to_val) of
        (JObj from_map, JObj to_map) \<Rightarrow> diff_maps schema from_map to_map path options
      | (JArr from_arr, JArr to_arr) \<Rightarrow> diff_arrays schema from_arr to_arr path options
      | _ \<Rightarrow>
          if json_eq from_val to_val then Inr (JObj [])
          else if ignore_changes_and_additions options then Inr (JObj [])
          else Inr to_val)"
| "diff_maps schema from_map to_map path options =
     (let any_ancestor_has_retain_keys = has_retain_keys_ancestor path schema in
      and_then
        (if ignore_changes_and_additions options then Inr []
         else for_each (\<lambda>(key, to_value) result.
                if is_directive key then Inr result
                else
                  case map_of from_map key of
                    None \<Rightarrow> Inr (map_insert key to_value result)
                  | Some from_value \<Rightarrow>
                      and_then (diff_values schema from_value to_value (child_path path key) options)
                        (\<lambda>diff. Inr (if is_empty_patch diff then result
                                     else insert_diff_result result key diff)))
              to_map [])
        (\<lambda>result.
           and_then
             (if ignore_deletions options then Inr (result, False)
              else for_each (\<lambda>(key, from_value) (result, needs_retain_keys).
                     if is_directive key then Inr (result, needs_retain_keys)
                     else
                       case map_of to_map key of
                         None \<Rightarrow>
                           Inr (if any_ancestor_has_retain_keys then (result, True)
                                else (map_insert key JNull result, needs_retain_keys))
                       | Some to_value \<Rightarrow>
                           if ignore_changes_and_additions options then
                             and_then (diff_values schema from_value to_value (child_path path key) options)
                               (\<lambda>diff. Inr (if is_empty_patch diff then result
                                            else insert_diff_result result key diff,
                                            needs_retain_keys))
                           else Inr (result, needs_retain_keys))
                   from_map (result, False))
             (\<lambda>(result, needs_retain_keys).
                Inr (JObj
                  (if needs_retain_keys then
                     map_insert DIRECTIVE_RETAIN_KEYS
                       (JArr (map (\<lambda>(k, _). JStr k) (filter (\<lambda>(k, _). \<not> is_directive k) to_map)))
                       result
                   else result)))))"
| "diff_arrays schema from_arr to_arr path options =
     (case sl_merge_keys schema path of
        Some ks \<Rightarrow> diff_arrays_strategic schema from_arr to_arr path ks options
      | None \<Rightarrow>
          if is_primitive_array from_arr \<and> is_primitive_array to_arr then
            diff_arrays_primitive from_arr to_arr path options
          else if ignore_changes_and_additions options \<or> json_list_eq from_arr to_arr then Inr (JObj [])
          else Inr (JArr to_arr))"
| "diff_arrays_strategic schema from_arr to_arr path ks options =
     (let from_index = index_by (get_composite_key_value ks) from_arr;
          to_keys = keys_of (get_composite_key_value ks) to_arr;
          original_keys =
            map_option (keys_of (get_composite_key_value ks))
              (Option.bind (opt_original options) (\<lambda>v. extract_array_at_path v path))
      in
      and_then
        (for_each (\<lambda>to_item (result, element_order).
           case get_composite_key_value ks to_item of
             None \<Rightarrow>
               Inr (if ignore_changes_and_additions options then result else result @ [to_item],
                    element_order)
           | Some key_value \<Rightarrow>
               let element_order =
                 (if build_element_order options \<and> \<not> ignore_changes_and_additions options then
                    append_server_injected_elements key_value from_arr from_index to_keys original_keys ks
                      (element_order @ [JObj (build_key_object to_item ks)])
                  else element_order)
               in
               case from_index key_value of
                 None \<Rightarrow>
                   Inr (if ignore_changes_and_additions options then result else result @ [to_item],
                        element_order)
               | Some (_, from_item) \<Rightarrow>
                   and_then (diff_values schema from_item to_item (path @ ''.'' @ key_value) options)
                     (\<lambda>diff.
                        if is_empty_patch diff then Inr (result, element_order)
                        else case diff of
                            JObj diff_map \<Rightarrow>
                              Inr (result @ [JObj (add_merge_keys_to_map diff_map to_item ks)], element_order)
                          | _ \<Rightarrow> Inr (result, element_order)))
         to_arr ([], []))
        (\<lambda>(result, element_order).
           Inr (strategic_wrap path options
             (if ignore_deletions options then result
              else result @ strategic_deletions from_arr to_arr ks)
             element_order)))"
  by pat_completeness auto
termination
  by (relation "measure (\<lambda>x. case x of
        Inl (Inl (_, f, t, _, _)) \<Rightarrow> 3 * (size f + size t) + 2
      | Inl (Inr (_, f, t, _, _)) \<Rightarrow> 3 * (size (JObj f) + size (JObj t)) + 1
      | Inr (Inl (_, f, t, _, _)) \<Rightarrow> 3 * (size (JArr f) + size (JArr t)) + 1
      | Inr (Inr (_, f, t, _, _, _)) \<Rightarrow> 3 * (size (JArr f) + size (JArr t)))")
    (auto dest!: size_map_of size_json_entry index_by_mem size_json_item)

declare diff_values.simps [simp del] diff_maps.simps [simp del]
  diff_arrays.simps [simp del] diff_arrays_strategic.simps [simp del]

end
