(* ===== verification/Patch_Merge.thy ===== *)
theory Patch_Merge
  imports Patch_Diff
begin

text \<open>
  Merging of patches and application of a patch to a value
  (\<open>crates/k8s/src/strategicpatch/merge.rs\<close>). \<open>merge_patches\<close> puts the deletions under the
  delta; \<open>apply_strategic_patch\<close> is the server's side, used by the mock cluster. The code indexes
  \<open>result[base_idx]\<close>: an index out of range is \<open>Panic\<close>.
\<close>

section \<open>Helpers\<close>

datatype failure = DiffFailed diff_error | Panic

definition get_merge_key_value :: "merge_keys \<Rightarrow> json \<Rightarrow> string option" where
  "get_merge_key_value ks item =
     Option.bind (as_object item) (\<lambda>obj.
       map_option (join ''::'')
         (those (map (\<lambda>key. Option.bind (map_of obj key) as_str) (mk_iter ks))))"

fun is_empty_value :: "json \<Rightarrow> bool" where
  "is_empty_value (JObj m) = (m = [])"
| "is_empty_value (JArr arr) = (arr = [])"
| "is_empty_value JNull = False"
| "is_empty_value _ = False"

definition merge_is_delete_directive :: "json \<Rightarrow> bool" where
  "merge_is_delete_directive value =
     (case Option.bind (Option.bind (as_object value) (\<lambda>obj. map_of obj ''$patch'')) as_str of
        None \<Rightarrow> False
      | Some s \<Rightarrow> s = ''delete'')"

definition extract_key_part :: "json option \<Rightarrow> string" where
  "extract_key_part value =
     (case value of
        None \<Rightarrow> []
      | Some (JStr s) \<Rightarrow> s
      | Some (JNum n) \<Rightarrow> number_to_string n
      | Some (JBool b) \<Rightarrow> bool_to_string b
      | Some _ \<Rightarrow> [])"

definition merge_get_composite_key_value :: "merge_keys \<Rightarrow> json \<Rightarrow> string option" where
  "merge_get_composite_key_value ks item =
     Option.bind (as_object item) (\<lambda>obj.
       let parts = map (\<lambda>key. extract_key_part (map_of obj key)) (mk_iter ks)
       in if list_all (\<lambda>p. p = []) parts then None else Some (join ''::'' parts))"

section \<open>Merging two patches\<close>

function (sequential)
  merge_patches :: "schema_lookup \<Rightarrow> json \<Rightarrow> json \<Rightarrow> string \<Rightarrow> diff_error + json" and
  merge_patch_maps :: "schema_lookup \<Rightarrow> json_map \<Rightarrow> json_map \<Rightarrow> string \<Rightarrow> diff_error + json" and
  merge_patch_arrays :: "schema_lookup \<Rightarrow> json list \<Rightarrow> json list \<Rightarrow> string \<Rightarrow> diff_error + json" and
  merge_patch_arrays_by_key ::
    "schema_lookup \<Rightarrow> json list \<Rightarrow> json list \<Rightarrow> string \<Rightarrow> merge_keys \<Rightarrow> diff_error + json"
where
  "merge_patches schema deletions delta path =
     (case (deletions, delta) of
        (JObj del_map, JObj delta_map) \<Rightarrow> merge_patch_maps schema del_map delta_map path
      | (JArr del_arr, JArr delta_arr) \<Rightarrow> merge_patch_arrays schema del_arr delta_arr path
      | _ \<Rightarrow> if \<not> is_empty_value delta then Inr delta else Inr deletions)"
| "merge_patch_maps schema deletions delta path =
     and_then
       (for_each (\<lambda>(key, value) result.
          case map_of delta key of
            None \<Rightarrow> Inr (map_insert key value result)
          | Some delta_value \<Rightarrow>
              and_then (merge_patches schema value delta_value (child_path path key))
                (\<lambda>merged. Inr (if is_empty_value merged then result
                               else map_insert key merged result)))
        deletions [])
       (\<lambda>result.
          Inr (JObj (fold (\<lambda>(key, value) result.
                 if contains_key deletions key then result else map_insert key value result)
               delta result)))"
| "merge_patch_arrays schema deletions delta path =
     (case sl_merge_keys schema path of
        Some ks \<Rightarrow> merge_patch_arrays_by_key schema deletions delta path ks
      | None \<Rightarrow> Inr (JArr (delta @ filter merge_is_delete_directive deletions)))"
| "merge_patch_arrays_by_key schema deletions delta path ks =
     (let deletion_index = index_by (get_merge_key_value ks) deletions in
      and_then
        (for_each (\<lambda>delta_item result.
           case get_merge_key_value ks delta_item of
             None \<Rightarrow> Inr (result @ [delta_item])
           | Some key_value \<Rightarrow>
               (case deletion_index key_value of
                  Some (_, deletion_item) \<Rightarrow>
                    and_then (merge_patches schema deletion_item delta_item (path @ ''.'' @ key_value))
                      (\<lambda>merged. Inr (result @ [merged]))
                | None \<Rightarrow> Inr (result @ [delta_item])))
         delta [])
        (\<lambda>result.
           let delta_keys = keys_of (get_merge_key_value ks) delta in
           Inr (JArr (result @
             filter (\<lambda>item. merge_is_delete_directive item \<and>
                            (case get_merge_key_value ks item of
                               None \<Rightarrow> True | Some k \<Rightarrow> k \<notin> delta_keys))
               deletions))))"
  by pat_completeness auto
termination
  by (relation "measure (\<lambda>x. case x of
        Inl (Inl (_, _, t, _)) \<Rightarrow> 3 * size t + 2
      | Inl (Inr (_, _, t, _)) \<Rightarrow> 3 * size (JObj t) + 1
      | Inr (Inl (_, _, t, _)) \<Rightarrow> 3 * size (JArr t) + 1
      | Inr (Inr (_, _, t, _, _)) \<Rightarrow> 3 * size (JArr t))")
    (auto dest!: size_map_of size_json_entry size_json_item)

declare merge_patches.simps [simp del] merge_patch_maps.simps [simp del]
  merge_patch_arrays.simps [simp del] merge_patch_arrays_by_key.simps [simp del]

section \<open>Applying a patch\<close>

record merge_options =
  ignore_unmatched_nulls :: bool
  merge_parallel_list :: bool

fun discard_null_values :: "json \<Rightarrow> json" where
  "discard_null_values (JObj m) =
     JObj (map (\<lambda>(k, v). (k, discard_null_values v)) (filter (\<lambda>(_, v). \<not> is_null v) m))"
| "discard_null_values (JArr arr) =
     JArr (map discard_null_values (filter (\<lambda>v. \<not> is_null v) arr))"
| "discard_null_values value = value"

definition discard_nulls_if_needed :: "json \<Rightarrow> merge_options \<Rightarrow> json" where
  "discard_nulls_if_needed value options =
     (if \<not> ignore_unmatched_nulls options then value else discard_null_values value)"

text \<open>
  \<open>reorder_array_by_element_order\<close>: one pass over the order that takes each named element out of
  the map, one pass over the array for the rest.
\<close>

definition reorder_take ::
  "merge_keys \<Rightarrow> json \<Rightarrow> (string \<rightharpoonup> json) \<times> string set \<times> json list \<Rightarrow>
   (string \<rightharpoonup> json) \<times> string set \<times> json list" where
  "reorder_take ks order_item = (\<lambda>(elements_by_key, ordered_keys, result).
     case merge_get_composite_key_value ks order_item of
       None \<Rightarrow> (elements_by_key, ordered_keys, result)
     | Some key \<Rightarrow>
         (case elements_by_key key of
            None \<Rightarrow> (elements_by_key, ordered_keys, result)
          | Some element \<Rightarrow>
              (elements_by_key(key := None), insert key ordered_keys, result @ [element])))"

definition reorder_rest ::
  "merge_keys \<Rightarrow> string set \<Rightarrow> json \<Rightarrow> (string \<rightharpoonup> json) \<times> json list \<Rightarrow> (string \<rightharpoonup> json) \<times> json list" where
  "reorder_rest ks ordered_keys item = (\<lambda>(elements_by_key, result).
     case merge_get_composite_key_value ks item of
       None \<Rightarrow> (elements_by_key, result)
     | Some key \<Rightarrow>
         if key \<in> ordered_keys then (elements_by_key, result)
         else (case elements_by_key key of
                 None \<Rightarrow> (elements_by_key, result)
               | Some element \<Rightarrow> (elements_by_key(key := None), result @ [element])))"

definition reorder_array_by_element_order :: "json list \<Rightarrow> json list \<Rightarrow> merge_keys \<Rightarrow> json list" where
  "reorder_array_by_element_order arr order ks =
     (let elements_by_key =
            hash_map_of (filter_map (\<lambda>item. map_option (\<lambda>key. (key, item))
                                       (merge_get_composite_key_value ks item)) arr);
          (elements_by_key, ordered_keys, result) =
            fold (reorder_take ks) order (elements_by_key, {}, []);
          (elements_by_key, result) =
            fold (reorder_rest ks ordered_keys) arr (elements_by_key, result)
      in result)"

text \<open>The directives collected by the loop of \<open>apply_patch_to_map\<close>, applied after it.\<close>

definition apply_retain :: "string list option \<Rightarrow> json_map \<Rightarrow> json_map" where
  "apply_retain retain_keys result =
     (case retain_keys of None \<Rightarrow> result | Some keep \<Rightarrow> map_retain (\<lambda>k. k \<in> set keep) result)"

definition apply_primitive_deletion :: "string \<times> json list \<Rightarrow> json_map \<Rightarrow> json_map" where
  "apply_primitive_deletion = (\<lambda>(field_name, items_set) result.
     case map_of result field_name of
       Some (JArr arr) \<Rightarrow>
         map_insert field_name (JArr (filter (\<lambda>v. \<not> json_mem v items_set) arr)) result
     | _ \<Rightarrow> result)"

definition apply_element_order :: "schema_lookup \<Rightarrow> string \<Rightarrow> string \<times> json list \<Rightarrow> json_map \<Rightarrow> json_map" where
  "apply_element_order schema path = (\<lambda>(field_name, order_arr) result.
     case map_of result field_name of
       Some (JArr arr) \<Rightarrow>
         (case sl_merge_keys schema (child_path path field_name) of
            Some ks \<Rightarrow>
              map_insert field_name (JArr (reorder_array_by_element_order arr order_arr ks)) result
          | None \<Rightarrow> result)
     | _ \<Rightarrow> result)"

type_synonym collected =
  "(string \<times> json list) list \<times> string list option \<times> (string \<times> json list) list"

function (sequential)
  apply_strategic_patch_with_options ::
    "schema_lookup \<Rightarrow> json \<Rightarrow> json \<Rightarrow> string \<Rightarrow> merge_options \<Rightarrow> failure + json" and
  apply_patch_to_map ::
    "schema_lookup \<Rightarrow> json_map \<Rightarrow> json_map \<Rightarrow> string \<Rightarrow> merge_options \<Rightarrow> failure + json" and
  apply_patch_to_array_strategic ::
    "schema_lookup \<Rightarrow> json list \<Rightarrow> json list \<Rightarrow> string \<Rightarrow> merge_keys \<Rightarrow> merge_options \<Rightarrow> failure + json"
where
  "apply_strategic_patch_with_options schema base patch path options =
     (case (base, patch) of
        (JObj base_map, JObj patch_map) \<Rightarrow> apply_patch_to_map schema base_map patch_map path options
      | (JArr base_arr, JArr patch_arr) \<Rightarrow>
          (case sl_merge_keys schema path of
             None \<Rightarrow> Inr (discard_nulls_if_needed patch options)
           | Some ks \<Rightarrow> apply_patch_to_array_strategic schema base_arr patch_arr path ks options)
      | (_, JNull) \<Rightarrow> Inr JNull
      | _ \<Rightarrow> Inr (discard_nulls_if_needed patch options))"
| "apply_patch_to_map schema base patch path options =
     and_then
       (for_each (\<lambda>(key, patch_value) (result, primitive_deletions, retain_keys, set_element_orders).
          case extract_delete_from_primitive_list_field key of
            Some field_name \<Rightarrow>
              Inr (result,
                   (case as_array patch_value of
                      Some items_set \<Rightarrow> primitive_deletions @ [(field_name, items_set)]
                    | None \<Rightarrow> primitive_deletions),
                   retain_keys, set_element_orders)
          | None \<Rightarrow>
          if merge_parallel_list options \<and> extract_set_element_order_field key \<noteq> None then
            Inr (result, primitive_deletions, retain_keys,
                 (case as_array patch_value of
                    Some order_arr \<Rightarrow>
                      set_element_orders @ [(the (extract_set_element_order_field key), order_arr)]
                  | None \<Rightarrow> set_element_orders))
          else if key = DIRECTIVE_RETAIN_KEYS then
            Inr (result, primitive_deletions,
                 (case as_array patch_value of
                    Some arr \<Rightarrow> Some (filter_map as_str arr)
                  | None \<Rightarrow> retain_keys),
                 set_element_orders)
          else if is_directive key then
            Inr (result, primitive_deletions, retain_keys, set_element_orders)
          else if is_null patch_value then
            Inr (let result = map_remove key result in
                 if \<not> ignore_unmatched_nulls options \<and> \<not> contains_key base key
                 then map_insert key JNull result else result,
                 primitive_deletions, retain_keys, set_element_orders)
          else
            case map_of base key of
              None \<Rightarrow>
                Inr (map_insert key (discard_nulls_if_needed patch_value options) result,
                     primitive_deletions, retain_keys, set_element_orders)
            | Some base_value \<Rightarrow>
                and_then (apply_strategic_patch_with_options schema base_value patch_value
                            (child_path path key) options)
                  (\<lambda>merged.
                     Inr (if is_null merged then map_remove key result else map_insert key merged result,
                          primitive_deletions, retain_keys, set_element_orders)))
        patch (base, [], None, []))
       (\<lambda>(result, primitive_deletions, retain_keys, set_element_orders).
          Inr (JObj
            (fold (apply_element_order schema path) set_element_orders
              (fold apply_primitive_deletion primitive_deletions
                (apply_retain retain_keys result)))))"
| "apply_patch_to_array_strategic schema base patch path ks options =
     (let base_indices = index_by (merge_get_composite_key_value ks) base in
      and_then
        (for_each (\<lambda>patch_item result.
           if merge_is_delete_directive patch_item then
             (case merge_get_composite_key_value ks patch_item of
                None \<Rightarrow> Inr result
              | Some key_value \<Rightarrow>
                  Inr (filter (\<lambda>item. case merge_get_composite_key_value ks item of
                                        None \<Rightarrow> True | Some k \<Rightarrow> k \<noteq> key_value) result))
           else
             case merge_get_composite_key_value ks patch_item of
               None \<Rightarrow> Inr (result @ [discard_nulls_if_needed patch_item options])
             | Some key_value \<Rightarrow>
                 (case base_indices key_value of
                    None \<Rightarrow> Inr (result @ [discard_nulls_if_needed patch_item options])
                  | Some (base_idx, _) \<Rightarrow>
                      if base_idx < length result then
                        and_then (apply_strategic_patch_with_options schema (result ! base_idx) patch_item
                                    (path @ ''.'' @ key_value) options)
                          (\<lambda>merged. Inr (result[base_idx := merged]))
                      else Inl Panic))
         patch base)
        (\<lambda>result. Inr (JArr result)))"
  by pat_completeness auto
termination
  by (relation "measure (\<lambda>x. case x of
        Inl (_, _, p, _, _) \<Rightarrow> 3 * size p + 2
      | Inr (Inl (_, _, p, _, _)) \<Rightarrow> 3 * size (JObj p) + 1
      | Inr (Inr (_, _, p, _, _, _)) \<Rightarrow> 3 * size (JArr p) + 1)")
    (auto dest!: size_json_entry size_json_item)

declare apply_strategic_patch_with_options.simps [simp del] apply_patch_to_map.simps [simp del]
  apply_patch_to_array_strategic.simps [simp del]

definition apply_strategic_patch :: "schema_lookup \<Rightarrow> json \<Rightarrow> json \<Rightarrow> string \<Rightarrow> failure + json" where
  "apply_strategic_patch schema base patch path =
     apply_strategic_patch_with_options schema base patch path
       \<lparr>ignore_unmatched_nulls = True, merge_parallel_list = True\<rparr>"

end
