(* ===== verification/Patch_ThreeWay.thy ===== *)
theory Patch_ThreeWay
  imports Patch_Merge
begin

text \<open>
  The three-way strategic merge patch (\<open>crates/k8s/src/strategicpatch/diff.rs\<close>, from
  \<open>PreconditionFunc\<close> to \<open>find_array_conflicts\<close>): preconditions, the detection of
  conflicts between the user's and the server's changes, and the algorithm itself. The texts of a
  conflict come from Rust's \<open>{:?}\<close> of a string and from serialising a value, which are the two
  functions of \<open>value_format\<close>.
\<close>

section \<open>Preconditions\<close>

type_synonym precondition_func = "json \<Rightarrow> string option"

definition require_key_unchanged :: "string \<Rightarrow> precondition_func" where
  "require_key_unchanged key = (\<lambda>patch.
     Option.bind (as_object patch) (\<lambda>obj. map_option (\<lambda>_. key) (map_of obj key)))"

definition require_metadata_key_unchanged :: "string \<Rightarrow> precondition_func" where
  "require_metadata_key_unchanged key = (\<lambda>patch.
     Option.bind (as_object patch) (\<lambda>obj.
     Option.bind (map_of obj ''metadata'') (\<lambda>meta.
     Option.bind (as_object meta) (\<lambda>m. map_option (\<lambda>_. ''metadata.'' @ key) (map_of m key)))))"

definition check_preconditions :: "precondition_func list \<Rightarrow> json \<Rightarrow> diff_error + unit" where
  "check_preconditions preconditions patch =
     (case find_map (\<lambda>precondition. precondition patch) preconditions of
        Some key \<Rightarrow> Inl (PreconditionFailed key)
      | None \<Rightarrow> Inr ())"

section \<open>Conflicts\<close>

record conflict_info =
  ci_path :: string
  ci_user_value :: string
  ci_server_value :: string

record value_format =
  debug_str :: "string \<Rightarrow> string"
  json_text :: "json \<Rightarrow> string"

fun format_value_for_error :: "value_format \<Rightarrow> json \<Rightarrow> string" where
  "format_value_for_error fmt (JStr s) = debug_str fmt s"
| "format_value_for_error fmt (JNum n) = number_to_string n"
| "format_value_for_error fmt (JBool b) = bool_to_string b"
| "format_value_for_error fmt JNull = ''null''"
| "format_value_for_error fmt v = json_text fmt v"

function (sequential)
  find_conflicts :: "value_format \<Rightarrow> schema_lookup \<Rightarrow> json \<Rightarrow> json \<Rightarrow> string \<Rightarrow> conflict_info option" and
  find_array_conflicts ::
    "value_format \<Rightarrow> schema_lookup \<Rightarrow> json list \<Rightarrow> json list \<Rightarrow> string \<Rightarrow> conflict_info option"
where
  "find_conflicts fmt schema user_patch server_changes path =
     (case (user_patch, server_changes) of
        (JObj user_map, JObj server_map) \<Rightarrow>
          find_map (\<lambda>(key, user_val).
            if is_directive key then None
            else case map_of server_map key of
                None \<Rightarrow> None
              | Some server_val \<Rightarrow>
                  find_conflicts fmt schema user_val server_val (child_path path key))
            user_map
      | (JArr user_arr, JArr server_arr) \<Rightarrow> find_array_conflicts fmt schema user_arr server_arr path
      | (user_val, server_val) \<Rightarrow>
          if \<not> json_eq user_val server_val \<and> \<not> is_object user_val \<and> \<not> is_object server_val
          then Some \<lparr>ci_path = path,
                     ci_user_value = format_value_for_error fmt user_val,
                     ci_server_value = format_value_for_error fmt server_val\<rparr>
          else None)"
| "find_array_conflicts fmt schema user_arr server_arr path =
     (case sl_merge_keys schema path of
        None \<Rightarrow> None
      | Some ks \<Rightarrow>
          if user_arr = [] \<or> server_arr = [] \<or> \<not> is_object (hd user_arr) \<or> \<not> is_object (hd server_arr)
          then None
          else
            let server_by_key = index_by (get_composite_key_value ks) server_arr in
            find_map (\<lambda>user_item.
              case get_composite_key_value ks user_item of
                None \<Rightarrow> None
              | Some key_value \<Rightarrow>
                  (case server_by_key key_value of
                     None \<Rightarrow> None
                   | Some (_, server_item) \<Rightarrow>
                       find_conflicts fmt schema user_item server_item
                         (path @ ''['' @ key_value @ '']'')))
              user_arr)"
  by pat_completeness auto
termination
  by (relation "measure (\<lambda>x. case x of
        Inl (_, _, u, _, _) \<Rightarrow> 2 * size u + 1
      | Inr (_, _, u, _, _) \<Rightarrow> 2 * size (JArr u))")
    (auto dest!: size_json_entry size_json_item)

declare find_conflicts.simps [simp del] find_array_conflicts.simps [simp del]

section \<open>The three-way patch\<close>

definition delta_options :: "json option \<Rightarrow> diff_options" where
  "delta_options original =
     \<lparr>ignore_deletions = True, ignore_changes_and_additions = False, build_element_order = True,
      opt_original = original\<rparr>"

definition deletion_options :: diff_options where
  "deletion_options =
     \<lparr>ignore_deletions = False, ignore_changes_and_additions = True, build_element_order = False,
      opt_original = None\<rparr>"

definition user_changes_options :: diff_options where
  "user_changes_options =
     \<lparr>ignore_deletions = True, ignore_changes_and_additions = False, build_element_order = False,
      opt_original = None\<rparr>"

definition create_three_way_merge_patch_with_options ::
  "value_format \<Rightarrow> schema_lookup \<Rightarrow> json option \<Rightarrow> json \<Rightarrow> json \<Rightarrow> bool \<Rightarrow> precondition_func list \<Rightarrow>
   diff_error + json" where
  "create_three_way_merge_patch_with_options fmt schema original modified current overwrite preconditions =
     and_then (diff_values schema current modified [] (delta_options original)) (\<lambda>delta.
       case original of
         None \<Rightarrow> and_then (check_preconditions preconditions delta) (\<lambda>_. Inr delta)
       | Some orig \<Rightarrow>
           and_then (diff_values schema orig modified [] deletion_options) (\<lambda>deletions.
           and_then (merge_patches schema deletions delta []) (\<lambda>patch.
           and_then (check_preconditions preconditions patch) (\<lambda>_.
             if overwrite then Inr patch
             else
               and_then (diff_values schema orig modified [] user_changes_options) (\<lambda>user_changes.
               and_then (diff_values schema orig current [] user_changes_options) (\<lambda>server_changes.
                 case find_conflicts fmt schema user_changes server_changes [] of
                   Some c \<Rightarrow> Inl (Conflict (ci_path c) (ci_user_value c) (ci_server_value c))
                 | None \<Rightarrow> Inr patch))))))"

definition create_three_way_merge_patch ::
  "value_format \<Rightarrow> schema_lookup \<Rightarrow> json option \<Rightarrow> json \<Rightarrow> json \<Rightarrow> diff_error + json" where
  "create_three_way_merge_patch fmt schema original modified current =
     create_three_way_merge_patch_with_options fmt schema original modified current True []"

end
