(* ===== verification/Apply_Facts.thy ===== *)
theory Apply_Facts
  imports Patch_ThreeWay
begin

text \<open>
  What applying a patch does, field by field: the loop of \<open>apply_patch_to_map\<close> splits into one
  rewrite per field and the collection of the directives, which are then applied one field at a
  time. The functions of the first section give the value a field ends with; they are the
  reference the code is compared with.
\<close>

abbreviation server_options :: merge_options where
  "server_options \<equiv> \<lparr>ignore_unmatched_nulls = True, merge_parallel_list = True\<rparr>"

section \<open>The value of a field\<close>

definition patched ::
  "schema_lookup \<Rightarrow> json_map \<Rightarrow> json_map \<Rightarrow> string \<Rightarrow> string \<Rightarrow> json option" where
  "patched schema base patch path k =
     (case map_of patch k of
        None \<Rightarrow> map_of base k
      | Some p \<Rightarrow>
          if is_directive k then map_of base k
          else if p = JNull then None
          else (case map_of base k of
                  None \<Rightarrow> Some (discard_null_values p)
                | Some b \<Rightarrow>
                    (case apply_strategic_patch_with_options schema b p (child_path path k) server_options of
                       Inr v \<Rightarrow> if v = JNull then None else Some v
                     | Inl _ \<Rightarrow> None)))"

definition retained :: "json_map \<Rightarrow> string \<Rightarrow> json option \<Rightarrow> json option" where
  "retained patch k v =
     (case map_of patch DIRECTIVE_RETAIN_KEYS of
        Some (JArr keep) \<Rightarrow> if JStr k \<in> set keep then v else None
      | _ \<Rightarrow> v)"

definition pruned :: "json_map \<Rightarrow> string \<Rightarrow> json option \<Rightarrow> json option" where
  "pruned patch k v =
     (case (map_of patch (delete_from_primitive_list_key k), v) of
        (Some (JArr items), Some (JArr arr)) \<Rightarrow> Some (JArr (filter (\<lambda>x. \<not> json_mem x items) arr))
      | _ \<Rightarrow> v)"

definition ordered ::
  "schema_lookup \<Rightarrow> json_map \<Rightarrow> string \<Rightarrow> string \<Rightarrow> json option \<Rightarrow> json option" where
  "ordered schema patch path k v =
     (case (map_of patch (set_element_order_key k), v, sl_merge_keys schema (child_path path k)) of
        (Some (JArr order), Some (JArr arr), Some ks) \<Rightarrow>
          Some (JArr (reorder_array_by_element_order arr order ks))
      | _ \<Rightarrow> v)"

section \<open>Splitting the loop\<close>

definition merge_entry ::
  "schema_lookup \<Rightarrow> json_map \<Rightarrow> string \<Rightarrow> string \<times> json \<Rightarrow> json_map \<Rightarrow> failure + json_map" where
  "merge_entry schema base path = (\<lambda>(key, p) result.
     if is_directive key then Inr result
     else if p = JNull then Inr (map_remove key result)
     else case map_of base key of
         None \<Rightarrow> Inr (map_insert key (discard_null_values p) result)
       | Some b \<Rightarrow>
           and_then (apply_strategic_patch_with_options schema b p (child_path path key) server_options)
             (\<lambda>v. Inr (if v = JNull then map_remove key result else map_insert key v result)))"

definition collect_directive ::
  "string \<times> json \<Rightarrow> (string \<times> json list) list \<times> string list option \<times> (string \<times> json list) list \<Rightarrow>
   (string \<times> json list) list \<times> string list option \<times> (string \<times> json list) list" where
  "collect_directive = (\<lambda>(key, p) (dels, keep, orders).
     case as_array p of
       None \<Rightarrow> (dels, keep, orders)
     | Some arr \<Rightarrow>
         (case extract_delete_from_primitive_list_field key of
            Some f \<Rightarrow> (dels @ [(f, arr)], keep, orders)
          | None \<Rightarrow>
              (case extract_set_element_order_field key of
                 Some f \<Rightarrow> (dels, keep, orders @ [(f, arr)])
               | None \<Rightarrow>
                   (dels, if key = DIRECTIVE_RETAIN_KEYS then Some (filter_map as_str arr) else keep,
                    orders))))"

definition apply_body ::
  "schema_lookup \<Rightarrow> json_map \<Rightarrow> string \<Rightarrow> string \<times> json \<Rightarrow> json_map \<times> collected \<Rightarrow>
   failure + json_map \<times> collected" where
  "apply_body schema base path = (\<lambda>(key, p) (result, u).
     and_then (merge_entry schema base path (key, p) result)
       (\<lambda>result'. Inr (result', collect_directive (key, p) u)))"

lemma extract_other [simp]:
  "extract_delete_from_primitive_list_field (set_element_order_key f) = None"
  "extract_delete_from_primitive_list_field (delete_from_primitive_list_key f) = Some f"
  "extract_set_element_order_field (set_element_order_key f) = Some f"
  "extract_set_element_order_field (delete_from_primitive_list_key f) = None"
  "extract_delete_from_primitive_list_field DIRECTIVE_RETAIN_KEYS = None"
  "extract_set_element_order_field DIRECTIVE_RETAIN_KEYS = None"
  by (metis extract_delete_iff extract_order_iff not_None_eq directive_keys_distinct)+

text \<open>The four kinds of keys a patch can have.\<close>

lemma key_cases:
  obtains (del) f where "key = delete_from_primitive_list_key f"
  | (order) f where "key = set_element_order_key f"
  | (retain) "key = DIRECTIVE_RETAIN_KEYS"
  | (other) "is_directive key" "extract_delete_from_primitive_list_field key = None"
      "extract_set_element_order_field key = None" "key \<noteq> DIRECTIVE_RETAIN_KEYS"
  | (plain) "\<not> is_directive key"
  by (metis extract_delete_iff extract_order_iff not_None_eq)

lemma apply_body_unfold:
  "apply_patch_to_map schema base patch path server_options =
     and_then (for_each (apply_body schema base path) patch (base, [], None, []))
       (\<lambda>(result, dels, keep, orders).
          Inr (JObj (fold (apply_element_order schema path) orders
                (fold apply_primitive_deletion dels (apply_retain keep result)))))"
  apply (subst apply_patch_to_map.simps)
  apply (rule arg_cong2 [where f = and_then, OF for_each_cong [OF refl refl] refl])
  subgoal for entry state
    apply (cases entry; cases state rule: prod_cases4)
    subgoal for key p result dels keep orders
      by (cases key rule: key_cases; cases "as_array p"; cases "p = JNull"; cases "map_of base key")
        (simp_all add: apply_body_def merge_entry_def collect_directive_def discard_nulls_if_needed_def
          and_then_def split: sum.split)
    done
  done

lemma apply_map_split:
  "apply_patch_to_map schema base patch path server_options =
     and_then (for_each (merge_entry schema base path) patch base) (\<lambda>result.
       let (dels, keep, orders) = fold collect_directive patch ([], None, []) in
       Inr (JObj (fold (apply_element_order schema path) orders
              (fold apply_primitive_deletion dels (apply_retain keep result)))))"
proof -
  have "for_each (apply_body schema base path) patch (base, u) =
      and_then (for_each (merge_entry schema base path) patch base)
        (\<lambda>result. Inr (result, fold collect_directive patch u))" for u
    by (rule for_each_pair) (auto simp: apply_body_def)
  then show ?thesis
    by (simp add: apply_body_unfold and_then_def case_prod_unfold Let_def split: sum.split)
qed

section \<open>The collected directives\<close>

text \<open>The lists the loop collects, as lists over the patch's entries.\<close>

definition deletions_of :: "json_map \<Rightarrow> (string \<times> json list) list" where
  "deletions_of patch = filter_map (\<lambda>(key, p).
     Option.bind (extract_delete_from_primitive_list_field key) (\<lambda>f.
       map_option (\<lambda>arr. (f, arr)) (as_array p))) patch"

definition orders_of :: "json_map \<Rightarrow> (string \<times> json list) list" where
  "orders_of patch = filter_map (\<lambda>(key, p).
     Option.bind (extract_set_element_order_field key) (\<lambda>f.
       map_option (\<lambda>arr. (f, arr)) (as_array p))) patch"

fun keep_of :: "json_map \<Rightarrow> string list option \<Rightarrow> string list option" where
  "keep_of [] keep = keep"
| "keep_of ((key, p) # patch) keep =
     keep_of patch (if key = DIRECTIVE_RETAIN_KEYS then
                      (case as_array p of Some arr \<Rightarrow> Some (filter_map as_str arr) | None \<Rightarrow> keep)
                    else keep)"

lemma collect_one:
  "collect_directive e (dels, keep, orders) =
     (dels @ deletions_of [e], keep_of [e] keep, orders @ orders_of [e])"
proof -
  obtain key p where e: "e = (key, p)" by (cases e)
  show ?thesis
    by (cases key rule: key_cases; cases "as_array p")
      (simp_all add: e collect_directive_def deletions_of_def orders_of_def)
qed

lemma of_Cons:
  "deletions_of (e # patch) = deletions_of [e] @ deletions_of patch"
  "orders_of (e # patch) = orders_of [e] @ orders_of patch"
  "keep_of (e # patch) keep = keep_of patch (keep_of [e] keep)"
  by (cases e; simp add: deletions_of_def orders_of_def split: option.split)+

lemma fold_collect:
  "fold collect_directive patch (dels, keep, orders) =
     (dels @ deletions_of patch, keep_of patch keep, orders @ orders_of patch)"
proof (induction patch arbitrary: dels keep orders)
  case (Cons e patch)
  show ?case by (simp add: collect_one Cons of_Cons [of e patch])
qed (simp add: deletions_of_def orders_of_def)

lemma distinct_fields:
  assumes "distinct_keys patch" and "\<And>k f. g k = Some f \<longleftrightarrow> k = key_for f"
  shows "distinct (map fst (filter_map (\<lambda>(key, p).
     Option.bind (g key) (\<lambda>f. map_option (\<lambda>arr. (f, arr)) (as_array p))) patch))"
  using assms(1)
proof (induction patch)
  case (Cons e patch)
  obtain key p where e: "e = (key, p)" by (cases e)
  from Cons.prems e have nk: "map_of patch key = None" and d: "distinct_keys patch"
    by (simp_all add: distinct_keys_Cons)
  show ?case
  proof (cases "g key")
    case (Some f)
    then have "key = key_for f" by (simp add: assms(2))
    with Some nk Cons.IH [OF d] show ?thesis
      by (auto simp: e set_filter_map assms(2) map_of_eq_None_iff bind_eq_Some_conv
          split: option.splits) (metis fst_conv image_eqI)
  qed (use Cons.IH [OF d] e in simp)
qed simp

lemma map_of_fields:
  assumes "distinct_keys patch" and "\<And>k f. g k = Some f \<longleftrightarrow> k = key_for f"
  shows "map_of (filter_map (\<lambda>(key, p).
     Option.bind (g key) (\<lambda>f. map_option (\<lambda>arr. (f, arr)) (as_array p))) patch) f =
   Option.bind (map_of patch (key_for f)) as_array"
  using assms(1)
proof (induction patch)
  case (Cons e patch)
  obtain key p where e: "e = (key, p)" by (cases e)
  from Cons.prems e have nk: "map_of patch key = None" and d: "distinct_keys patch"
    by (simp_all add: distinct_keys_Cons)
  show ?case
  proof (cases "key = key_for f")
    case True
    then have "g key = Some f" by (simp add: assms(2))
    with True nk Cons.IH [OF d] show ?thesis by (cases "as_array p") (auto simp: e)
  next
    case False
    then have "g key \<noteq> Some f" by (simp add: assms(2))
    with False Cons.IH [OF d] show ?thesis
      by (cases "g key"; cases "as_array p") (auto simp: e)
  qed
qed simp

lemma keep_of_distinct:
  assumes "distinct_keys patch"
  shows "keep_of patch keep =
    (case map_of patch DIRECTIVE_RETAIN_KEYS of
       Some (JArr arr) \<Rightarrow> Some (filter_map as_str arr) | _ \<Rightarrow> keep)"
  using assms
proof (induction patch arbitrary: keep)
  case (Cons e patch)
  obtain key p where e: "e = (key, p)" by (cases e)
  from Cons.prems e have "map_of patch key = None" "distinct_keys patch"
    by (simp_all add: distinct_keys_Cons)
  with Cons.IH e show ?case by (cases p) auto
qed simp

section \<open>Field by field\<close>

lemma merge_entry_ok:
  assumes "merge_entry schema base path e m = Inr m'" "distinct_keys m"
  shows "distinct_keys m'"
  using assms
  by (cases e) (auto simp: merge_entry_def and_then_Inr_iff split: if_splits option.splits)

lemma merge_entry_get:
  assumes "merge_entry schema base path (key, p) m = Inr m'" "distinct_keys m"
    and "map_of m key = map_of base key"
  shows "map_of m' k = (if k = key then patched schema base [(key, p)] path k else map_of m k)"
proof (cases "is_directive key \<or> p = JNull \<or> map_of base key = None")
  case True
  with assms show ?thesis by (auto simp: merge_entry_def patched_def split: if_splits)
next
  case False
  with assms obtain b v where b: "map_of base key = Some b"
    and v: "apply_strategic_patch_with_options schema b p (child_path path key) server_options = Inr v"
    and m': "m' = (if v = JNull then map_remove key m else map_insert key v m)"
    by (auto simp: merge_entry_def and_then_Inr_iff)
  with False assms show ?thesis by (simp add: patched_def)
qed

lemma patched_Cons:
  "patched schema base ((key, p) # patch) path k =
     (if k = key then patched schema base [(key, p)] path k else patched schema base patch path k)"
  by (cases "k = key") (simp_all add: patched_def)

lemma merge_entries_get:
  assumes "for_each (merge_entry schema base path) patch m = Inr m'"
    and "distinct_keys m" "distinct_keys patch"
    and "\<And>k. map_of patch k \<noteq> None \<Longrightarrow> map_of m k = map_of base k"
  shows "distinct_keys m' \<and>
    map_of m' k = (if map_of patch k = None then map_of m k else patched schema base patch path k)"
  using assms
proof (induction patch arbitrary: m)
  case (Cons e patch)
  obtain key p where e: "e = (key, p)" by (cases e)
  from Cons.prems e obtain m1 where m1: "merge_entry schema base path (key, p) m = Inr m1"
    "for_each (merge_entry schema base path) patch m1 = Inr m'"
    by (auto simp: and_then_Inr_iff)
  have nk: "map_of patch key = None" "distinct_keys patch"
    using Cons.prems(3) by (simp_all add: e distinct_keys_Cons)
  have get: "map_of m1 x = (if x = key then patched schema base [(key, p)] path x else map_of m x)" for x
    using Cons.prems(2) Cons.prems(4) [of key] by (intro merge_entry_get [OF m1(1)]) (simp_all add: e)
  have "distinct_keys m1" by (rule merge_entry_ok [OF m1(1) Cons.prems(2)])
  moreover have "map_of m1 x = map_of base x" if "map_of patch x \<noteq> None" for x
    using that nk(1) get [of x] Cons.prems(4) [of x] by (auto simp: e split: if_splits)
  ultimately have "distinct_keys m' \<and>
      map_of m' k = (if map_of patch k = None then map_of m1 k else patched schema base patch path k)"
    by (intro Cons.IH [OF m1(2) _ nk(2)])
  with get [of k] nk(1) show ?case
    by (cases "k = key") (simp_all add: e patched_Cons [of schema base key p patch])
qed simp

text \<open>The three stages after the loop, each one key at a time.\<close>

lemma apply_retain_get:
  "map_of (apply_retain (keep_of patch None) m) k = retained patch k (map_of m k)"
  if "distinct_keys patch"
  using that
  by (simp add: keep_of_distinct apply_retain_def retained_def set_filter_map
      split: option.split json.split)

lemma apply_retain_ok: "distinct_keys m \<Longrightarrow> distinct_keys (apply_retain keep m)"
  by (simp add: apply_retain_def split: option.split)

text \<open>
  The deletions and the orders name each field at most once, so each of the two loops is a
  sequence of rewrites of different keys, and the map contract gives their lookups.
\<close>

definition prune_value :: "json list option \<Rightarrow> json option \<Rightarrow> json option" where
  "prune_value items v =
     (case (items, v) of
        (Some is, Some (JArr arr)) \<Rightarrow> Some (JArr (filter (\<lambda>x. \<not> json_mem x is) arr))
      | _ \<Rightarrow> v)"

definition order_value :: "merge_keys option \<Rightarrow> json list option \<Rightarrow> json option \<Rightarrow> json option" where
  "order_value ks order v =
     (case (order, v, ks) of
        (Some os, Some (JArr arr), Some keys) \<Rightarrow> Some (JArr (reorder_array_by_element_order arr os keys))
      | _ \<Rightarrow> v)"

lemma apply_primitive_deletion_rewrite:
  "apply_primitive_deletion (f, items) m = jm.rewrite (\<lambda>_. prune_value (Some items)) f m"
  by (auto simp: apply_primitive_deletion_def jm.rewrite_def prune_value_def map_insert_same
      split: option.split json.split)

lemma apply_element_order_rewrite:
  "apply_element_order schema path (f, order) m =
     jm.rewrite (\<lambda>k. order_value (sl_merge_keys schema (child_path path k)) (Some order)) f m"
  by (auto simp: apply_element_order_def jm.rewrite_def order_value_def map_insert_same
      split: option.split json.split)

lemma fold_rewrites:
  assumes "distinct (map fst ds)" and "distinct_keys m"
    and "\<And>f x m. step (f, x) m = jm.rewrite (\<lambda>k. h k (Some x)) f m"
    and "\<And>k v. h k None v = v"
  shows "distinct_keys (fold step ds m) \<and>
         map_of (fold step ds m) k = h k (map_of ds k) (map_of m k)"
proof -
  have eq: "fold step ds m = fold (jm.rewrite (\<lambda>k. h k (map_of ds k))) (map fst ds) m"
    unfolding fold_map
    by (rule fold_cong [OF refl refl])
      (use assms(1) in \<open>auto simp: assms(3) jm.rewrite_def fun_eq_iff comp_def split: option.split\<close>)
  have ok: "distinct_keys (fold (jm.rewrite g) ks m)" for g ks
    by (rule fold_invariant [where I = distinct_keys]) (auto intro: jm.rewrite_ok assms(2))
  have "map_of (fold step ds m) k =
      (if k \<in> set (map fst ds) then h k (map_of ds k) (map_of m k) else map_of m k)"
    unfolding eq by (rule jm.get_rewrite_all [OF assms(2,1)])
  moreover have "k \<notin> set (map fst ds) \<Longrightarrow> map_of ds k = None"
    by (simp add: map_of_eq_None_iff)
  ultimately show ?thesis using ok unfolding eq by (auto simp: assms(4))
qed

lemma pruned_eq: "pruned patch k v =
    prune_value (Option.bind (map_of patch (delete_from_primitive_list_key k)) as_array) v"
  by (auto simp: pruned_def prune_value_def split: option.split json.split)

lemma ordered_eq: "ordered schema patch path k v =
    order_value (sl_merge_keys schema (child_path path k))
      (Option.bind (map_of patch (set_element_order_key k)) as_array) v"
  by (auto simp: ordered_def order_value_def split: option.split json.split)

lemma apply_map_fields:
  assumes "apply_patch_to_map schema base patch path server_options = Inr r"
    and "distinct_keys base" "distinct_keys patch"
  shows "\<exists>m. r = JObj m \<and> distinct_keys m \<and>
    (\<forall>k. map_of m k =
      ordered schema patch path k (pruned patch k (retained patch k (patched schema base patch path k))))"
proof -
  from assms(1) obtain m1 where m1: "for_each (merge_entry schema base path) patch base = Inr m1"
    and r: "r = JObj (fold (apply_element_order schema path) (orders_of patch)
       (fold apply_primitive_deletion (deletions_of patch) (apply_retain (keep_of patch None) m1)))"
    by (auto simp: apply_map_split and_then_Inr_iff fold_collect)
  let ?m2 = "apply_retain (keep_of patch None) m1"
  let ?m3 = "fold apply_primitive_deletion (deletions_of patch) ?m2"
  let ?m4 = "fold (apply_element_order schema path) (orders_of patch) ?m3"
  have d1: "distinct_keys m1" and g1: "map_of m1 k = patched schema base patch path k" for k
    using merge_entries_get [OF m1 assms(2,3)] by (auto simp: patched_def)
  have d2: "distinct_keys ?m2" by (rule apply_retain_ok [OF d1])
  have s3: "distinct_keys ?m3 \<and> map_of ?m3 k = prune_value (map_of (deletions_of patch) k) (map_of ?m2 k)" for k
    by (rule fold_rewrites [where h = "\<lambda>_. prune_value", OF _ d2])
      (auto simp: deletions_of_def apply_primitive_deletion_rewrite prune_value_def
        intro: distinct_fields [OF assms(3) extract_delete_iff])
  then have d3: "distinct_keys ?m3" by blast
  have s4: "distinct_keys ?m4 \<and> map_of ?m4 k =
      order_value (sl_merge_keys schema (child_path path k)) (map_of (orders_of patch) k) (map_of ?m3 k)" for k
    by (rule fold_rewrites [where h = "\<lambda>k. order_value (sl_merge_keys schema (child_path path k))", OF _ d3])
      (auto simp: orders_of_def apply_element_order_rewrite order_value_def
        intro: distinct_fields [OF assms(3) extract_order_iff])
  have "map_of (deletions_of patch) k = Option.bind (map_of patch (delete_from_primitive_list_key k)) as_array"
    "map_of (orders_of patch) k = Option.bind (map_of patch (set_element_order_key k)) as_array" for k
    unfolding deletions_of_def orders_of_def
    by (rule map_of_fields [OF assms(3)], simp add: extract_delete_iff extract_order_iff)+
  with r s3 s4 g1 show ?thesis
    by (auto simp: pruned_eq ordered_eq apply_retain_get [OF assms(3)])
qed

text \<open>The map step fails only where the recursion into a field does.\<close>

lemma apply_map_ok:
  assumes "\<And>k p b. (k, p) \<in> set patch \<Longrightarrow> \<not> is_directive k \<Longrightarrow> p \<noteq> JNull \<Longrightarrow> map_of base k = Some b \<Longrightarrow>
    \<exists>v. apply_strategic_patch_with_options schema b p (child_path path k) server_options = Inr v"
  shows "\<exists>r. apply_patch_to_map schema base patch path server_options = Inr r"
proof -
  have "\<exists>m. for_each (merge_entry schema base path) patch base = Inr m"
    using assms
    by (intro for_each_ok)
      (auto simp: merge_entry_def split: prod.split option.split intro!: and_then_ok)
  then show ?thesis by (auto simp: apply_map_split fold_collect)
qed

end
