(* ===== verification/Array_Facts.thy ===== *)
theory Array_Facts
  imports Apply_Facts
begin

text \<open>
  Arrays merged by key: arrays whose elements have distinct keys, the lookup of an element by its
  key, what \<open>$setElementOrder\<close> does to such an array (a permutation with the named elements
  first), and what applying a patch without deletions does to it.
\<close>

section \<open>Keyed arrays\<close>

definition keyed :: "('a \<Rightarrow> 'k option) \<Rightarrow> 'a list \<Rightarrow> bool" where
  "keyed key xs = (list_all (\<lambda>x. key x \<noteq> None) xs \<and> distinct (map key xs))"

definition elem_by :: "('a \<Rightarrow> 'k option) \<Rightarrow> 'a list \<Rightarrow> 'k \<Rightarrow> 'a option" where
  "elem_by key xs k = map_option snd (index_by key xs k)"

lemma keyed_simps [simp]:
  "keyed key []"
  "keyed key (x # xs) \<longleftrightarrow> key x \<noteq> None \<and> key x \<notin> key ` set xs \<and> keyed key xs"
  by (auto simp: keyed_def)

lemma keyed_append:
  "keyed key (xs @ ys) \<longleftrightarrow> keyed key xs \<and> keyed key ys \<and> key ` set xs \<inter> key ` set ys = {}"
  by (auto simp: keyed_def)

lemma keyed_filter_map: "keyed key xs \<Longrightarrow> map Some (filter_map key xs) = map key xs"
  by (induction xs) auto

lemma keyed_distinct: "keyed key xs \<Longrightarrow> distinct (filter_map key xs)"
  by (metis distinct_map keyed_def keyed_filter_map)

lemma keyed_mset: "mset xs = mset ys \<Longrightarrow> keyed key xs \<longleftrightarrow> keyed key ys"
proof -
  assume eq: "mset xs = mset ys"
  then have "distinct (map key xs) \<longleftrightarrow> distinct (map key ys)"
    by (intro mset_eq_imp_distinct_iff) simp
  with mset_eq_setD [OF eq] show ?thesis by (simp add: keyed_def list_all_iff)
qed

lemma keyed_inj: "keyed key xs \<Longrightarrow> x \<in> set xs \<Longrightarrow> y \<in> set xs \<Longrightarrow> key x = key y \<Longrightarrow> x = y"
  by (auto simp: keyed_def distinct_map inj_on_def)

lemma keyed_filter: "keyed key xs \<Longrightarrow> keyed key (filter P xs)"
  by (auto simp: keyed_def list_all_iff distinct_map_filter)

lemma elem_by_iff:
  assumes "keyed key xs"
  shows "elem_by key xs k = Some x \<longleftrightarrow> x \<in> set xs \<and> key x = Some k"
proof
  assume "elem_by key xs k = Some x"
  then show "x \<in> set xs \<and> key x = Some k"
    by (auto simp: elem_by_def dest: index_by_SomeD index_by_mem)
next
  assume "x \<in> set xs \<and> key x = Some k"
  then show "elem_by key xs k = Some x"
    using index_by_distinct [OF keyed_distinct [OF assms]] by (fastforce simp: elem_by_def)
qed

lemma elem_by_None_iff: "elem_by key xs k = None \<longleftrightarrow> k \<notin> keys_of key xs"
  by (simp add: elem_by_def index_by_None_iff)

lemma elem_by_mset:
  assumes "mset xs = mset ys" "keyed key xs"
  shows "elem_by key xs = elem_by key ys"
proof
  fix k
  have "keyed key ys" using keyed_mset [OF assms(1), of key] assms(2) by simp
  moreover have "set xs = set ys" by (rule mset_eq_setD [OF assms(1)])
  ultimately have "elem_by key xs k = Some x \<longleftrightarrow> elem_by key ys k = Some x" for x
    using assms(2) by (simp add: elem_by_iff)
  then show "elem_by key xs k = elem_by key ys k" by (metis option.exhaust)
qed

lemma keyed_filter_map_key:
  assumes "keyed key xs" and "\<And>x y. x \<in> set xs \<Longrightarrow> f x = Some y \<Longrightarrow> key y = key x"
  shows "keyed key (filter_map f xs) \<and>
         elem_by key (filter_map f xs) k = Option.bind (elem_by key xs k) f"
proof -
  have kf: "keyed key (filter_map f xs)"
    using assms
  proof (induction xs)
    case (Cons x xs)
    then have IH: "keyed key (filter_map f xs)" by simp
    show ?case
    proof (cases "f x")
      case (Some y)
      then have "key y = key x" using Cons.prems(2) by simp
      moreover have "key x \<notin> key ` set (filter_map f xs)"
        using Cons.prems by (auto simp: set_filter_map image_iff) metis
      ultimately show ?thesis using Some IH Cons.prems(1) by simp
    qed (use IH in simp)
  qed simp
  have "elem_by key (filter_map f xs) k = Some y \<longleftrightarrow> Option.bind (elem_by key xs k) f = Some y" for y
    using assms(2) by (auto simp: elem_by_iff [OF kf] elem_by_iff [OF assms(1)] set_filter_map bind_eq_Some_conv)
  then have "elem_by key (filter_map f xs) k = Option.bind (elem_by key xs k) f" by (rule option_eqI)
  with kf show ?thesis ..
qed

section \<open>The two copies of the key function\<close>

text \<open>
  \<open>merge.rs\<close> has its own \<open>get_composite_key_value\<close> and \<open>is_delete_directive\<close>; they agree with
  those of \<open>diff.rs\<close> and \<open>directives.rs\<close>.
\<close>

lemma extract_key_part_eq:
  "extract_key_part v = (case Option.bind v key_part of None \<Rightarrow> [] | Some p \<Rightarrow> p)"
  by (cases v) (auto simp: extract_key_part_def split: json.split)

lemma composite_keys_agree: "merge_get_composite_key_value ks item = get_composite_key_value ks item"
  by (simp add: merge_get_composite_key_value_def get_composite_key_value_def extract_key_part_eq)

lemma delete_directives_agree: "merge_is_delete_directive value = is_delete_directive value"
  by (auto simp: merge_is_delete_directive_def is_delete_directive_def directive_consts
      split: option.split json.split)

section \<open>Reordering\<close>

text \<open>The first occurrence of each element.\<close>

fun firsts :: "'a set \<Rightarrow> 'a list \<Rightarrow> 'a list" where
  "firsts seen [] = []"
| "firsts seen (x # xs) = (if x \<in> seen then firsts seen xs else x # firsts (insert x seen) xs)"

lemma set_firsts: "set (firsts seen xs) = set xs - seen"
  by (induction seen xs rule: firsts.induct) auto

lemma distinct_firsts: "distinct (firsts seen xs)"
  by (induction seen xs rule: firsts.induct) (auto simp: set_firsts)

lemma firsts_distinct: "distinct xs \<Longrightarrow> set xs \<inter> seen = {} \<Longrightarrow> firsts seen xs = xs"
  by (induction seen xs rule: firsts.induct) auto

lemma firsts_insert: "firsts (insert k seen) xs = filter (\<lambda>x. x \<noteq> k) (firsts seen xs)"
proof (induction xs arbitrary: seen)
  case (Cons x xs)
  have "firsts (insert x (insert k seen)) xs = filter (\<lambda>y. y \<noteq> k) (firsts (insert x seen) xs)"
    by (subst insert_commute) (rule Cons)
  moreover have "filter (\<lambda>y. y \<noteq> k) (firsts (insert k seen) xs) = firsts (insert k seen) xs"
    by (rule filter_True) (simp add: set_firsts)
  ultimately show ?case by (auto simp: Cons)
qed simp

text \<open>
  The reference: the elements the order names, in its order, then the others in theirs.
\<close>

definition order_keys :: "merge_keys \<Rightarrow> json list \<Rightarrow> json list \<Rightarrow> string list" where
  "order_keys ks order arr =
     filter (\<lambda>k. k \<in> keys_of (get_composite_key_value ks) arr)
       (firsts {} (filter_map (get_composite_key_value ks) order))"

definition reordered :: "json list \<Rightarrow> json list \<Rightarrow> merge_keys \<Rightarrow> json list" where
  "reordered arr order ks =
     (let key = get_composite_key_value ks in
      map (\<lambda>k. the (elem_by key arr k)) (order_keys ks order arr) @
      filter (\<lambda>x. the (key x) \<notin> keys_of key order) arr)"

lemma fold_reorder_take:
  assumes "\<And>k. k \<in> S \<Longrightarrow> m k = None" and "key = get_composite_key_value ks"
  shows "let L = filter (\<lambda>k. m k \<noteq> None) (firsts {} (filter_map key order)) in
    fold (reorder_take ks) order (m, S, R) =
    (m |` (- set L), S \<union> set L, R @ map (\<lambda>k. the (m k)) L)"
  using assms(1) unfolding Let_def
proof (induction order arbitrary: m S R)
  case Nil
  then show ?case by (simp add: restrict_map_def fun_eq_iff)
next
  case (Cons item order)
  show ?case
  proof (cases "Option.bind (key item) m")
    case None
    then have step: "reorder_take ks item (m, S, R) = (m, S, R)"
      by (auto simp: reorder_take_def composite_keys_agree assms(2) split: option.split)
    have "filter (\<lambda>k. m k \<noteq> None) (firsts {} (filter_map key (item # order))) =
        filter (\<lambda>k. m k \<noteq> None) (firsts {} (filter_map key order))"
      using None by (cases "key item") (auto simp: firsts_insert intro: filter_cong)
    with step Cons show ?thesis by simp
  next
    case (Some e)
    then obtain k where k: "key item = Some k" "m k = Some e" by (auto simp: bind_eq_Some_conv)
    let ?m = "m(k := None)"
    let ?L = "filter (\<lambda>k. ?m k \<noteq> None) (firsts {} (filter_map key order))"
    have L: "filter (\<lambda>k. m k \<noteq> None) (firsts {} (filter_map key (item # order))) = k # ?L"
      using k by (auto simp: firsts_insert intro!: filter_cong)
    have "fold (reorder_take ks) order (?m, insert k S, R @ [e]) =
        (?m |` (- set ?L), insert k S \<union> set ?L, (R @ [e]) @ map (\<lambda>k. the (?m k)) ?L)"
      by (rule Cons.IH) (use Cons.prems in auto)
    moreover have "reorder_take ks item (m, S, R) = (?m, insert k S, R @ [e])"
      using k by (simp add: reorder_take_def composite_keys_agree assms(2))
    moreover have "?m |` (- set ?L) = m |` (- set (k # ?L))"
      by (auto simp: restrict_map_def fun_eq_iff)
    moreover have "map (\<lambda>k. the (?m k)) ?L = map (\<lambda>k. the (m k)) ?L"
      by (auto simp: split: if_splits)
    ultimately show ?thesis unfolding L using k by simp
  qed
qed

lemma fold_reorder_rest:
  assumes "keyed (get_composite_key_value ks) arr"
    and "\<And>x k. x \<in> set arr \<Longrightarrow> get_composite_key_value ks x = Some k \<Longrightarrow> k \<notin> S \<Longrightarrow> m k = Some x"
  shows "snd (fold (reorder_rest ks S) arr (m, R)) =
    R @ filter (\<lambda>x. the (get_composite_key_value ks x) \<notin> S) arr"
  using assms
proof (induction arr arbitrary: m R)
  case (Cons x arr)
  from Cons.prems(1) obtain k where k: "get_composite_key_value ks x = Some k"
    and keyed: "keyed (get_composite_key_value ks) arr" by auto
  show ?case
  proof (cases "k \<in> S")
    case True
    have "snd (fold (reorder_rest ks S) arr (m, R)) =
        R @ filter (\<lambda>x. the (get_composite_key_value ks x) \<notin> S) arr"
      by (rule Cons.IH [OF keyed]) (use Cons.prems(2) in simp)
    moreover have "reorder_rest ks S x (m, R) = (m, R)"
      using True k by (simp add: reorder_rest_def composite_keys_agree)
    ultimately show ?thesis using True k by simp
  next
    case False
    with Cons.prems(2) k have "m k = Some x" by simp
    have "snd (fold (reorder_rest ks S) arr (m(k := None), R @ [x])) =
        (R @ [x]) @ filter (\<lambda>x. the (get_composite_key_value ks x) \<notin> S) arr"
      by (rule Cons.IH [OF keyed]) (use Cons.prems k in \<open>auto simp: rev_image_eqI\<close>)
    moreover have "reorder_rest ks S x (m, R) = (m(k := None), R @ [x])"
      using False k \<open>m k = Some x\<close> by (simp add: reorder_rest_def composite_keys_agree)
    ultimately show ?thesis using False k by simp
  qed
qed simp

lemma keyed_hash_map:
  assumes "keyed key arr"
  shows "hash_map_of (filter_map (\<lambda>x. map_option (\<lambda>k. (k, x)) (key x)) arr) = elem_by key arr"
proof -
  have fst: "map fst (filter_map (\<lambda>x. map_option (\<lambda>k. (k, x)) (key x)) xs) = filter_map key xs" for xs
    by (induction xs) (auto split: option.split)
  have "distinct (map fst (filter_map (\<lambda>x. map_option (\<lambda>k. (k, x)) (key x)) arr))"
    unfolding fst by (rule keyed_distinct [OF assms])
  then show ?thesis
    by (intro map_eqI)
      (auto simp: hash_map_of_distinct map_of_eq_Some_iff set_filter_map elem_by_iff [OF assms])
qed

lemma reorder_eq:
  assumes "keyed (get_composite_key_value ks) arr"
  shows "reorder_array_by_element_order arr order ks = reordered arr order ks"
proof -
  let ?key = "get_composite_key_value ks"
  let ?m = "elem_by ?key arr"
  let ?L = "order_keys ks order arr"
  have L: "filter (\<lambda>k. ?m k \<noteq> None) (firsts {} (filter_map ?key order)) = ?L"
    unfolding order_keys_def elem_by_None_iff by simp
  have take: "fold (reorder_take ks) order (?m, {}, []) =
      (?m |` (- set ?L), set ?L, map (\<lambda>k. the (?m k)) ?L)"
    using fold_reorder_take [of "{}" ?m ?key ks order "[]"] unfolding Let_def L by simp
  have rest: "snd (fold (reorder_rest ks (set ?L)) arr (?m |` (- set ?L), R)) =
      R @ filter (\<lambda>x. the (?key x) \<notin> set ?L) arr" for R
    by (rule fold_reorder_rest [OF assms]) (simp add: elem_by_iff [OF assms])
  have "the (?key x) \<in> set ?L \<longleftrightarrow> the (?key x) \<in> keys_of ?key order" if "x \<in> set arr" for x
  proof -
    have "the (?key x) \<in> keys_of ?key arr"
      using assms that by (auto simp: keyed_def list_all_iff)
    then show ?thesis by (simp add: order_keys_def set_firsts keys_of_def del: mem_keys_of)
  qed
  then have "filter (\<lambda>x. the (?key x) \<notin> set ?L) arr = filter (\<lambda>x. the (?key x) \<notin> keys_of ?key order) arr"
    by (intro filter_cong) (simp_all del: mem_keys_of)
  with rest [of "map (\<lambda>k. the (?m k)) ?L"] show ?thesis
    unfolding reorder_array_by_element_order_def composite_keys_agree keyed_hash_map [OF assms]
      Let_def take prod.case reordered_def
    by (simp only: case_prod_unfold)
qed

text \<open>Reordering loses and invents nothing.\<close>

lemma mset_reordered:
  assumes "keyed (get_composite_key_value ks) arr"
  shows "mset (reordered arr order ks) = mset arr"
proof -
  let ?key = "get_composite_key_value ks"
  let ?xs = "map (\<lambda>k. the (elem_by ?key arr k)) (order_keys ks order arr)"
  have elem: "the (elem_by ?key arr k) \<in> set arr \<and> ?key (the (elem_by ?key arr k)) = Some k"
    if "k \<in> set (order_keys ks order arr)" for k
  proof -
    from that have "elem_by ?key arr k \<noteq> None"
      unfolding elem_by_None_iff by (simp add: order_keys_def)
    then obtain x where "elem_by ?key arr k = Some x" by blast
    with elem_by_iff [OF assms, of k x] show ?thesis by simp
  qed
  have "distinct (order_keys ks order arr)" by (simp add: order_keys_def distinct_firsts)
  moreover have "inj_on (\<lambda>k. the (elem_by ?key arr k)) (set (order_keys ks order arr))"
    by (rule inj_onI) (metis elem option.inject)
  ultimately have d1: "distinct ?xs" by (simp add: distinct_map)
  have "set ?xs = set (filter (\<lambda>x. the (?key x) \<in> keys_of ?key order) arr)"
  proof (intro equalityI subsetI)
    fix x assume "x \<in> set ?xs"
    then obtain k where k: "k \<in> set (order_keys ks order arr)" "x = the (elem_by ?key arr k)" by auto
    then have "k \<in> keys_of ?key order" by (auto simp: order_keys_def set_firsts keys_of_def)
    with k elem [OF k(1)] show "x \<in> set (filter (\<lambda>x. the (?key x) \<in> keys_of ?key order) arr)" by simp
  next
    fix x assume x: "x \<in> set (filter (\<lambda>x. the (?key x) \<in> keys_of ?key order) arr)"
    then obtain k where k: "?key x = Some k" using assms by (auto simp: keyed_def list_all_iff)
    with x have "k \<in> set (order_keys ks order arr)"
      by (auto simp: order_keys_def set_firsts set_filter_map)
    moreover have "elem_by ?key arr k = Some x" using x k by (simp add: elem_by_iff [OF assms])
    ultimately show "x \<in> set ?xs" by force
  qed
  moreover have "distinct arr" using assms by (simp add: keyed_def distinct_map)
  ultimately have "mset ?xs = mset (filter (\<lambda>x. the (?key x) \<in> keys_of ?key order) arr)"
    by (intro iffD1 [OF set_eq_iff_mset_eq_distinct [OF d1 distinct_filter]])
  then show ?thesis by (simp add: reordered_def Let_def del: mem_keys_of)
qed

section \<open>Applying a patch without deletions\<close>

lemma elem_by_snoc:
  assumes "keyed key (xs @ [p])"
  shows "elem_by key (xs @ [p]) k = (if key p = Some k then Some p else elem_by key xs k)"
proof -
  have "keyed key xs" using assms by (simp add: keyed_append)
  then have "elem_by key (xs @ [p]) k = Some x \<longleftrightarrow>
      (if key p = Some k then Some p else elem_by key xs k) = Some x" for x
    using assms elem_by_iff [OF assms, of k x] elem_by_iff [of key xs k x]
    by (auto simp: keyed_append) (metis image_eqI)
  then show ?thesis by (metis not_None_eq)
qed

definition merged_array ::
  "(json \<Rightarrow> string option) \<Rightarrow> (json \<Rightarrow> json) \<Rightarrow> json list \<Rightarrow> json list \<Rightarrow> json list" where
  "merged_array key A base patch =
     map (\<lambda>b. case elem_by key patch (the (key b)) of None \<Rightarrow> b | Some p \<Rightarrow> A p) base @
     map discard_null_values (filter (\<lambda>p. the (key p) \<notin> keys_of key base) patch)"

lemma merged_array_snoc_new:
  assumes "keyed key base" "keyed key (patch @ [p])" "key p = Some k" "k \<notin> keys_of key base"
  shows "merged_array key A base (patch @ [p]) = merged_array key A base patch @ [discard_null_values p]"
proof -
  have "elem_by key (patch @ [p]) (the (key b)) = elem_by key patch (the (key b))" if "b \<in> set base" for b
    using that assms(1,3,4) by (auto simp: elem_by_snoc [OF assms(2)] keyed_def list_all_iff)
  then show ?thesis using assms(3,4) by (simp add: merged_array_def del: mem_keys_of cong: map_cong)
qed

lemma merged_array_snoc_old:
  assumes "keyed key base" "keyed key (patch @ [p])" "key p = Some k"
    and "i < length base" "key (base ! i) = Some k"
  shows "merged_array key A base (patch @ [p]) = (merged_array key A base patch)[i := A p]"
    and "merged_array key A base patch ! i = base ! i"
proof -
  let ?f = "\<lambda>ps b. case elem_by key ps (the (key b)) of None \<Rightarrow> b | Some p \<Rightarrow> A p"
  have "map (?f (patch @ [p])) base = (map (?f patch) base)[i := A p]"
  proof (rule nth_equalityI)
    fix j assume "j < length (map (?f (patch @ [p])) base)"
    then have j: "j < length base" by simp
    then obtain kj where kj: "key (base ! j) = Some kj"
      using assms(1) by (auto simp: keyed_def list_all_length)
    have "kj = k \<longleftrightarrow> j = i"
      using nth_eq_iff_index_eq [of "map key base" j i] assms(1,4,5) j kj by (auto simp: keyed_def)
    then show "map (?f (patch @ [p])) base ! j = (map (?f patch) base)[i := A p] ! j"
      using j kj assms(3,4,5)
      by (cases "j = i") (simp_all add: elem_by_snoc [OF assms(2)] nth_list_update)
  qed simp
  moreover have "k \<in> keys_of key base" using assms(4,5) by (auto intro: nth_mem)
  ultimately show "merged_array key A base (patch @ [p]) = (merged_array key A base patch)[i := A p]"
    using assms(3,4) by (simp add: merged_array_def list_update_append del: mem_keys_of)
  have "k \<notin> keys_of key patch" using assms(2,3) by (auto simp: keyed_append) (metis image_eqI)
  then have "elem_by key patch k = None" by (simp add: elem_by_None_iff del: mem_keys_of)
  then show "merged_array key A base patch ! i = base ! i"
    using assms(4,5) by (simp add: merged_array_def nth_append)
qed

lemma apply_array_merged:
  assumes "keyed (get_composite_key_value ks) base" "keyed (get_composite_key_value ks) patch"
    and "\<And>p. p \<in> set patch \<Longrightarrow> \<not> is_delete_directive p"
    and ok: "\<And>p b k. p \<in> set patch \<Longrightarrow> b \<in> set base \<Longrightarrow> get_composite_key_value ks p = Some k \<Longrightarrow>
       get_composite_key_value ks b = Some k \<Longrightarrow>
       apply_strategic_patch_with_options schema b p (path @ ''.'' @ k) options = Inr (A p)"
    and options: "options = server_options"
  shows "apply_patch_to_array_strategic schema base patch path ks options =
    Inr (JArr (merged_array (get_composite_key_value ks) A base patch))"
proof -
  let ?key = "get_composite_key_value ks"
  let ?idx = "index_by ?key base"
  let ?body = "\<lambda>patch_item result.
           if merge_is_delete_directive patch_item then
             (case merge_get_composite_key_value ks patch_item of
                None \<Rightarrow> Inr result
              | Some key_value \<Rightarrow>
                  Inr (filter (\<lambda>item. case merge_get_composite_key_value ks item of
                                        None \<Rightarrow> True | Some k \<Rightarrow> k \<noteq> key_value) result))
           else
             case merge_get_composite_key_value ks patch_item of
               None \<Rightarrow> Inr (result @ [discard_nulls_if_needed patch_item options])
             | Some key_value \<Rightarrow>
                 (case index_by (merge_get_composite_key_value ks) base key_value of
                    None \<Rightarrow> Inr (result @ [discard_nulls_if_needed patch_item options])
                  | Some (base_idx, _) \<Rightarrow>
                      if base_idx < length result then
                        and_then (apply_strategic_patch_with_options schema (result ! base_idx) patch_item
                                    (path @ ''.'' @ key_value) options)
                          (\<lambda>merged. Inr (result[base_idx := merged]))
                      else Inl Panic)"
  have step: "?body p (merged_array ?key A base pre) = Inr (merged_array ?key A base (pre @ [p]))"
    if p: "p \<in> set patch" and kd: "keyed ?key (pre @ [p])" for pre p
  proof -
    obtain k where k: "?key p = Some k" using kd by (auto simp: keyed_append)
    show ?thesis
    proof (cases "?idx k")
      case None
      then have "k \<notin> keys_of ?key base" using index_by_None_iff by metis
      with None k kd assms(1,3) p options show ?thesis
        by (simp add: delete_directives_agree composite_keys_agree [abs_def] discard_nulls_if_needed_def
            merged_array_snoc_new)
    next
      case (Some ib)
      obtain i b where ib: "ib = (i, b)" by (cases ib)
      have "i < length base" "b = base ! i" "?key b = Some k"
        by (rule index_by_SomeD [OF Some [unfolded ib]])+
      with Some ib have i: "?idx k = Some (i, base ! i)" "i < length base" "?key (base ! i) = Some k"
        by simp_all
      have old: "merged_array ?key A base (pre @ [p]) = (merged_array ?key A base pre)[i := A p]"
        "merged_array ?key A base pre ! i = base ! i"
        by (rule merged_array_snoc_old [OF assms(1) kd k i(2,3)])+
      have len: "i < length (merged_array ?key A base pre)"
        using i(2) by (simp add: merged_array_def)
      have "apply_strategic_patch_with_options schema (base ! i) p (path @ ''.'' @ k) options = Inr (A p)"
        by (rule ok [OF p _ k i(3)]) (use i(2) in simp)
      with i k old len assms(3) [OF p] show ?thesis
        by (simp add: delete_directives_agree composite_keys_agree [abs_def])
    qed
  qed
  have loop: "for_each ?body rest (merged_array ?key A base pre) = Inr (merged_array ?key A base (pre @ rest))"
    if "set rest \<subseteq> set patch" "keyed ?key (pre @ rest)" for pre rest
    using that
  proof (induction rest arbitrary: pre)
    case (Cons p rest)
    have "keyed ?key (pre @ [p])" using Cons.prems(2) by (auto simp: keyed_append)
    with Cons.prems(1) have "?body p (merged_array ?key A base pre) = Inr (merged_array ?key A base (pre @ [p]))"
      by (intro step) auto
    moreover have "for_each ?body rest (merged_array ?key A base (pre @ [p])) =
        Inr (merged_array ?key A base ((pre @ [p]) @ rest))"
      by (rule Cons.IH) (use Cons.prems in auto)
    ultimately show ?case by (simp only: for_each.simps and_then_simps append_assoc append_Cons append_Nil)
  qed simp
  have start: "merged_array ?key A base [] = base"
    by (simp add: merged_array_def elem_by_def index_by_def)
  show ?thesis
    using loop [of patch "[]"] assms(2)
    unfolding apply_patch_to_array_strategic.simps Let_def start by simp
qed

text \<open>The element with a key after the merge.\<close>

lemma elem_by_merged:
  assumes "keyed key base" "keyed key patch"
    and A: "\<And>p b. p \<in> set patch \<Longrightarrow> b \<in> set base \<Longrightarrow> key p = key b \<Longrightarrow> key (A p) = key p"
    and D: "\<And>p. p \<in> set patch \<Longrightarrow> key p \<notin> key ` set base \<Longrightarrow> discard_null_values p = p"
  shows "keyed key (merged_array key A base patch) \<and>
    elem_by key (merged_array key A base patch) k =
      (case (elem_by key base k, elem_by key patch k) of
         (Some b, None) \<Rightarrow> Some b | (Some b, Some p) \<Rightarrow> Some (A p) | (None, p) \<Rightarrow> p)"
proof -
  let ?f = "\<lambda>b. case elem_by key patch (the (key b)) of None \<Rightarrow> b | Some p \<Rightarrow> A p"
  let ?new = "filter (\<lambda>p. the (key p) \<notin> keys_of key base) patch"
  have key_f: "key (?f b) = key b" if b: "b \<in> set base" for b
  proof (cases "elem_by key patch (the (key b))")
    case (Some p)
    obtain kb where kb: "key b = Some kb" using assms(1) b by (auto simp: keyed_def list_all_iff)
    with Some have "p \<in> set patch" "key p = key b" by (simp_all add: elem_by_iff [OF assms(2)])
    with A [OF _ b] Some show ?thesis by simp
  qed simp
  have new: "x \<in> set ?new \<longleftrightarrow> x \<in> set patch \<and> key x \<notin> key ` set base" for x
    using assms(1,2) by (force simp: keyed_def list_all_iff image_iff)
  have map_new: "map discard_null_values ?new = ?new"
    by (rule map_idI) (use D new in auto)
  have keys_f: "map key (map ?f base) = map key base"
    using key_f by simp
  have k1: "keyed key (map ?f base)"
    using assms(1) keys_f unfolding keyed_def list_all_iff by (metis (no_types, lifting) image_iff list.set_map)
  have k2: "keyed key ?new" by (rule keyed_filter [OF assms(2)])
  have "key ` set (map ?f base) = key ` set base" by (metis keys_f list.set_map)
  with k1 k2 new have kk: "keyed key (merged_array key A base patch)"
    unfolding merged_array_def map_new keyed_append by (auto simp del: mem_keys_of) (metis imageI)
  have set_merged: "set (merged_array key A base patch) = ?f ` set base \<union> set ?new"
    unfolding merged_array_def map_new by simp
  have "elem_by key (merged_array key A base patch) k = Some x \<longleftrightarrow>
      (case (elem_by key base k, elem_by key patch k) of
         (Some b, None) \<Rightarrow> Some b | (Some b, Some p) \<Rightarrow> Some (A p) | (None, p) \<Rightarrow> p) = Some x" for x
  proof (cases "elem_by key base k")
    case None
    then have nb: "Some k \<notin> key ` set base" by (auto simp: elem_by_None_iff)
    then have "x \<in> ?f ` set base \<union> set ?new \<and> key x = Some k \<longleftrightarrow> x \<in> set patch \<and> key x = Some k"
      using key_f new by (auto simp: image_iff)
    with None show ?thesis
      by (simp add: elem_by_iff [OF kk] elem_by_iff [OF assms(2)] set_merged del: set_filter)
  next
    case (Some b)
    then have b: "b \<in> set base" "key b = Some k" by (simp_all add: elem_by_iff [OF assms(1)])
    have "y = b" if "y \<in> set base" "key y = Some k" for y
      by (rule keyed_inj [OF assms(1) that(1) b(1)]) (simp add: that b)
    note only = this
    have "x \<in> ?f ` set base \<union> set ?new \<and> key x = Some k \<longleftrightarrow> x = ?f b"
    proof
      assume x: "x \<in> ?f ` set base \<union> set ?new \<and> key x = Some k"
      have "x \<notin> set ?new"
      proof
        assume "x \<in> set ?new"
        then have "key x \<notin> key ` set base" using new by blast
        moreover have "key x = key b" using x b by simp
        ultimately show False using b(1) by simp
      qed
      with x obtain y where y: "y \<in> set base" "x = ?f y" by blast
      have "key y = Some k" using key_f [OF y(1)] x y(2) by (simp only:)
      with only [OF y(1)] have "y = b" by blast
      with y(2) show "x = ?f b" by (simp only:)
    next
      assume x: "x = ?f b"
      have "key (?f b) = Some k" using key_f [OF b(1)] b(2) by (simp only:)
      with x b(1) show "x \<in> ?f ` set base \<union> set ?new \<and> key x = Some k" by blast
    qed
    then have "elem_by key (merged_array key A base patch) k = Some x \<longleftrightarrow> x = ?f b"
      unfolding elem_by_iff [OF kk] set_merged .
    with Some b show ?thesis by (cases "elem_by key patch k") auto
  qed
  then have "elem_by key (merged_array key A base patch) k =
      (case (elem_by key base k, elem_by key patch k) of
         (Some b, None) \<Rightarrow> Some b | (Some b, Some p) \<Rightarrow> Some (A p) | (None, p) \<Rightarrow> p)"
    by (rule option_eqI)
  with kk show ?thesis ..
qed

end
