(* ===== verification/Diff_Facts.thy ===== *)
theory Diff_Facts
  imports Array_Facts
begin

text \<open>
  What the diff computes. It never fails, so each of its loops is a fold; the patch of an object
  is then known key by key: every field contributes its own key and its two directive keys, and
  no two fields contribute the same key. Arrays merged by key give one entry per new or changed
  element.
\<close>

section \<open>The diff never fails\<close>

lemma and_then_obj_ok:
  assumes "\<exists>x. r = Inr x" and "\<And>x. r = Inr x \<Longrightarrow> \<exists>y. f x = Inr (JObj y)"
  shows "\<exists>y. and_then r f = Inr (JObj y)"
  using assms by auto

lemma diff_total:
  "\<exists>d. diff_values schema from_val to_val path opts = Inr d"
  "\<exists>d. diff_maps schema from_map to_map path opts = Inr (JObj d)"
  "\<exists>d. diff_arrays schema from_arr to_arr path opts = Inr d"
  "\<exists>d. diff_arrays_strategic schema from_arr to_arr path ks opts = Inr d"
proof (induction schema from_val to_val path opts and schema from_map to_map path opts
    and schema from_arr to_arr path opts and schema from_arr to_arr path ks opts
    rule: diff_values_diff_maps_diff_arrays_diff_arrays_strategic.induct)
  case (1 schema from_val to_val path options)
  then show ?case
    by (subst diff_values.simps) (cases from_val; cases to_val; force)
next
  case (2 schema from_map to_map path options)
  show ?case
  proof (cases "ignore_changes_and_additions options")
    case True
    have "\<exists>d. diff_values schema v w (child_path path k) options = Inr d"
      if "(k, v) \<in> set from_map" "\<not> is_directive k" "map_of to_map k = Some w" "\<not> ignore_deletions options"
      for k v w
      by (rule "2.IH"(2)) (use that True in auto)
    with True show ?thesis
      by (subst diff_maps.simps)
        (auto simp del: split_paired_Ex split: prod.splits option.splits
          intro!: for_each_ok and_then_ok and_then_obj_ok)
  next
    case False
    have "\<exists>d. diff_values schema v w (child_path path k) options = Inr d"
      if "(k, w) \<in> set to_map" "\<not> is_directive k" "map_of from_map k = Some v" for k v w
      by (rule "2.IH"(1)) (use that False in auto)
    with False show ?thesis
      by (subst diff_maps.simps)
        (auto simp del: split_paired_Ex split: prod.splits option.splits
          intro!: for_each_ok and_then_ok and_then_obj_ok)
  qed
next
  case (3 schema from_arr to_arr path options)
  then show ?case
    by (subst diff_arrays.simps)
      (auto simp: diff_arrays_primitive_def Let_def split: option.splits bool.splits)
next
  case (4 schema from_arr to_arr path ks options)
  have "\<exists>d. diff_values schema v w (path @ ''.'' @ k) options = Inr d"
    if "w \<in> set to_arr" "get_composite_key_value ks w = Some k"
       "index_by (get_composite_key_value ks) from_arr k = Some (i, v)" for k v w i
    using "4.IH" [OF refl refl refl that(1) _ that(2) refl that(3)] by auto
  then show ?case
    by (subst diff_arrays_strategic.simps)
      (auto simp: Let_def simp del: split_paired_Ex
        split: prod.splits option.splits json.splits intro!: for_each_ok and_then_ok)
qed

definition diffed :: "schema_lookup \<Rightarrow> json \<Rightarrow> json \<Rightarrow> string \<Rightarrow> diff_options \<Rightarrow> json" where
  "diffed schema f t path opts = projr (diff_values schema f t path opts)"

lemma diff_values_eq: "diff_values schema f t path opts = Inr (diffed schema f t path opts)"
  using diff_total(1) [of schema f t path opts] by (auto simp: diffed_def)

lemma diffed_eqI: "diff_values schema f t path opts = Inr d \<Longrightarrow> diffed schema f t path opts = d"
  by (simp add: diffed_def)

section \<open>The keys a field contributes\<close>

definition is_wrapper :: "string \<Rightarrow> json \<Rightarrow> bool" where
  "is_wrapper key d =
     (case d of
        JObj dm \<Rightarrow>
          length dm \<le> 2 \<and>
          (contains_key dm (set_element_order_key key) \<or> contains_key dm (delete_from_primitive_list_key key)) \<and>
          list_all (\<lambda>(k, _). k = key \<or> k = set_element_order_key key \<or> k = delete_from_primitive_list_key key) dm
      | _ \<Rightarrow> False)"

definition contribution :: "string \<Rightarrow> json \<Rightarrow> string \<Rightarrow> json option" where
  "contribution key d x =
     (if is_wrapper key d then
        (if x = set_element_order_key key \<or> x = delete_from_primitive_list_key key then value_get d x
         else if x = key then
           (case value_get d key of
              None \<Rightarrow> None
            | Some changes \<Rightarrow> if is_empty_patch changes then None else Some changes)
         else None)
      else if x = key then Some d else None)"

lemma insert_diff_get:
  assumes "\<not> is_directive key"
  shows "map_of (insert_diff_result r key d) x =
    (case contribution key d x of Some v \<Rightarrow> Some v | None \<Rightarrow> map_of r x)"
proof (cases "is_wrapper key d")
  case False
  then show ?thesis
    by (auto simp: insert_diff_result_def contribution_def is_wrapper_def Let_def split: json.split if_splits)
next
  case True
  then obtain dm where "d = JObj dm" by (auto simp: is_wrapper_def split: json.splits)
  with True assms show ?thesis
    by (auto simp: insert_diff_result_def contribution_def is_wrapper_def Let_def split: option.split)
qed

lemma insert_diff_ok:
  "distinct_keys r \<Longrightarrow> distinct_keys (insert_diff_result r key d)"
  by (auto simp: insert_diff_result_def Let_def split: json.split option.split)

text \<open>The field a key of a patch belongs to.\<close>

definition owner :: "string \<Rightarrow> string" where
  "owner x =
     (case extract_set_element_order_field x of
        Some f \<Rightarrow> f
      | None \<Rightarrow> (case extract_delete_from_primitive_list_field x of Some f \<Rightarrow> f | None \<Rightarrow> x))"

lemma owner_simps [simp]:
  "owner (set_element_order_key f) = f"
  "owner (delete_from_primitive_list_key f) = f"
  "\<not> is_directive k \<Longrightarrow> owner k = k"
  by (simp_all add: owner_def)

lemma owner_retain_patch [simp]:
  "owner DIRECTIVE_RETAIN_KEYS = DIRECTIVE_RETAIN_KEYS"
  "owner DIRECTIVE_PATCH = DIRECTIVE_PATCH"
  by (auto simp: owner_def extract_order_iff extract_delete_iff split: option.split)

lemma contribution_owner:
  "\<not> is_directive key \<Longrightarrow> contribution key d x \<noteq> None \<Longrightarrow> owner x = key"
  by (auto simp: contribution_def split: if_splits)

lemma fold_contributions:
  assumes "\<And>k v r x. (k, v) \<in> set es \<Longrightarrow> map_of (step (k, v) r) x =
      (case C k v x of Some w \<Rightarrow> Some w | None \<Rightarrow> map_of r x)"
    and "\<And>k v x. C k v x \<noteq> None \<Longrightarrow> owner x = k"
    and "distinct_keys es"
  shows "map_of (fold step es r) x =
    (case map_of es (owner x) of
       None \<Rightarrow> map_of r x
     | Some v \<Rightarrow> (case C (owner x) v x of Some w \<Rightarrow> Some w | None \<Rightarrow> map_of r x))"
  using assms(1,3)
proof (induction es arbitrary: r)
  case (Cons e es)
  obtain k v where e: "e = (k, v)" by (cases e)
  have nk: "map_of es k = None" "distinct_keys es"
    using Cons.prems(2) by (simp_all add: e distinct_keys_Cons)
  have "map_of (fold step es (step (k, v) r)) x =
    (case map_of es (owner x) of
       None \<Rightarrow> map_of (step (k, v) r) x
     | Some v' \<Rightarrow> (case C (owner x) v' x of Some w \<Rightarrow> Some w | None \<Rightarrow> map_of (step (k, v) r) x))"
    by (rule Cons.IH) (use Cons.prems nk in auto)
  moreover have "map_of (step (k, v) r) x = (case C k v x of Some w \<Rightarrow> Some w | None \<Rightarrow> map_of r x)"
    using Cons.prems(1) [of k v r x] by (simp add: e)
  moreover have "C k v x = None" if "owner x \<noteq> k" using that assms(2) [of k v x] by blast
  ultimately show ?case using nk(1)
    by (cases "owner x = k") (auto simp: e split: option.split)
qed simp

section \<open>The delta of two objects\<close>

definition delta_mode :: "diff_options \<Rightarrow> bool" where
  "delta_mode opts = (ignore_deletions opts \<and> \<not> ignore_changes_and_additions opts)"

definition field_delta ::
  "schema_lookup \<Rightarrow> json_map \<Rightarrow> string \<Rightarrow> diff_options \<Rightarrow> string \<Rightarrow> json \<Rightarrow> string \<Rightarrow> json option" where
  "field_delta schema from_map path opts key to_value x =
     (if is_directive key then None
      else case map_of from_map key of
          None \<Rightarrow> if x = key then Some to_value else None
        | Some from_value \<Rightarrow>
            let d = diffed schema from_value to_value (child_path path key) opts in
            if is_empty_patch d then None else contribution key d x)"

lemma field_delta_owner: "field_delta schema m path opts key v x \<noteq> None \<Longrightarrow> owner x = key"
  using contribution_owner
  by (auto simp: field_delta_def Let_def split: if_splits option.splits)

lemma diff_maps_delta:
  assumes "delta_mode opts" "distinct_keys to_map"
  shows "\<exists>dm. diff_maps schema from_map to_map path opts = Inr (JObj dm) \<and> distinct_keys dm \<and>
    (\<forall>x. map_of dm x = Option.bind (map_of to_map (owner x))
            (\<lambda>v. field_delta schema from_map path opts (owner x) v x))"
proof -
  let ?step = "\<lambda>(key, to_value) result.
     if is_directive key then result
     else case map_of from_map key of
         None \<Rightarrow> map_insert key to_value result
       | Some from_value \<Rightarrow>
           let diff = diffed schema from_value to_value (child_path path key) opts in
           if is_empty_patch diff then result else insert_diff_result result key diff"
  let ?dm = "fold ?step to_map []"
  have eq: "diff_maps schema from_map to_map path opts = Inr (JObj ?dm)"
    unfolding diff_maps.simps diff_values_eq
    using assms(1)
    by (subst for_each_total [where g = ?step])
      (auto simp: delta_mode_def Let_def split: option.split prod.split)
  have "map_of (?step (k, v) r) x =
      (case field_delta schema from_map path opts k v x of Some w \<Rightarrow> Some w | None \<Rightarrow> map_of r x)" for k v r x
    by (auto simp: field_delta_def Let_def insert_diff_get split: option.split)
  then have "map_of ?dm x = Option.bind (map_of to_map (owner x))
            (\<lambda>v. field_delta schema from_map path opts (owner x) v x)" for x
    by (subst fold_contributions [where C = "field_delta schema from_map path opts"])
      (auto intro: field_delta_owner assms(2) split: option.split)
  moreover have "distinct_keys ?dm"
    by (rule fold_invariant [where I = distinct_keys])
      (auto simp: Let_def insert_diff_ok split: option.split)
  ultimately show ?thesis using eq by blast
qed

section \<open>The delta of two arrays merged by key\<close>

definition element_delta ::
  "schema_lookup \<Rightarrow> json list \<Rightarrow> string \<Rightarrow> merge_keys \<Rightarrow> diff_options \<Rightarrow> json \<Rightarrow> json option" where
  "element_delta schema from_arr path ks opts to_item =
     (case get_composite_key_value ks to_item of
        None \<Rightarrow> Some to_item
      | Some k \<Rightarrow>
          (case elem_by (get_composite_key_value ks) from_arr k of
             None \<Rightarrow> Some to_item
           | Some from_item \<Rightarrow>
               let d = diffed schema from_item to_item (path @ ''.'' @ k) opts in
               if is_empty_patch d then None
               else case d of JObj dm \<Rightarrow> Some (JObj (add_merge_keys_to_map dm to_item ks)) | _ \<Rightarrow> None))"

lemma fold_filter_map: "fold (\<lambda>x r. case f x of None \<Rightarrow> r | Some y \<Rightarrow> r @ [y]) xs r = r @ filter_map f xs"
  by (induction xs arbitrary: r) (auto split: option.split)

lemma diff_arrays_delta:
  assumes "delta_mode opts"
  shows "\<exists>order. diff_arrays_strategic schema from_arr to_arr path ks opts =
    Inr (strategic_wrap path opts (filter_map (element_delta schema from_arr path ks opts) to_arr) order)"
proof -
  let ?key = "get_composite_key_value ks"
  let ?orig = "map_option (keys_of ?key) (Option.bind (opt_original opts) (\<lambda>v. extract_array_at_path v path))"
  let ?g = "\<lambda>to_item result. case element_delta schema from_arr path ks opts to_item of
      None \<Rightarrow> result | Some y \<Rightarrow> result @ [y]"
  let ?h = "\<lambda>to_item order. case ?key to_item of None \<Rightarrow> order
      | Some k \<Rightarrow> if build_element_order opts then
          append_server_injected_elements k from_arr (index_by ?key from_arr) (keys_of ?key to_arr) ?orig ks
            (order @ [JObj (build_key_object to_item ks)])
        else order"
  have opts: "ignore_deletions opts" "\<not> ignore_changes_and_additions opts"
    using assms by (simp_all add: delta_mode_def)
  show ?thesis
    unfolding diff_arrays_strategic.simps Let_def diff_values_eq
    apply (subst for_each_pair [where g = "\<lambda>x s. Inr (?g x s)" and h = ?h])
    subgoal for x s u
      using opts
      by (auto simp: element_delta_def elem_by_def Let_def split: option.split json.split)
    subgoal
      using opts
      by (subst for_each_total [where g = ?g]) (auto simp: fold_filter_map)
    done
qed

end
