(* ===== verification/Delta_Contract.thy ===== *)
theory Delta_Contract
  imports Diff_Facts
begin

text \<open>
  The contract of the client-side patch: applying the delta of a live object and a manifest to
  the live object gives what the manifest asks for. \<open>achieves\<close> states what that is, independently
  of the algorithms: fields and named elements of the manifest take its values, the others stay
  as they are. \<open>mergeable\<close> collects, as a computable check of the two inputs, the situations the
  code handles; each of its conjuncts excludes one the code does not.
\<close>

section \<open>Manifests\<close>

fun no_nulls :: "json \<Rightarrow> bool" where
  "no_nulls JNull = False"
| "no_nulls (JObj m) = list_all (\<lambda>(_, v). no_nulls v) m"
| "no_nulls (JArr xs) = list_all no_nulls xs"
| "no_nulls _ = True"

definition manifest_ok :: "json \<Rightarrow> bool" where
  "manifest_ok t = (wf_json t \<and> no_directives t \<and> no_nulls t)"

lemma no_nulls_not_JNull: "no_nulls v \<Longrightarrow> v \<noteq> JNull"
  by auto

lemma discard_id: "no_nulls v \<Longrightarrow> discard_null_values v = v"
proof (induction v rule: no_nulls.induct)
  case (2 m)
  then have "filter (\<lambda>(_, v). \<not> is_null v) m = m"
    by (auto simp: list_all_iff intro!: filter_True)
  moreover have "map (\<lambda>(k, v). (k, discard_null_values v)) m = m"
    using 2 by (intro map_idI) (auto simp: list_all_iff)
  ultimately show ?case by simp
next
  case (3 xs)
  then have "filter (\<lambda>v. \<not> is_null v) xs = xs"
    by (auto simp: list_all_iff intro!: filter_True)
  moreover have "map discard_null_values xs = xs"
    using 3 by (intro map_idI) (auto simp: list_all_iff)
  ultimately show ?case by simp
qed auto

lemma manifest_obj:
  assumes "manifest_ok (JObj m)"
  shows "distinct_keys m"
    and "map_of m k = Some v \<Longrightarrow> \<not> is_directive k"
    and "map_of m k = Some v \<Longrightarrow> manifest_ok v"
  using assms unfolding manifest_ok_def
  by (auto simp: list_all_iff dest!: map_of_SomeD)

lemma manifest_item: "manifest_ok (JArr xs) \<Longrightarrow> x \<in> set xs \<Longrightarrow> manifest_ok x"
  by (simp add: manifest_ok_def list_all_iff)

lemma manifest_discard: "manifest_ok v \<Longrightarrow> discard_null_values v = v"
  by (simp add: manifest_ok_def discard_id)

lemma manifest_not_null: "manifest_ok v \<Longrightarrow> v \<noteq> JNull"
  by (auto simp: manifest_ok_def)

section \<open>What the manifest asks for\<close>

text \<open>One field or element: kept, added, or brought to the manifest's value.\<close>

fun overlaid ::
  "(json \<Rightarrow> json \<Rightarrow> json \<Rightarrow> bool) \<Rightarrow> json option \<Rightarrow> json option \<Rightarrow> json option \<Rightarrow> bool" where
  "overlaid sub None t r = (r = t)"
| "overlaid sub c None r = (r = c)"
| "overlaid sub (Some c) (Some t) r = (case r of None \<Rightarrow> False | Some v \<Rightarrow> sub c t v)"

lemma overlaid_cong [fundef_cong]:
  assumes "c = c'" "t = t'" "r = r'"
    and "\<And>x y z. c' = Some x \<Longrightarrow> t' = Some y \<Longrightarrow> r' = Some z \<Longrightarrow> sub x y z = sub' x y z"
  shows "overlaid sub c t r = overlaid sub' c' t' r'"
  using assms by (cases c'; cases t'; cases r') auto

lemma overlaid_mono:
  assumes "overlaid sub c t r"
    and "\<And>x y z. c = Some x \<Longrightarrow> t = Some y \<Longrightarrow> r = Some z \<Longrightarrow> sub x y z \<Longrightarrow> sub' x y z"
  shows "overlaid sub' c t r"
  using assms by (cases c; cases t; cases r) auto

lemma size_elem_by: "elem_by key xs k = Some x \<Longrightarrow> size x < size (JArr xs)"
  by (auto simp: elem_by_def dest!: index_by_mem size_json_item)

function achieves :: "schema_lookup \<Rightarrow> json \<Rightarrow> json \<Rightarrow> json \<Rightarrow> string \<Rightarrow> bool" where
  "achieves schema c t r path =
     (case (c, t) of
        (JObj cm, JObj tm) \<Rightarrow>
          (case r of
             JObj rm \<Rightarrow>
               distinct_keys rm \<and>
               list_all (\<lambda>k. overlaid (\<lambda>cv tv rv. achieves schema cv tv rv (child_path path k))
                              (map_of cm k) (map_of tm k) (map_of rm k))
                 (map fst cm @ map fst tm @ map fst rm)
           | _ \<Rightarrow> False)
      | (JArr ca, JArr ta) \<Rightarrow>
          (case r of
             JArr ra \<Rightarrow>
               (case sl_merge_keys schema path of
                  Some ks \<Rightarrow>
                    let key = get_composite_key_value ks in
                    keyed key ra \<and>
                    list_all (\<lambda>k. overlaid (\<lambda>ci ti ri. achieves schema ci ti ri (path @ ''.'' @ k))
                                   (elem_by key ca k) (elem_by key ta k) (elem_by key ra k))
                      (filter_map key ca @ filter_map key ta @ filter_map key ra)
                | None \<Rightarrow>
                    ra = (if (if is_primitive_array ca \<and> is_primitive_array ta
                              then list_all (\<lambda>v. json_mem v ca) ta
                              else json_list_eq ca ta)
                          then ca else ta))
           | _ \<Rightarrow> False)
      | _ \<Rightarrow> r = t)"
  by pat_completeness auto
termination
  by (relation "measure (\<lambda>(_, _, t, _, _). size t)") (auto dest!: size_map_of size_elem_by)

declare achieves.simps [simp del]

lemma achieves_obj:
  "achieves schema (JObj cm) (JObj tm) (JObj rm) path \<longleftrightarrow>
     distinct_keys rm \<and>
     (\<forall>k. overlaid (\<lambda>cv tv rv. achieves schema cv tv rv (child_path path k))
            (map_of cm k) (map_of tm k) (map_of rm k))"
proof -
  have "overlaid (\<lambda>cv tv rv. achieves schema cv tv rv (child_path path k))
            (map_of cm k) (map_of tm k) (map_of rm k)"
    if "k \<notin> fst ` set cm \<union> fst ` set tm \<union> fst ` set rm" for k
    using that by (simp add: map_of_eq_None_iff [THEN iffD2])
  then show ?thesis
    by (subst achieves.simps) (fastforce simp: list_all_iff)
qed

lemma achieves_keyed:
  assumes "sl_merge_keys schema path = Some ks"
  shows "achieves schema (JArr ca) (JArr ta) (JArr ra) path \<longleftrightarrow>
     keyed (get_composite_key_value ks) ra \<and>
     (\<forall>k. overlaid (\<lambda>ci ti ri. achieves schema ci ti ri (path @ ''.'' @ k))
            (elem_by (get_composite_key_value ks) ca k) (elem_by (get_composite_key_value ks) ta k)
            (elem_by (get_composite_key_value ks) ra k))"
proof -
  let ?key = "get_composite_key_value ks"
  have "overlaid (\<lambda>ci ti ri. achieves schema ci ti ri (path @ ''.'' @ k))
            (elem_by ?key ca k) (elem_by ?key ta k) (elem_by ?key ra k)"
    if "k \<notin> keys_of ?key ca \<union> keys_of ?key ta \<union> keys_of ?key ra" for k
    using that unfolding Un_iff de_Morgan_disj elem_by_None_iff [symmetric] by simp
  then show ?thesis
    by (subst achieves.simps) (auto simp: assms list_all_iff keys_of_def Let_def simp del: mem_keys_of)
qed

lemma achieves_other:
  assumes "\<not> (is_object c \<and> is_object t)" "\<not> (is_array c \<and> is_array t)"
  shows "achieves schema c t r path \<longleftrightarrow> r = t"
  using assms by (subst achieves.simps) (cases c; cases t; simp)

section \<open>The situations the code handles\<close>

text \<open>
  A field whose value is an object with an array field of the same name is not told apart from
  an array's wrapper; an array's directives are filed under the last dot-separated part of its
  path.
\<close>

definition field_clear :: "string \<Rightarrow> json \<Rightarrow> json \<Rightarrow> bool" where
  "field_clear k c t =
     (case (c, t) of
        (JArr _, JArr _) \<Rightarrow> CHR ''.'' \<notin> set k
      | (JObj cm, JObj tm) \<Rightarrow>
          (case (map_of cm k, map_of tm k) of (Some (JArr _), Some (JArr _)) \<Rightarrow> False | _ \<Rightarrow> True)
      | _ \<Rightarrow> True)"

text \<open>The key fields of two elements that are merged.\<close>

definition keys_clear :: "merge_keys \<Rightarrow> json \<Rightarrow> json \<Rightarrow> bool" where
  "keys_clear ks ci ti =
     list_all (\<lambda>f. case value_get ti f of
                     None \<Rightarrow> value_get ci f = None | Some v \<Rightarrow> key_part v \<noteq> None) (mk_iter ks)"

function mergeable :: "schema_lookup \<Rightarrow> json \<Rightarrow> json \<Rightarrow> string \<Rightarrow> bool" where
  "mergeable schema c t path =
     (case (c, t) of
        (JObj cm, JObj tm) \<Rightarrow>
          list_all (\<lambda>(k, tv).
            case map_of cm k of
              None \<Rightarrow> True
            | Some cv \<Rightarrow> field_clear k cv tv \<and> mergeable schema cv tv (child_path path k)) tm
      | (JArr ca, JArr ta) \<Rightarrow>
          (case sl_merge_keys schema path of
             Some ks \<Rightarrow>
               let key = get_composite_key_value ks in
               keyed key ca \<and> keyed key ta \<and>
               list_all (\<lambda>ti.
                 case key ti of
                   None \<Rightarrow> True
                 | Some k \<Rightarrow>
                     (case elem_by key ca k of
                        None \<Rightarrow> True
                      | Some ci \<Rightarrow> keys_clear ks ci ti \<and> mergeable schema ci ti (path @ ''.'' @ k))) ta
           | None \<Rightarrow>
               ta \<noteq> [] \<or> is_primitive_array ca \<or> json_list_eq ca ta)
      | _ \<Rightarrow> json_eq c t \<or> \<not> is_empty_patch t)"
  by pat_completeness auto
termination
  by (relation "measure (\<lambda>(_, _, t, _). size t)") (auto dest!: size_json_entry size_json_item)

declare mergeable.simps [simp del]

lemma mergeable_field:
  assumes "mergeable schema (JObj cm) (JObj tm) path" "map_of tm k = Some tv" "map_of cm k = Some cv"
  shows "field_clear k cv tv \<and> mergeable schema cv tv (child_path path k)"
proof -
  have "(k, tv) \<in> set tm" by (rule map_of_SomeD [OF assms(2)])
  with assms(1,3) show ?thesis
    by (subst (asm) mergeable.simps) (auto simp: list_all_iff)
qed

lemma mergeable_keyed:
  assumes "mergeable schema (JArr ca) (JArr ta) path" "sl_merge_keys schema path = Some ks"
  shows "keyed (get_composite_key_value ks) ca" "keyed (get_composite_key_value ks) ta"
    and "elem_by (get_composite_key_value ks) ca k = Some ci \<Longrightarrow>
         elem_by (get_composite_key_value ks) ta k = Some ti \<Longrightarrow>
         keys_clear ks ci ti \<and> mergeable schema ci ti (path @ ''.'' @ k)"
proof -
  let ?key = "get_composite_key_value ks"
  have m: "keyed ?key ca \<and> keyed ?key ta \<and>
     (\<forall>ti\<in>set ta. case ?key ti of None \<Rightarrow> True | Some k \<Rightarrow>
        (case elem_by ?key ca k of None \<Rightarrow> True
         | Some ci \<Rightarrow> keys_clear ks ci ti \<and> mergeable schema ci ti (path @ ''.'' @ k)))"
    using assms by (subst (asm) mergeable.simps) (simp add: list_all_iff Let_def)
  then show kt: "keyed ?key ca" "keyed ?key ta" by blast+
  assume "elem_by ?key ca k = Some ci" "elem_by ?key ta k = Some ti"
  with m show "keys_clear ks ci ti \<and> mergeable schema ci ti (path @ ''.'' @ k)"
    by (auto simp: elem_by_iff [OF kt(2)])
qed

section \<open>One field, one object\<close>

definition field_goal :: "schema_lookup \<Rightarrow> diff_options \<Rightarrow> string \<Rightarrow> json \<Rightarrow> json \<Rightarrow> string \<Rightarrow> bool" where
  "field_goal schema opts k c t path =
     (let d = diffed schema c t path opts in
      \<exists>rv. achieves schema c t rv path \<and>
        (if is_empty_patch d then rv = c
         else \<exists>p v. contribution k d k = Some p \<and> p \<noteq> JNull \<and>
                contribution k d (delete_from_primitive_list_key k) = None \<and>
                apply_strategic_patch_with_options schema c p path server_options = Inr v \<and> v \<noteq> JNull \<and>
                order_value (sl_merge_keys schema path)
                  (Option.bind (contribution k d (set_element_order_key k)) as_array) (Some v) = Some rv))"

definition object_goal :: "schema_lookup \<Rightarrow> diff_options \<Rightarrow> json_map \<Rightarrow> json_map \<Rightarrow> string \<Rightarrow> bool" where
  "object_goal schema opts cm tm path =
     (\<forall>dm P. diffed schema (JObj cm) (JObj tm) path opts = JObj dm \<longrightarrow> distinct_keys P \<longrightarrow>
        (\<forall>x. map_of P x = map_of dm x \<or>
             (\<exists>v. map_of tm x = Some v \<and> map_of P x = Some v \<and> key_part v \<noteq> None)) \<longrightarrow>
        (\<exists>rm. apply_patch_to_map schema cm P path server_options = Inr (JObj rm) \<and>
              achieves schema (JObj cm) (JObj tm) (JObj rm) path))"

lemma apply_scalar:
  assumes "key_part v \<noteq> None"
  shows "apply_strategic_patch_with_options schema b v path server_options = Inr v"
    and "\<not> is_object v" "\<not> is_array v" "v \<noteq> JNull"
  using assms
  by (cases v; cases b; simp add: apply_strategic_patch_with_options.simps discard_nulls_if_needed_def)+

lemma object_delta:
  assumes "delta_mode opts" "distinct_keys tm"
  obtains dm where "diffed schema (JObj cm) (JObj tm) path opts = JObj dm" "distinct_keys dm"
    "\<And>x. map_of dm x = Option.bind (map_of tm (owner x)) (\<lambda>v. field_delta schema cm path opts (owner x) v x)"
  using diff_maps_delta [OF assms, of schema cm path] diff_values.simps [of schema "JObj cm" "JObj tm" path opts]
  by (auto dest!: diffed_eqI simp: diffed_def)

lemma object_step:
  assumes opts: "delta_mode opts" and t: "manifest_ok (JObj tm)" and c: "wf_json (JObj cm)"
    and fields: "\<And>k cv tv. map_of cm k = Some cv \<Longrightarrow> map_of tm k = Some tv \<Longrightarrow>
       field_goal schema opts k cv tv (child_path path k)"
  shows "object_goal schema opts cm tm path"
  unfolding object_goal_def
proof (intro allI impI)
  fix dm P
  assume dm: "diffed schema (JObj cm) (JObj tm) path opts = JObj dm" and P: "distinct_keys P"
    and look: "\<forall>x. map_of P x = map_of dm x \<or>
             (\<exists>v. map_of tm x = Some v \<and> map_of P x = Some v \<and> key_part v \<noteq> None)"
  note tm = manifest_obj [OF t]
  have cm: "distinct_keys cm" using c by simp
  have get: "map_of dm x = Option.bind (map_of tm (owner x)) (\<lambda>v. field_delta schema cm path opts (owner x) v x)" for x
    by (rule object_delta [OF opts tm(1), of schema cm path]) (use dm in auto)
  have P_dir: "map_of P x = map_of dm x" if "is_directive x" for x
    using look that tm(2) by fastforce
  have field: "\<exists>rv. achieves schema cv tv rv (child_path path k) \<and>
      (case map_of P k of
         None \<Rightarrow> rv = cv \<and> map_of P (set_element_order_key k) = None
       | Some p \<Rightarrow> p \<noteq> JNull \<and>
           (\<exists>v. apply_strategic_patch_with_options schema cv p (child_path path k) server_options = Inr v \<and>
             v \<noteq> JNull \<and> ordered schema P path k (Some v) = Some rv))"
    if kt: "map_of tm k = Some tv" and kc: "map_of cm k = Some cv" for k cv tv
  proof (cases "map_of P k = map_of dm k")
    case False
    with look kt have v: "map_of P k = Some tv" "key_part tv \<noteq> None" by auto
    have "achieves schema cv tv tv (child_path path k)"
      using apply_scalar(2,3) [OF v(2)] by (subst achieves_other) auto
    moreover have "ordered schema P path k (Some tv) = Some tv"
      using apply_scalar(3) [OF v(2)] by (cases tv) (auto simp: ordered_eq order_value_def split: option.split)
    ultimately show ?thesis using v apply_scalar(1,4) [OF v(2)] by auto
  next
    case True
    have nd: "\<not> is_directive k" by (rule tm(2) [OF kt])
    let ?d = "diffed schema cv tv (child_path path k) opts"
    have own: "map_of dm x = (if is_empty_patch ?d then None else contribution k ?d x)" if "owner x = k" for x
      using that nd kt kc by (simp add: get field_delta_def Let_def)
    note ord = own [of "set_element_order_key k", folded P_dir [of "set_element_order_key k", simplified]]
    obtain rv where rv: "achieves schema cv tv rv (child_path path k)"
      and rest: "if is_empty_patch ?d then rv = cv
         else \<exists>p v. contribution k ?d k = Some p \<and> p \<noteq> JNull \<and>
                contribution k ?d (delete_from_primitive_list_key k) = None \<and>
                apply_strategic_patch_with_options schema cv p (child_path path k) server_options = Inr v \<and>
                v \<noteq> JNull \<and>
                order_value (sl_merge_keys schema (child_path path k))
                  (Option.bind (contribution k ?d (set_element_order_key k)) as_array) (Some v) = Some rv"
      using fields [OF kc kt] unfolding field_goal_def Let_def by blast
    show ?thesis
    proof (cases "is_empty_patch ?d")
      case empty: True
      with rest rv True own [of k] nd P_dir [of "set_element_order_key k"] own [of "set_element_order_key k"]
      show ?thesis by auto
    next
      case nonempty: False
      with rest rv True own [of k] nd P_dir [of "set_element_order_key k"] own [of "set_element_order_key k"]
      show ?thesis by (auto simp: ordered_eq)
    qed
  qed
  have Pt: "\<exists>tv. map_of tm k = Some tv" if "map_of P k = Some p" "\<not> is_directive k" for k p
    using look [rule_format, of k] that get [of k] by (cases "map_of tm k") auto
  have "\<exists>r. apply_patch_to_map schema cm P path server_options = Inr r"
  proof (rule apply_map_ok)
    fix k p b
    assume a: "(k, p) \<in> set P" "\<not> is_directive k" "p \<noteq> JNull" "map_of cm k = Some b"
    then have "map_of P k = Some p" using P by (simp add: map_of_iff_distinct)
    with Pt a(2) obtain tv where "map_of tm k = Some tv" by blast
    from field [OF this a(4)] \<open>map_of P k = Some p\<close>
    show "\<exists>v. apply_strategic_patch_with_options schema b p (child_path path k) server_options = Inr v"
      by auto
  qed
  then obtain r where r: "apply_patch_to_map schema cm P path server_options = Inr r" by blast
  from apply_map_fields [OF r cm P] obtain rm where rm: "r = JObj rm" "distinct_keys rm"
    and val: "map_of rm k = ordered schema P path k (pruned P k (retained P k (patched schema cm P path k)))" for k
    by blast
  have none: "map_of P DIRECTIVE_RETAIN_KEYS = None"
    using tm(2) [of DIRECTIVE_RETAIN_KEYS]
    by (auto simp: P_dir get bind_eq_None_conv field_delta_def)
  have only: "map_of P (key_for k) = None"
    if "is_directive (key_for k)" "owner (key_for k) = k" "map_of tm k = None \<or> map_of cm k = None" for key_for k
    using that tm(2) by (cases "map_of tm k") (auto simp: P_dir get field_delta_def)
  have nodel: "map_of P (delete_from_primitive_list_key k) = None" for k
  proof (cases "map_of tm k = None \<or> map_of cm k = None")
    case False
    then obtain tv cv where kt: "map_of tm k = Some tv" and kc: "map_of cm k = Some cv" by auto
    with fields [OF kc kt] tm(2) [OF kt] show ?thesis
      by (auto simp: P_dir get field_delta_def field_goal_def Let_def split: if_splits)
  qed (simp add: only)
  have val': "map_of rm k = ordered schema P path k (patched schema cm P path k)" for k
    by (simp add: val retained_def pruned_def none nodel)
  have "overlaid (\<lambda>cv tv rv. achieves schema cv tv rv (child_path path k)) (map_of cm k) (map_of tm k) (map_of rm k)" for k
  proof (cases "map_of tm k")
    case None
    have "map_of rm k = map_of cm k"
    proof -
      have "ordered schema P path k v = v" for v
        using only [of set_element_order_key k] None by (simp add: ordered_def)
      moreover have "patched schema cm P path k = map_of cm k"
        using None Pt [of k] by (cases "map_of P k") (auto simp: patched_def)
      ultimately show ?thesis by (simp add: val')
    qed
    with None show ?thesis by (cases "map_of cm k") auto
  next
    case tv: (Some tv)
    have nd: "\<not> is_directive k" by (rule tm(2) [OF tv])
    show ?thesis
    proof (cases "map_of cm k")
      case None
      have "map_of P k = Some tv"
        using look [rule_format, of k] tv None nd get [of k] by (auto simp: field_delta_def)
      moreover have "ordered schema P path k v = v" for v
        using only [of set_element_order_key k] None by (simp add: ordered_def)
      ultimately have "map_of rm k = Some tv"
        using None nd manifest_not_null [OF tm(3) [OF tv]] manifest_discard [OF tm(3) [OF tv]]
        by (simp add: val' patched_def)
      with None tv show ?thesis by simp
    next
      case (Some cv)
      from field [OF tv Some] obtain rv where rv: "achieves schema cv tv rv (child_path path k)"
        and P_k: "case map_of P k of
         None \<Rightarrow> rv = cv \<and> map_of P (set_element_order_key k) = None
       | Some p \<Rightarrow> p \<noteq> JNull \<and>
           (\<exists>v. apply_strategic_patch_with_options schema cv p (child_path path k) server_options = Inr v \<and>
             v \<noteq> JNull \<and> ordered schema P path k (Some v) = Some rv)" by blast
      have "map_of rm k = Some rv"
      proof (cases "map_of P k")
        case None
        with P_k Some show ?thesis by (simp add: val' patched_def ordered_def)
      next
        case (Some p)
        with P_k nd \<open>map_of cm k = Some cv\<close> show ?thesis by (auto simp: val' patched_def)
      qed
      with rv Some tv show ?thesis by simp
    qed
  qed
  with rm r show "\<exists>rm. apply_patch_to_map schema cm P path server_options = Inr (JObj rm) \<and>
              achieves schema (JObj cm) (JObj tm) (JObj rm) path"
    by (auto simp: achieves_obj)
qed

section \<open>Arrays merged by key\<close>

lemma composite_cong:
  assumes "\<And>f. f \<in> set (mk_iter ks) \<Longrightarrow> Option.bind (map_of m f) key_part = Option.bind (map_of n f) key_part"
  shows "get_composite_key_value ks (JObj m) = get_composite_key_value ks (JObj n)"
proof -
  have "map (\<lambda>f. case Option.bind (map_of m f) key_part of None \<Rightarrow> [] | Some p \<Rightarrow> p) (mk_iter ks) =
        map (\<lambda>f. case Option.bind (map_of n f) key_part of None \<Rightarrow> [] | Some p \<Rightarrow> p) (mk_iter ks)"
    using assms by simp
  then show ?thesis by (simp only: get_composite_key_value_def as_object.simps Option.bind.simps)
qed

lemma composite_obj: "get_composite_key_value ks v = Some k \<Longrightarrow> \<exists>m. v = JObj m"
  by (auto simp: get_composite_key_value_def bind_eq_Some_conv)

lemma add_merge_keys_fold:
  "map_of (fold (\<lambda>key result. case map_of m key of None \<Rightarrow> result | Some v \<Rightarrow> map_insert key v result) ks r) x =
     (if x \<in> set ks \<and> map_of m x \<noteq> None then map_of m x else map_of r x)"
  by (induction ks arbitrary: r) (auto split: option.split)

lemma add_merge_keys_get:
  "map_of (add_merge_keys_to_map dm (JObj m) ks) x =
     (if x \<in> set (mk_iter ks) \<and> map_of m x \<noteq> None then map_of m x else map_of dm x)"
  by (simp add: add_merge_keys_to_map_def add_merge_keys_fold)

lemma add_merge_keys_ok:
  "distinct_keys dm \<Longrightarrow> distinct_keys (add_merge_keys_to_map dm (JObj m) ks)"
  by (auto simp: add_merge_keys_to_map_def intro!: fold_invariant [where I = distinct_keys]
      split: option.split)

lemma no_directive_not_delete: "no_directives v \<Longrightarrow> \<not> is_delete_directive v"
  by (cases v) (auto simp: is_delete_directive_def list_all_iff dest!: map_of_SomeD split: option.splits json.splits)

lemma achieves_same_key:
  assumes "achieves schema (JObj cm) (JObj tm) (JObj rm) path" "keys_clear ks (JObj cm) (JObj tm)"
  shows "get_composite_key_value ks (JObj rm) = get_composite_key_value ks (JObj tm)"
proof (rule composite_cong)
  fix f assume f: "f \<in> set (mk_iter ks)"
  have o: "overlaid (\<lambda>cv tv rv. achieves schema cv tv rv (child_path path f)) (map_of cm f) (map_of tm f) (map_of rm f)"
    using assms(1) by (simp add: achieves_obj)
  have kc: "case map_of tm f of None \<Rightarrow> map_of cm f = None | Some v \<Rightarrow> key_part v \<noteq> None"
    using assms(2) f by (auto simp: keys_clear_def list_all_iff split: option.splits)
  show "Option.bind (map_of rm f) key_part = Option.bind (map_of tm f) key_part"
  proof (cases "map_of tm f")
    case None
    with o kc show ?thesis by simp
  next
    case (Some v)
    with kc have v: "key_part v \<noteq> None" by simp
    show ?thesis
    proof (cases "map_of cm f")
      case (Some cv)
      with o \<open>map_of tm f = Some v\<close> obtain rv where rv: "map_of rm f = Some rv" "achieves schema cv v rv (child_path path f)"
        by (auto split: option.splits)
      then have "rv = v"
        using apply_scalar(2,3) [OF v] by (simp add: achieves_other)
      with rv \<open>map_of tm f = Some v\<close> show ?thesis by simp
    qed (use o Some in simp)
  qed
qed

context merge_schema
begin

lemma element_patch:
  assumes opts: "delta_mode opts" and ks: "sl_merge_keys schema path = Some ks"
    and t: "manifest_ok (JObj tm)" and clear: "keys_clear ks (JObj cm) (JObj tm)"
    and d: "diffed schema (JObj cm) (JObj tm) ipath opts = JObj dm"
    and goal: "object_goal schema opts cm tm ipath"
  shows "get_composite_key_value ks (JObj (add_merge_keys_to_map dm (JObj tm) ks)) =
         get_composite_key_value ks (JObj tm)"
    and "\<not> is_delete_directive (JObj (add_merge_keys_to_map dm (JObj tm) ks))"
    and "\<exists>rm. apply_strategic_patch_with_options schema (JObj cm)
           (JObj (add_merge_keys_to_map dm (JObj tm) ks)) ipath server_options = Inr (JObj rm) \<and>
         achieves schema (JObj cm) (JObj tm) (JObj rm) ipath"
proof -
  let ?P = "add_merge_keys_to_map dm (JObj tm) ks"
  note tm = manifest_obj [OF t]
  have dm: "distinct_keys dm"
    and get: "map_of dm x = Option.bind (map_of tm (owner x)) (\<lambda>v. field_delta schema cm ipath opts (owner x) v x)" for x
    by (rule object_delta [OF opts tm(1), of schema cm ipath]; use d in auto)+
  have plain: "\<not> is_directive f" if "f \<in> set (mk_iter ks)" for f by (rule keys_plain [OF ks that])
  show "get_composite_key_value ks (JObj ?P) = get_composite_key_value ks (JObj tm)"
    by (rule composite_cong) (auto simp: add_merge_keys_get get plain)
  have "map_of ?P DIRECTIVE_PATCH = None"
    using tm(2) [of DIRECTIVE_PATCH] plain [of DIRECTIVE_PATCH]
    by (cases "map_of tm DIRECTIVE_PATCH") (auto simp: add_merge_keys_get get)
  then show "\<not> is_delete_directive (JObj ?P)" by (simp add: is_delete_directive_def)
  have "map_of ?P x = map_of dm x \<or>
      (\<exists>v. map_of tm x = Some v \<and> map_of ?P x = Some v \<and> key_part v \<noteq> None)" for x
    using clear by (auto simp: add_merge_keys_get keys_clear_def list_all_iff split: option.splits)
  with goal d add_merge_keys_ok [OF dm]
  show "\<exists>rm. apply_strategic_patch_with_options schema (JObj cm) (JObj ?P) ipath server_options = Inr (JObj rm) \<and>
         achieves schema (JObj cm) (JObj tm) (JObj rm) ipath"
    unfolding object_goal_def by (simp add: apply_strategic_patch_with_options.simps)
qed

lemma keyed_step:
  assumes opts: "delta_mode opts" and ks: "sl_merge_keys schema path = Some ks"
    and t: "manifest_ok (JArr ta)"
    and kc: "keyed (get_composite_key_value ks) ca" and kt: "keyed (get_composite_key_value ks) ta"
    and clear: "\<And>k ci ti. elem_by (get_composite_key_value ks) ca k = Some ci \<Longrightarrow>
       elem_by (get_composite_key_value ks) ta k = Some ti \<Longrightarrow> keys_clear ks ci ti"
    and goal: "\<And>k cm tm. elem_by (get_composite_key_value ks) ca k = Some (JObj cm) \<Longrightarrow>
       elem_by (get_composite_key_value ks) ta k = Some (JObj tm) \<Longrightarrow>
       object_goal schema opts cm tm (path @ ''.'' @ k) \<and>
       (is_empty_patch (diffed schema (JObj cm) (JObj tm) (path @ ''.'' @ k) opts) \<longrightarrow>
          achieves schema (JObj cm) (JObj tm) (JObj cm) (path @ ''.'' @ k))"
  shows "let patch = filter_map (element_delta schema ca path ks opts) ta in
     \<exists>ra. apply_patch_to_array_strategic schema ca patch path ks server_options = Inr (JArr ra) \<and>
     keyed (get_composite_key_value ks) ra \<and> (patch = [] \<longrightarrow> ra = ca) \<and>
     (\<forall>ra'. mset ra' = mset ra \<longrightarrow> achieves schema (JArr ca) (JArr ta) (JArr ra') path)"
proof -
  let ?key = "get_composite_key_value ks"
  let ?delta = "element_delta schema ca path ks opts"
  let ?patch = "filter_map ?delta ta"
  let ?A = "\<lambda>y. projr (apply_strategic_patch_with_options schema (the (elem_by ?key ca (the (?key y)))) y
                   (path @ ''.'' @ the (?key y)) server_options)"
  have new: "?delta ti = Some ti" if "?key ti = Some k" "elem_by ?key ca k = None" for ti k
    using that by (simp add: element_delta_def)
  have old: "if is_empty_patch (diffed schema ci ti (path @ ''.'' @ k) opts)
      then ?delta ti = None \<and> achieves schema ci ti ci (path @ ''.'' @ k)
      else \<exists>y. ?delta ti = Some y \<and> ?key y = Some k \<and> \<not> is_delete_directive y \<and>
             apply_strategic_patch_with_options schema ci y (path @ ''.'' @ k) server_options = Inr (?A y) \<and>
             ?key (?A y) = Some k \<and> achieves schema ci ti (?A y) (path @ ''.'' @ k)"
    if ti: "elem_by ?key ta k = Some ti" and ci: "elem_by ?key ca k = Some ci" for k ti ci
  proof -
    have m: "ti \<in> set ta" "?key ti = Some k" "?key ci = Some k"
      using ti ci by (simp_all add: elem_by_iff [OF kt] elem_by_iff [OF kc])
    then obtain tm cm where obj: "ti = JObj tm" "ci = JObj cm" using composite_obj by blast
    have tok: "manifest_ok (JObj tm)" using manifest_item [OF t m(1)] obj by simp
    let ?ip = "path @ ''.'' @ k"
    obtain dm where d: "diffed schema (JObj cm) (JObj tm) ?ip opts = JObj dm"
      using object_delta [OF opts manifest_obj(1) [OF tok], of schema cm ?ip] by blast
    have g: "object_goal schema opts cm tm ?ip"
      and e: "is_empty_patch (diffed schema (JObj cm) (JObj tm) ?ip opts) \<Longrightarrow>
        achieves schema (JObj cm) (JObj tm) (JObj cm) ?ip"
      using goal ti ci obj by auto
    note el = element_patch [OF opts ks tok clear [OF ci ti, unfolded obj] d g]
    show ?thesis
    proof (cases "dm = []")
      case True
      with d e m ci obj show ?thesis by (simp add: element_delta_def)
    next
      case False
      let ?y = "JObj (add_merge_keys_to_map dm (JObj tm) ks)"
      have y: "?key ?y = Some k" using el(1) m(2) obj by simp
      obtain rm where rm: "apply_strategic_patch_with_options schema (JObj cm) ?y ?ip server_options = Inr (JObj rm)"
        "achieves schema (JObj cm) (JObj tm) (JObj rm) ?ip" using el(3) by blast
      have A: "?A ?y = JObj rm" using y ci rm(1) obj by simp
      have "?key (JObj rm) = Some k"
        using achieves_same_key [OF rm(2) clear [OF ci ti, unfolded obj]] m(2) obj by simp
      moreover have "?delta ti = Some ?y" using False d m ci obj by (simp add: element_delta_def)
      ultimately show ?thesis using False d y rm A el(2) obj by auto
    qed
  qed
  have delta_key: "?key y = ?key ti" if a: "ti \<in> set ta" "?delta ti = Some y" for ti y
  proof -
    obtain k where k: "?key ti = Some k" using kt a(1) by (auto simp: keyed_def list_all_iff)
    then have ti: "elem_by ?key ta k = Some ti" using a(1) by (simp add: elem_by_iff [OF kt])
    show ?thesis
    proof (cases "elem_by ?key ca k")
      case None
      with new [OF k] a show ?thesis by simp
    next
      case (Some ci)
      with old [OF ti Some] a k show ?thesis by (auto split: if_splits)
    qed
  qed
  have kp: "keyed ?key ?patch" and elem_patch: "elem_by ?key ?patch k = Option.bind (elem_by ?key ta k) ?delta" for k
    using keyed_filter_map_key [OF kt, of ?delta] delta_key by blast+
  have patch_elem: "\<exists>k ti. ?key p = Some k \<and> elem_by ?key ta k = Some ti \<and> ?delta ti = Some p" if p: "p \<in> set ?patch" for p
    using p delta_key kt unfolding set_filter_map by (force simp: elem_by_iff [OF kt] keyed_def list_all_iff)
  have nodel: "\<not> is_delete_directive p" if p: "p \<in> set ?patch" for p
  proof -
    obtain k ti where k: "?key p = Some k" "elem_by ?key ta k = Some ti" "?delta ti = Some p"
      using patch_elem [OF p] by blast
    then have ti: "ti \<in> set ta" "?key ti = Some k" by (simp_all add: elem_by_iff [OF kt])
    show ?thesis
    proof (cases "elem_by ?key ca k")
      case None
      with new [OF ti(2)] k have "p = ti" by simp
      with manifest_item [OF t ti(1)] show ?thesis by (simp add: manifest_ok_def no_directive_not_delete)
    next
      case (Some ci)
      with old [OF k(2) Some] k(3) show ?thesis by (auto split: if_splits)
    qed
  qed
  have app: "apply_strategic_patch_with_options schema b p (path @ ''.'' @ k) server_options = Inr (?A p) \<and>
      ?key (?A p) = Some k"
    if a: "p \<in> set ?patch" "b \<in> set ca" "?key p = Some k" "?key b = Some k" for p b k
  proof -
    have b: "elem_by ?key ca k = Some b" using a by (simp add: elem_by_iff [OF kc])
    obtain ti where ti: "elem_by ?key ta k = Some ti" "?delta ti = Some p"
      using patch_elem [OF a(1)] a(3) by auto
    from old [OF ti(1) b] ti(2) show ?thesis by (auto split: if_splits)
  qed
  let ?ra = "merged_array ?key ?A ca ?patch"
  have run: "apply_patch_to_array_strategic schema ca ?patch path ks server_options = Inr (JArr ?ra)"
    by (rule apply_array_merged [OF kc kp nodel conjunct1 [OF app] refl])
  have merged: "keyed ?key ?ra \<and> elem_by ?key ?ra k =
      (case (elem_by ?key ca k, elem_by ?key ?patch k) of
         (Some b, None) \<Rightarrow> Some b | (Some b, Some p) \<Rightarrow> Some (?A p) | (None, p) \<Rightarrow> p)" for k
  proof (rule elem_by_merged [OF kc kp])
    fix p b assume a: "p \<in> set ?patch" "b \<in> set ca" "?key p = ?key b"
    obtain k where "?key b = Some k" using kc a(2) by (auto simp: keyed_def list_all_iff)
    with app [OF a(1,2)] a(3) show "?key (?A p) = ?key p" by simp
  next
    fix p assume a: "p \<in> set ?patch" "?key p \<notin> ?key ` set ca"
    obtain k ti where k: "?key p = Some k" "elem_by ?key ta k = Some ti" "?delta ti = Some p"
      using patch_elem [OF a(1)] by blast
    then have "Some k \<notin> ?key ` set ca" using a(2) by simp
    then have "elem_by ?key ca k = None" unfolding elem_by_None_iff by (auto simp: image_iff)
    with new [of ti k] k have "p = ti" by (simp add: elem_by_iff [OF kt])
    moreover have "ti \<in> set ta" using k(2) by (simp add: elem_by_iff [OF kt])
    ultimately show "discard_null_values p = p" using manifest_discard [OF manifest_item [OF t]] by simp
  qed
  have "overlaid (\<lambda>ci ti ri. achieves schema ci ti ri (path @ ''.'' @ k))
      (elem_by ?key ca k) (elem_by ?key ta k) (elem_by ?key ?ra k)" for k
  proof (cases "elem_by ?key ta k")
    case None
    with merged [of k] elem_patch [of k] show ?thesis by (cases "elem_by ?key ca k") simp_all
  next
    case ti: (Some ti)
    then have kti: "?key ti = Some k" by (simp add: elem_by_iff [OF kt])
    show ?thesis
    proof (cases "elem_by ?key ca k")
      case None
      with merged [of k] elem_patch [of k] ti new [OF kti None] show ?thesis by simp
    next
      case (Some ci)
      show ?thesis
      proof (cases "?delta ti")
        case None
        then have "achieves schema ci ti ci (path @ ''.'' @ k)"
          using old [OF ti Some] by (auto split: if_splits)
        with merged [of k] elem_patch [of k] ti Some None show ?thesis by simp
      next
        case (Some y)
        then have "achieves schema ci ti (?A y) (path @ ''.'' @ k)"
          using old [OF ti \<open>elem_by ?key ca k = Some ci\<close>] by (auto split: if_splits)
        with merged [of k] elem_patch [of k] ti Some \<open>elem_by ?key ca k = Some ci\<close> show ?thesis by simp
      qed
    qed
  qed
  then have "achieves schema (JArr ca) (JArr ta) (JArr ra') path" if "mset ra' = mset ?ra" for ra'
    using merged that elem_by_mset [of ra' ?ra ?key] keyed_mset [OF that, of ?key]
    by (simp add: achieves_keyed [OF ks])
  moreover have "?patch = [] \<longrightarrow> ?ra = ca"
    by (simp add: merged_array_def elem_by_def index_by_def)
  ultimately show ?thesis using run merged unfolding Let_def by blast
qed

lemma not_wrapper:
  assumes "delta_mode opts" "manifest_ok t" "mergeable schema c t path" "field_clear k c t"
    and "\<not> (is_array c \<and> is_array t)" "\<not> is_directive k"
  shows "\<not> is_wrapper k (diffed schema c t path opts)"
  using assms(2-5)
proof (induction t arbitrary: c path rule: measure_induct_rule [of size])
  case (less t)
  show ?case
  proof (cases "is_object c \<and> is_object t")
    case True
    then obtain cm tm where obj: "c = JObj cm" "t = JObj tm" by (auto simp: is_object_iff)
    note tm = manifest_obj [OF less.prems(1) [unfolded obj]]
    obtain dm where d: "diffed schema (JObj cm) (JObj tm) path opts = JObj dm"
      and get: "\<And>x. map_of dm x = Option.bind (map_of tm (owner x))
                 (\<lambda>v. field_delta schema cm path opts (owner x) v x)"
      using object_delta [OF assms(1) tm(1), of schema cm path] by blast
    have none: "field_delta schema cm path opts k v x = None"
      if v: "map_of tm k = Some v" and x: "x = set_element_order_key k \<or> x = delete_from_primitive_list_key k" for v x
    proof (cases "map_of cm k")
      case None
      with x assms(6) show ?thesis by (auto simp: field_delta_def)
    next
      case (Some cv)
      have "\<not> (is_array cv \<and> is_array v)"
        using less.prems(3) v Some obj by (cases cv; cases v) (auto simp: field_clear_def)
      moreover have "field_clear k cv v \<and> mergeable schema cv v (child_path path k)"
        using less.prems(2) v Some unfolding obj by (intro mergeable_field)
      moreover have "size v < size t" using size_map_of [OF v] obj by simp
      ultimately have "\<not> is_wrapper k (diffed schema cv v (child_path path k) opts)"
        using less.IH tm(3) [OF v] by blast
      with x Some assms(6) show ?thesis by (auto simp: field_delta_def Let_def contribution_def)
    qed
    have "map_of dm (set_element_order_key k) = None" "map_of dm (delete_from_primitive_list_key k) = None"
      by (cases "map_of tm k"; use none in \<open>auto simp: get\<close>)+
    then show ?thesis by (simp add: obj d is_wrapper_def contains_key_def)
  next
    case False
    with less.prems(4) have "diffed schema c t path opts = JObj [] \<or> diffed schema c t path opts = t"
      by (cases c; cases t) (auto simp: diffed_def diff_values.simps)
    moreover have "\<not> is_wrapper k t"
    proof (cases t)
      case (JObj m)
      have "map_of m (set_element_order_key k) = None" "map_of m (delete_from_primitive_list_key k) = None"
        using manifest_obj(2) [OF less.prems(1) [unfolded JObj]] directive_keys_directive(1,2)
        by (metis option.exhaust)+
      then show ?thesis by (simp add: JObj is_wrapper_def contains_key_def)
    qed (simp_all add: is_wrapper_def)
    ultimately show ?thesis by (auto simp: is_wrapper_def contains_key_def)
  qed
qed

text \<open>A value that is not an array's wrapper is patched under its own key.\<close>

lemma field_goalI:
  assumes "\<not> is_wrapper k (diffed schema c t path opts)" "\<not> is_directive k"
    and "\<not> is_empty_patch (diffed schema c t path opts)" "diffed schema c t path opts \<noteq> JNull"
    and "apply_strategic_patch_with_options schema c (diffed schema c t path opts) path server_options = Inr v"
    and "v \<noteq> JNull" "achieves schema c t v path"
  shows "field_goal schema opts k c t path"
  using assms by (auto simp: field_goal_def contribution_def order_value_def Let_def)

lemma array_none_step:
  assumes opts: "delta_mode opts" and ks: "sl_merge_keys schema path = None"
    and t: "manifest_ok (JArr ta)" and m: "mergeable schema (JArr ca) (JArr ta) path"
    and k: "\<not> is_directive k"
  shows "(is_empty_patch (diffed schema (JArr ca) (JArr ta) path opts) \<longrightarrow>
            achieves schema (JArr ca) (JArr ta) (JArr ca) path) \<and>
         field_goal schema opts k (JArr ca) (JArr ta) path"
proof -
  have o: "ignore_deletions opts" "\<not> ignore_changes_and_additions opts"
    using opts by (simp_all add: delta_mode_def)
  let ?d = "diffed schema (JArr ca) (JArr ta) path opts"
  let ?prim = "is_primitive_array ca \<and> is_primitive_array ta"
  have mem: "list_all (\<lambda>v. json_mem v ca) ta" if "json_list_eq ca ta"
    unfolding list_all_length json_mem_iff
  proof (intro allI impI)
    fix n assume "n < length ta"
    with that have "ca ! n \<in> set ca" "json_eq (ca ! n) (ta ! n)"
      by (simp_all add: json_list_eq_def list_all2_conv_all_nth)
    then show "\<exists>y\<in>set ca. json_eq y (ta ! n)" by blast
  qed
  have eq: "json_list_eq ta ta"
    using json_eq_refl [of "JArr ta"] t by (simp add: manifest_ok_def json_list_eq_def)
  have ach: "achieves schema (JArr ca) (JArr ta) (JArr ra) path \<longleftrightarrow>
      ra = (if (if ?prim then list_all (\<lambda>v. json_mem v ca) ta else json_list_eq ca ta) then ca else ta)" for ra
    by (subst achieves.simps) (simp add: ks)
  have cases: "(?d = JObj [] \<and> achieves schema (JArr ca) (JArr ta) (JArr ca) path) \<or>
      (?d = JArr ta \<and> ta \<noteq> [] \<and> achieves schema (JArr ca) (JArr ta) (JArr ta) path)"
  proof (cases ?prim)
    case True
    then show ?thesis
      using o mem
      by (auto simp: diffed_def diff_values.simps diff_arrays.simps ks diff_arrays_primitive_def Let_def
          ach list_all_iff list_ex_iff eq split: if_splits)
  next
    case False
    have "ta \<noteq> [] \<or> json_list_eq ca ta"
      using m False by (subst (asm) mergeable.simps) (auto simp: ks is_primitive_array_def)
    with False show ?thesis
      using o by (auto simp: diffed_def diff_values.simps diff_arrays.simps ks ach eq split: if_splits)
  qed
  then show ?thesis
  proof
    assume "?d = JObj [] \<and> achieves schema (JArr ca) (JArr ta) (JArr ca) path"
    then show ?thesis by (auto simp: field_goal_def)
  next
    assume d: "?d = JArr ta \<and> ta \<noteq> [] \<and> achieves schema (JArr ca) (JArr ta) (JArr ta) path"
    have "field_goal schema opts k (JArr ca) (JArr ta) path"
      by (rule field_goalI [where v = "JArr ta"])
        (use d k manifest_discard [OF t] in
          \<open>auto simp: is_wrapper_def apply_strategic_patch_with_options.simps ks discard_nulls_if_needed_def\<close>)
    with d show ?thesis by auto
  qed
qed

lemma delta_achieves:
  assumes "delta_mode opts" "manifest_ok t" "wf_json c" "mergeable schema c t path"
  shows "(is_empty_patch (diffed schema c t path opts) \<longrightarrow> achieves schema c t c path) \<and>
    (\<forall>cm tm. c = JObj cm \<longrightarrow> t = JObj tm \<longrightarrow> object_goal schema opts cm tm path) \<and>
    (\<forall>k pp. path = child_path pp k \<longrightarrow> field_clear k c t \<longrightarrow> \<not> is_directive k \<longrightarrow>
       field_goal schema opts k c t path)"
  using assms(2-4)
proof (induction t arbitrary: c path rule: measure_induct_rule [of size])
  case (less t)
  consider (obj) cm tm where "c = JObj cm" "t = JObj tm"
    | (arr) ca ta where "c = JArr ca" "t = JArr ta"
    | (other) "\<not> (is_object c \<and> is_object t)" "\<not> (is_array c \<and> is_array t)"
    by (cases c; cases t) auto
  then show ?case
  proof cases
    case obj
    note tm = manifest_obj [OF less.prems(1) [unfolded obj]]
    have cm: "distinct_keys cm" using less.prems(2) obj by simp
    have goal: "object_goal schema opts cm tm path"
    proof (rule object_step [OF assms(1)])
      fix k cv tv assume k: "map_of cm k = Some cv" "map_of tm k = Some tv"
      have "size tv < size t" using size_map_of [OF k(2)] obj by simp
      moreover have "field_clear k cv tv \<and> mergeable schema cv tv (child_path path k)"
        using less.prems(3) k unfolding obj by (intro mergeable_field)
      ultimately show "field_goal schema opts k cv tv (child_path path k)"
        using less.IH tm(2,3) [OF k(2)] wf_json_map_of [OF less.prems(2) [unfolded obj] k(1)] by blast
    qed (use less.prems obj in simp_all)
    obtain dm where d: "diffed schema (JObj cm) (JObj tm) path opts = JObj dm" "distinct_keys dm"
      using object_delta [OF assms(1) tm(1), of schema cm path] by blast
    then obtain rm where rm: "apply_patch_to_map schema cm dm path server_options = Inr (JObj rm)"
      "achieves schema (JObj cm) (JObj tm) (JObj rm) path"
      using goal unfolding object_goal_def by blast
    have "achieves schema (JObj cm) (JObj tm) (JObj cm) path" if "dm = []"
      using rm that by (simp add: apply_map_split apply_retain_def)
    moreover have "field_goal schema opts k c t path"
      if k: "path = child_path pp k" "field_clear k c t" "\<not> is_directive k" for k pp
    proof (cases "dm = []")
      case True
      with rm d show ?thesis by (auto simp: obj field_goal_def apply_map_split apply_retain_def)
    next
      case False
      show ?thesis
        by (rule field_goalI [OF not_wrapper [OF assms(1) less.prems(1,3) k(2) _ k(3)] k(3), where v = "JObj rm"])
          (use False d rm in \<open>auto simp: obj apply_strategic_patch_with_options.simps\<close>)
    qed
    ultimately show ?thesis using goal d by (auto simp: obj)
  next
    case arr
    show ?thesis
    proof (cases "sl_merge_keys schema path")
      case None
      have step: "\<not> is_directive k \<Longrightarrow>
          (is_empty_patch (diffed schema (JArr ca) (JArr ta) path opts) \<longrightarrow>
             achieves schema (JArr ca) (JArr ta) (JArr ca) path) \<and>
          field_goal schema opts k (JArr ca) (JArr ta) path" for k
        using less.prems by (intro array_none_step [OF assms(1) None]) (simp_all add: arr)
      from step [of "''a''"] step show ?thesis by (auto simp: arr is_directive_def)
    next
      case (Some ks)
      note mk = mergeable_keyed [OF less.prems(3) [unfolded arr] Some]
      let ?key = "get_composite_key_value ks"
      let ?patch = "filter_map (element_delta schema ca path ks opts) ta"
      have items: "keys_clear ks ci ti \<and> size ti < size t \<and> manifest_ok ti \<and> wf_json ci \<and>
          mergeable schema ci ti (path @ ''.'' @ k)"
        if "elem_by ?key ca k = Some ci" "elem_by ?key ta k = Some ti" for k ci ti
        using mk(3) [OF that] size_elem_by [OF that(2)] that less.prems(1,2)
          manifest_item [of ta ti] wf_json_item [of ca ci]
        by (auto simp: arr elem_by_iff [OF mk(1)] elem_by_iff [OF mk(2)])
      have goal: "object_goal schema opts cm tm (path @ ''.'' @ k) \<and>
          (is_empty_patch (diffed schema (JObj cm) (JObj tm) (path @ ''.'' @ k) opts) \<longrightarrow>
             achieves schema (JObj cm) (JObj tm) (JObj cm) (path @ ''.'' @ k))"
        if "elem_by ?key ca k = Some (JObj cm)" "elem_by ?key ta k = Some (JObj tm)" for k cm tm
        using items [OF that] less.IH [of "JObj tm" "JObj cm" "path @ ''.'' @ k"] by blast
      obtain ra where run: "apply_patch_to_array_strategic schema ca ?patch path ks server_options = Inr (JArr ra)"
        and kra: "keyed ?key ra" and same: "?patch = [] \<longrightarrow> ra = ca"
        and ach: "\<And>ra'. mset ra' = mset ra \<Longrightarrow> achieves schema (JArr ca) (JArr ta) (JArr ra') path"
        using keyed_step [OF assms(1) Some _ mk(1,2) _ goal] items less.prems(1)
        unfolding Let_def by (auto simp: arr)
      obtain order where "diff_arrays_strategic schema ca ta path ks opts =
          Inr (strategic_wrap path opts ?patch order)"
        using diff_arrays_delta [OF assms(1)] by blast
      then have d: "diffed schema (JArr ca) (JArr ta) path opts = strategic_wrap path opts ?patch order"
        by (simp add: diffed_def diff_values.simps diff_arrays.simps Some)
      have empty: "is_empty_patch (strategic_wrap path opts ?patch order) \<longleftrightarrow> ?patch = []"
        by (auto simp: strategic_wrap_def Let_def)
      have app: "apply_strategic_patch_with_options schema (JArr ca) (JArr ?patch) path server_options = Inr (JArr ra)"
        using run Some by (simp add: apply_strategic_patch_with_options.simps)
      have "field_goal schema opts k (JArr ca) (JArr ta) path"
        if k: "path = child_path pp k" "field_clear k c t" "\<not> is_directive k" for k pp
      proof (cases "?patch = []")
        case True
        with ach same show ?thesis by (simp add: field_goal_def d strategic_wrap_def)
      next
        case nonempty: False
        have r: "rsplit_next CHR ''.'' path = k"
          using k(1,2) by (simp add: arr field_clear_def)
        show ?thesis
        proof (cases "build_element_order opts \<and> order \<noteq> []")
          case True
          let ?rv = "JArr (reordered ra order ks)"
          have w: "diffed schema (JArr ca) (JArr ta) path opts =
              JObj [(k, JArr ?patch), (set_element_order_key k, JArr order)]"
            using True nonempty k(3) by (simp add: d strategic_wrap_def r Let_def)
          have "achieves schema (JArr ca) (JArr ta) ?rv path"
            by (rule ach [OF mset_reordered [OF kra]])
          with w app Some nonempty k(3) reorder_eq [OF kra, of order] show ?thesis
            by (auto simp: field_goal_def contribution_def is_wrapper_def contains_key_def order_value_def
                intro!: exI [of _ ?rv])
        next
          case False
          then have w: "diffed schema (JArr ca) (JArr ta) path opts = JArr ?patch"
            using nonempty by (auto simp: d strategic_wrap_def)
          show ?thesis
            by (rule field_goalI [where v = "JArr ra"])
              (use w nonempty k(3) app ach in \<open>auto simp: is_wrapper_def\<close>)
        qed
      qed
      with ach same show ?thesis unfolding arr d empty by auto
    qed
  next
    case other
    have e: "diffed schema c t path opts = (if json_eq c t then JObj [] else t)"
      using other assms(1) by (cases c; cases t) (auto simp: diffed_def diff_values.simps delta_mode_def)
    have m: "json_eq c t \<or> \<not> is_empty_patch t"
      using less.prems(3) other by (subst (asm) mergeable.simps) (cases c; cases t; auto)
    have scalar: "json_eq c t \<Longrightarrow> c = t" using other by (cases c; cases t) auto
    have a: "apply_strategic_patch_with_options schema c t path server_options = Inr t"
      using other manifest_discard [OF less.prems(1)] manifest_not_null [OF less.prems(1)]
      by (cases c; cases t) (auto simp: apply_strategic_patch_with_options.simps discard_nulls_if_needed_def)
    have "field_goal schema opts k c t path" if "field_clear k c t" "\<not> is_directive k" for k
    proof (cases "json_eq c t")
      case True
      with other scalar show ?thesis unfolding field_goal_def e by (auto simp: achieves_other)
    next
      case False
      show ?thesis
        by (rule field_goalI [OF not_wrapper [OF assms(1) less.prems(1,3) that(1) other(2) that(2)] that(2),
              where v = t])
          (use False m e a manifest_not_null [OF less.prems(1)] other in \<open>auto simp: achieves_other\<close>)
    qed
    then show ?thesis using other m e scalar by (auto simp: achieves_other is_object_iff)
  qed
qed

end

end
