(* ===== verification/Patch_Properties.thy ===== *)
theory Patch_Properties
  imports Delta_Contract
begin

text \<open>
  The properties of the strategic merge patch: the contract of the client-side patch, its
  convergence, the errors of the three-way algorithm, and the meaning of applying a patch.
\<close>

section \<open>Applying a manifest twice\<close>

lemma overlaid_Some:
  assumes "overlaid (\<lambda>c t r. achieves schema c t r path) c (Some t) r"
  shows "\<exists>v c'. r = Some v \<and> achieves schema c' t v path"
  using assms
  by (cases c; cases r) (auto simp: achieves_other [of JNull] intro: exI [of _ JNull])

lemma achieved_obj:
  assumes "achieves schema c (JObj tm) r path"
  shows "\<exists>rm. r = JObj rm \<and>
    (\<forall>k tv. map_of tm k = Some tv \<longrightarrow>
       (\<exists>rv c'. map_of rm k = Some rv \<and> achieves schema c' tv rv (child_path path k)))"
proof (cases c)
  case (JObj cm)
  with assms obtain rm where r: "r = JObj rm"
    by (subst (asm) achieves.simps) (auto split: json.splits)
  have "overlaid (\<lambda>c t r. achieves schema c t r (child_path path k)) (map_of cm k) (map_of tm k) (map_of rm k)" for k
    using assms by (simp add: JObj r achieves_obj)
  with r show ?thesis by (metis overlaid_Some)
next
  case JNull
  with assms have "r = JObj tm" by (simp add: achieves_other)
  then show ?thesis by (auto intro: exI [of _ JNull] simp: achieves_other [of JNull])
qed (use assms in \<open>auto simp: achieves_other intro!: exI [of _ JNull]\<close>)

lemma achieved_array:
  assumes "achieves schema c (JArr ta) r path"
  shows "\<exists>ra. r = JArr ra"
  using assms by (cases c) (auto simp: achieves_other achieves.simps [of schema "JArr xs" for xs] split: json.splits)

lemma achieved_keyed:
  assumes "achieves schema c (JArr ta) (JArr ra) path" "sl_merge_keys schema path = Some ks"
    and "keyed (get_composite_key_value ks) ta"
  shows "keyed (get_composite_key_value ks) ra \<and>
    (\<forall>k ti. elem_by (get_composite_key_value ks) ta k = Some ti \<longrightarrow>
       (\<exists>ri c'. elem_by (get_composite_key_value ks) ra k = Some ri \<and>
                achieves schema c' ti ri (path @ ''.'' @ k)))"
proof (cases "is_array c")
  case True
  then obtain ca where c: "c = JArr ca" by (cases c) auto
  show ?thesis
    using assms(1) overlaid_Some unfolding c achieves_keyed [OF assms(2)] by metis
next
  case False
  then have "ra = ta" using assms(1) by (simp add: achieves_other)
  with assms(3) show ?thesis by (auto simp: achieves_other [of JNull] intro: exI [of _ JNull])
qed

context merge_schema
begin

lemma achieved_no_delta:
  assumes "delta_mode opts" "achieves schema c t r path" "manifest_ok t" "mergeable schema t t path"
  shows "is_empty_patch (diffed schema r t path opts)"
  using assms(2-4)
proof (induction t arbitrary: c r path rule: measure_induct_rule [of size])
  case (less t)
  have o: "ignore_deletions opts" "\<not> ignore_changes_and_additions opts"
    using assms(1) by (simp_all add: delta_mode_def)
  consider (obj) tm where "t = JObj tm" | (arr) ta where "t = JArr ta" | (other) "\<not> is_object t" "\<not> is_array t"
    by (cases t) auto
  then show ?case
  proof cases
    case obj
    note tm = manifest_obj [OF less.prems(2) [unfolded obj]]
    obtain rm where r: "r = JObj rm"
      and rv: "\<And>k tv. map_of tm k = Some tv \<Longrightarrow>
         \<exists>rv c'. map_of rm k = Some rv \<and> achieves schema c' tv rv (child_path path k)"
      using achieved_obj [OF less.prems(1) [unfolded obj]] by blast
    obtain dm where d: "diffed schema (JObj rm) (JObj tm) path opts = JObj dm"
      and get: "\<And>x. map_of dm x = Option.bind (map_of tm (owner x))
                 (\<lambda>v. field_delta schema rm path opts (owner x) v x)"
      using object_delta [OF assms(1) tm(1), of schema rm path] by blast
    have "field_delta schema rm path opts k tv x = None" if k: "map_of tm k = Some tv" for k tv x
    proof -
      obtain v c' where v: "map_of rm k = Some v" "achieves schema c' tv v (child_path path k)"
        using rv [OF k] by blast
      have "size tv < size t" using size_map_of [OF k] obj by simp
      moreover have "mergeable schema tv tv (child_path path k)"
        using mergeable_field [OF less.prems(3) [unfolded obj] k k] by blast
      ultimately have "is_empty_patch (diffed schema v tv (child_path path k) opts)"
        using less.IH v(2) tm(3) [OF k] by blast
      with v(1) show ?thesis by (simp add: field_delta_def)
    qed
    then have "map_of dm x = None" for x by (cases "map_of tm (owner x)") (simp_all add: get)
    then have "dm = []" by (metis list.exhaust map_of_eq_None_iff neq_Nil_conv image_eqI list.set_intros(1))
    then show ?thesis by (simp add: obj r d)
  next
    case arr
    obtain ra where r: "r = JArr ra" using achieved_array [OF less.prems(1) [unfolded arr]] by blast
    show ?thesis
    proof (cases "sl_merge_keys schema path")
      case None
      have refl: "json_list_eq ta ta"
        using json_eq_refl [of "JArr ta"] less.prems(2) by (simp add: arr manifest_ok_def json_list_eq_def)
      have "json_list_eq ra ta \<or>
          (is_primitive_array ra \<and> is_primitive_array ta \<and> list_all (\<lambda>v. json_mem v ra) ta)"
      proof (cases "is_array c")
        case True
        then obtain ca where "c = JArr ca" by (cases c) auto
        with less.prems(1) refl show ?thesis
          by (auto simp: arr r achieves.simps [of schema "JArr ca"] None split: if_splits)
      next
        case False
        then have "ra = ta" using less.prems(1) by (simp add: arr r achieves_other)
        with refl show ?thesis by simp
      qed
      then show ?thesis
        using o by (auto simp: arr r diffed_def diff_values.simps diff_arrays.simps None
            diff_arrays_primitive_def Let_def list_all_iff list_ex_iff)
    next
      case (Some ks)
      let ?key = "get_composite_key_value ks"
      note mk = mergeable_keyed [OF less.prems(3) [unfolded arr] Some]
      note ak = achieved_keyed [OF less.prems(1) [unfolded arr r] Some mk(1)]
      have "element_delta schema ra path ks opts ti = None" if ti: "ti \<in> set ta" for ti
      proof -
        obtain k where k: "?key ti = Some k" using mk(1) ti by (auto simp: keyed_def list_all_iff)
        then have el: "elem_by ?key ta k = Some ti" using ti by (simp add: elem_by_iff [OF mk(1)])
        obtain ri c' where ri: "elem_by ?key ra k = Some ri" "achieves schema c' ti ri (path @ ''.'' @ k)"
          using ak el by blast
        have "size ti < size t" "manifest_ok ti"
          using size_elem_by [OF el] manifest_item [OF less.prems(2) [unfolded arr] ti] by (simp_all add: arr)
        moreover have "mergeable schema ti ti (path @ ''.'' @ k)" using mk(3) [OF el el] by blast
        ultimately have "is_empty_patch (diffed schema ri ti (path @ ''.'' @ k) opts)"
          using less.IH ri(2) by blast
        with k ri(1) show ?thesis by (simp add: element_delta_def)
      qed
      then have "filter_map (element_delta schema ra path ks opts) ta = []"
        by (induction ta) auto
      then show ?thesis
        using diff_arrays_delta [OF assms(1), of schema ra ta path ks]
        by (auto simp: arr r diffed_def diff_values.simps diff_arrays.simps Some strategic_wrap_def)
    qed
  next
    case other
    then have "r = t" using less.prems(1) by (simp add: achieves_other)
    then show ?thesis using other json_eq_refl [of t] less.prems(2)
      by (cases t) (auto simp: diffed_def diff_values.simps manifest_ok_def)
  qed
qed

end

section \<open>The client-side patch\<close>

text \<open>A live deployment with a server-side default and a sidecar, and a manifest for it.\<close>

definition live_example :: json where
  "live_example = JObj
    [(''kind'', JStr ''Deployment''),
     (''spec'', JObj
       [(''replicas'', JNum (PosInt 1)),
        (''template'', JObj [(''spec'', JObj
          [(''containers'', JArr
             [JObj [(''name'', JStr ''app''), (''image'', JStr ''a:1''), (''tty'', JBool False)],
              JObj [(''name'', JStr ''sidecar''), (''image'', JStr ''s'')]])])])])]"

definition manifest_example :: json where
  "manifest_example = JObj
    [(''kind'', JStr ''Deployment''),
     (''spec'', JObj
       [(''replicas'', JNum (PosInt 3)),
        (''template'', JObj [(''spec'', JObj
          [(''containers'', JArr
             [JObj [(''name'', JStr ''new''), (''image'', JStr ''n'')],
              JObj [(''name'', JStr ''app''), (''image'', JStr ''a:2'')]])])])])]"

abbreviation deployment_schema :: schema_lookup where
  "deployment_schema \<equiv> combined_schema (combined_new ''apps/v1'' ''Deployment'')"

abbreviation no_format :: value_format where
  "no_format \<equiv> \<lparr>debug_str = (\<lambda>s. s), json_text = (\<lambda>_. [])\<rparr>"

lemma example_ok:
  "manifest_ok manifest_example"
  "wf_json live_example"
  "mergeable deployment_schema live_example manifest_example []"
  "mergeable deployment_schema manifest_example manifest_example []"
  by code_simp+

lemma example_objects: "is_object live_example" "is_object manifest_example"
  by (simp_all add: live_example_def manifest_example_def)

lemma no_openapi_ok: "openapi_keys_ok (combined_new api_version kind)"
  by (simp add: openapi_keys_ok_def combined_new_def)

text \<open>The patch without a last-applied configuration is the delta, and applying it achieves the manifest.\<close>

lemma two_way_patch:
  "create_three_way_merge_patch fmt schema None t c = Inr (diffed schema c t [] (delta_options None))"
  by (simp add: create_three_way_merge_patch_def create_three_way_merge_patch_with_options_def
      diff_values_eq check_preconditions_def)

lemma two_way_achieves:
  assumes "merge_schema schema" "manifest_ok t" "wf_json c" "is_object t" "is_object c" "mergeable schema c t []"
  shows "\<exists>r. apply_strategic_patch schema c (diffed schema c t [] (delta_options orig)) [] = Inr r \<and>
             achieves schema c t r []"
proof -
  obtain cm tm where obj: "c = JObj cm" "t = JObj tm" using assms(4,5) by (auto simp: is_object_iff)
  have mode: "delta_mode (delta_options orig)" by (simp add: delta_mode_def delta_options_def)
  obtain dm where dm: "diffed schema c t [] (delta_options orig) = JObj dm" "distinct_keys dm"
    using object_delta [OF mode manifest_obj(1) [OF assms(2) [unfolded obj]], of schema cm "[]"]
    by (auto simp: obj)
  have "object_goal schema (delta_options orig) cm tm []"
    using merge_schema.delta_achieves [OF assms(1) mode assms(2,3,6)] obj by blast
  with dm obj show ?thesis
    by (auto simp: object_goal_def apply_strategic_patch_def apply_strategic_patch_with_options.simps)
qed



text \<open>
  C2. Convergence: once a manifest is applied, the patch of the same manifest against the result
  is empty, so nothing is left to apply.
\<close>

theorem second_patch_is_empty:
  assumes "openapi_keys_ok cl" and "manifest_ok t" and "mergeable (combined_schema cl) t t []"
    and "achieves (combined_schema cl) c t r []"
  shows "\<exists>patch. create_three_way_merge_patch fmt (combined_schema cl) None t r = Inr patch \<and>
                 is_empty_patch patch"
proof -
  have "delta_mode (delta_options None)" by (simp add: delta_mode_def delta_options_def)
  from merge_schema.achieved_no_delta [OF combined_merge_schema [OF assms(1)] this assms(4,2,3)]
  show ?thesis by (simp add: two_way_patch)
qed

theorem second_patch_is_empty_witness:
  "\<exists>patch r. apply_strategic_patch deployment_schema live_example
       (diffed deployment_schema live_example manifest_example [] (delta_options None)) [] = Inr r \<and>
     create_three_way_merge_patch no_format deployment_schema None manifest_example r = Inr patch \<and>
     is_empty_patch patch"
proof -
  obtain r where r: "apply_strategic_patch deployment_schema live_example
       (diffed deployment_schema live_example manifest_example [] (delta_options None)) [] = Inr r"
    "achieves deployment_schema live_example manifest_example r []"
    using two_way_achieves [OF combined_merge_schema [OF no_openapi_ok] example_ok(1,2)
        example_objects(2,1) example_ok(3)] by blast
  from second_patch_is_empty [OF no_openapi_ok example_ok(1,4) r(2)] r(1) show ?thesis by blast
qed

end
