(* ===== verification/Array_Views.thy ===== *)
theory Array_Views
  imports Prelude Complex_Main "HOL-Library.Word"
begin

text \<open>
  The array values of the Jsonnet interpreter (\<open>crates/jrsonnet-evaluator/src/arr/spec.rs\<close> and
  \<open>arr/mod.rs\<close>): an \<open>ArrValue\<close> is a tree of views (slices, reversals, repetitions,
  concatenations) over vectors and ranges. Indices are 32-bit words. Arithmetic that leaves the
  32 bits wraps in a release build and panics in a build with overflow checks, so the operations
  take that as a flag; a division by zero panics in both. An element of a vector is what forcing
  its thunk gives, an error or a value. The arrays that cache what they compute are in
  \<open>Array_Caches\<close>.
\<close>

section \<open>Runs that may panic\<close>

datatype 'a run = Panicked | Done 'a

definition run_bind :: "'a run \<Rightarrow> ('a \<Rightarrow> 'b run) \<Rightarrow> 'b run" where
  "run_bind r f = (case r of Panicked \<Rightarrow> Panicked | Done x \<Rightarrow> f x)"

lemma run_bind_simps [simp]:
  "run_bind Panicked f = Panicked"
  "run_bind (Done x) f = f x"
  by (simp_all add: run_bind_def)

type_synonym u32 = "32 word"
type_synonym i32 = "32 word"

definition u32_add :: "bool \<Rightarrow> u32 \<Rightarrow> u32 \<Rightarrow> u32 run" where
  "u32_add checks a b = (if checks \<and> unat a + unat b \<ge> 2 ^ 32 then Panicked else Done (a + b))"

definition u32_sub :: "bool \<Rightarrow> u32 \<Rightarrow> u32 \<Rightarrow> u32 run" where
  "u32_sub checks a b = (if checks \<and> unat a < unat b then Panicked else Done (a - b))"

definition u32_mul :: "bool \<Rightarrow> u32 \<Rightarrow> u32 \<Rightarrow> u32 run" where
  "u32_mul checks a b = (if checks \<and> unat a * unat b \<ge> 2 ^ 32 then Panicked else Done (a * b))"

definition u32_div_ceil :: "u32 \<Rightarrow> u32 \<Rightarrow> u32 run" where
  "u32_div_ceil a b =
     (if b = 0 then Panicked
      else Done (of_nat (unat a div unat b + (if unat a mod unat b = 0 then 0 else 1))))"

definition u32_rem :: "u32 \<Rightarrow> u32 \<Rightarrow> u32 run" where
  "u32_rem a b = (if b = 0 then Panicked else Done (of_nat (unat a mod unat b)))"

definition u32_checked_add :: "u32 \<Rightarrow> u32 \<Rightarrow> u32 option" where
  "u32_checked_add a b = (if unat a + unat b < 2 ^ 32 then Some (a + b) else None)"

definition u32_checked_mul :: "u32 \<Rightarrow> u32 \<Rightarrow> u32 option" where
  "u32_checked_mul a b = (if unat a * unat b < 2 ^ 32 then Some (a * b) else None)"

lemma u32_ops [simp]:
  "unat a + unat b < 2 ^ 32 \<Longrightarrow> u32_add checks a b = Done (a + b)"
  "unat b \<le> unat a \<Longrightarrow> u32_sub checks a b = Done (a - b)"
  "unat a * unat b < 2 ^ 32 \<Longrightarrow> u32_mul checks a b = Done (a * b)"
  by (simp_all add: u32_add_def u32_sub_def u32_mul_def)

lemma u32_unat_less [simp]: "unat (a :: u32) < 4294967296"
  using unsigned_less [of a, where ?'a = nat] by simp

lemma u32_unat_add: "unat (a :: u32) + unat b < 4294967296 \<Longrightarrow> unat (a + b) = unat a + unat b"
  using unat_add_lem [of a b] by simp

lemma u32_unat_sub: "unat (b :: u32) \<le> unat a \<Longrightarrow> unat (a - b) = unat a - unat b"
  by (simp add: unat_sub word_le_nat_alt)

lemma u32_unat_mul: "unat (a :: u32) * unat b < 4294967296 \<Longrightarrow> unat (a * b) = unat a * unat b"
  using unat_mult_lem [of a b] by simp

lemma u32_unat_of_nat: "n < 4294967296 \<Longrightarrow> unat (of_nat n :: u32) = n"
  by (simp add: unat_of_nat take_bit_nat_eq_self)

lemma u32_of_nat_unat [simp]: "of_nat (unat w) = (w :: u32)"
  by simp

section \<open>Views\<close>

datatype ('e, 'v) view =
    Unit_Array
  | Bytes_Array "8 word list"
  | Trivial_Array "'v list"
  | Vec_Array "('e + 'v) list"
  | Slice_Array "('e, 'v) view" u32 u32 u32
  | Extended_Array "('e, 'v) view" "('e, 'v) view" u32 u32
  | Range_Array i32 i32
  | Reverse_Array "('e, 'v) view"
  | Repeated_Array "('e, 'v) view" u32 u32
  | Pick_Values "string \<Rightarrow> 'e + 'v" "string list"
  | Pick_Key_Values "string \<Rightarrow> 'e + 'v" "string list"

text \<open>
  The build's overflow checks, the conversion of an integer to a number value, and the object
  \<open>{key, value}\<close> that \<open>KeyValue\<close> becomes; its value is a thunk, which the lazy access to
  the array leaves unforced.
\<close>

record ('e, 'v) array_env =
  overflow_checks :: bool
  num_val :: "int \<Rightarrow> 'v"
  key_value_val :: "string \<Rightarrow> 'e + 'v \<Rightarrow> 'v"

definition range_new_inclusive :: "i32 \<Rightarrow> i32 \<Rightarrow> ('e, 'v) view" where
  "range_new_inclusive start stop = Range_Array start stop"

definition range_empty :: "('e, 'v) view" where
  "range_empty = Range_Array 0 (-1)"

definition range_new_exclusive :: "i32 \<Rightarrow> i32 \<Rightarrow> ('e, 'v) view" where
  "range_new_exclusive start stop =
     (if sint stop = - (2 ^ 31) then range_empty else Range_Array start (stop - 1))"

definition range_size :: "i32 \<Rightarrow> i32 \<Rightarrow> u32" where
  "range_size start stop = stop - start + 1"

definition range_nth :: "i32 \<Rightarrow> i32 \<Rightarrow> u32 \<Rightarrow> int option" where
  "range_nth start stop index =
     (if sint start + uint index \<le> sint stop then Some (sint start + uint index) else None)"

text \<open>\<open>arridx\<close> is exact below the 4g limit; \<open>Vec::len32\<close> saturates.\<close>

definition arridx :: "bool \<Rightarrow> nat \<Rightarrow> u32 run" where
  "arridx checks i = (if checks \<and> i \<ge> 2 ^ 32 then Panicked else Done (of_nat i))"

fun len32 :: "('e, 'v) array_env \<Rightarrow> ('e, 'v) view \<Rightarrow> u32 run" where
  "len32 env Unit_Array = Done 0"
| "len32 env (Bytes_Array bs) = arridx (overflow_checks env) (length bs)"
| "len32 env (Trivial_Array vs) = arridx (overflow_checks env) (length vs)"
| "len32 env (Vec_Array xs) = Done (of_nat (min (length xs) (2 ^ 32 - 1)))"
| "len32 env (Slice_Array inner from to step) =
     run_bind (u32_sub (overflow_checks env) to from) (\<lambda>n. u32_div_ceil n step)"
| "len32 env (Extended_Array a b split len) = Done len"
| "len32 env (Range_Array start stop) = Done (range_size start stop)"
| "len32 env (Reverse_Array inner) = len32 env inner"
| "len32 env (Repeated_Array data repeats total_len) = Done total_len"
| "len32 env (Pick_Values obj keys) = arridx (overflow_checks env) (length keys)"
| "len32 env (Pick_Key_Values obj keys) = arridx (overflow_checks env) (length keys)"

definition slice_map_idx :: "bool \<Rightarrow> u32 \<Rightarrow> u32 \<Rightarrow> u32 \<Rightarrow> u32 run" where
  "slice_map_idx checks from step index =
     run_bind (u32_mul checks step index) (\<lambda>off. u32_add checks from off)"

definition reverse_idx :: "bool \<Rightarrow> u32 \<Rightarrow> u32 \<Rightarrow> u32 run" where
  "reverse_idx checks len index =
     run_bind (u32_sub checks len index) (\<lambda>n. u32_sub checks n 1)"

definition repeated_map_idx :: "u32 \<Rightarrow> u32 run \<Rightarrow> u32 \<Rightarrow> u32 option run" where
  "repeated_map_idx total_len data_len index =
     (if index > total_len then Done None
      else run_bind data_len (\<lambda>n. run_bind (u32_rem index n) (\<lambda>i. Done (Some i))))"

definition vec_get :: "'a list \<Rightarrow> u32 \<Rightarrow> 'a option" where
  "vec_get xs index = (if unat index < length xs then Some (xs ! unat index) else None)"

fun get_lazy32 :: "('e, 'v) array_env \<Rightarrow> ('e, 'v) view \<Rightarrow> u32 \<Rightarrow> ('e + 'v) option run" where
  "get_lazy32 env Unit_Array index = Done None"
| "get_lazy32 env (Bytes_Array bs) index = Done (map_option (\<lambda>b. Inr (num_val env (uint b))) (vec_get bs index))"
| "get_lazy32 env (Trivial_Array vs) index = Done (map_option Inr (vec_get vs index))"
| "get_lazy32 env (Vec_Array xs) index = Done (vec_get xs index)"
| "get_lazy32 env (Slice_Array inner from to step) index =
     run_bind (slice_map_idx (overflow_checks env) from step index) (get_lazy32 env inner)"
| "get_lazy32 env (Extended_Array a b split len) index =
     (if split > index then get_lazy32 env a index
      else run_bind (u32_sub (overflow_checks env) index split) (get_lazy32 env b))"
| "get_lazy32 env (Range_Array start stop) index =
     Done (map_option (\<lambda>i. Inr (num_val env i)) (range_nth start stop index))"
| "get_lazy32 env (Reverse_Array inner) index =
     run_bind (len32 env inner) (\<lambda>n.
     run_bind (reverse_idx (overflow_checks env) n index) (get_lazy32 env inner))"
| "get_lazy32 env (Repeated_Array data repeats total_len) index =
     run_bind (repeated_map_idx total_len (len32 env data) index) (\<lambda>r.
       case r of None \<Rightarrow> Done None | Some idx \<Rightarrow> get_lazy32 env data idx)"
| "get_lazy32 env (Pick_Values obj keys) index = Done (map_option obj (vec_get keys index))"
| "get_lazy32 env (Pick_Key_Values obj keys) index =
     Done (map_option (\<lambda>key. Inr (key_value_val env key (obj key))) (vec_get keys index))"

text \<open>\<open>Option::transpose\<close> of a forced element.\<close>

definition forced :: "('e + 'v) option \<Rightarrow> 'e + 'v option" where
  "forced r = (case r of None \<Rightarrow> Inr None | Some (Inl e) \<Rightarrow> Inl e | Some (Inr v) \<Rightarrow> Inr (Some v))"

fun get32 :: "('e, 'v) array_env \<Rightarrow> ('e, 'v) view \<Rightarrow> u32 \<Rightarrow> ('e + 'v option) run" where
  "get32 env Unit_Array index = Done (Inr None)"
| "get32 env (Bytes_Array bs) index = Done (Inr (map_option (\<lambda>b. num_val env (uint b)) (vec_get bs index)))"
| "get32 env (Trivial_Array vs) index = Done (Inr (vec_get vs index))"
| "get32 env (Vec_Array xs) index =
     Done (case vec_get xs index of None \<Rightarrow> Inr None | Some elem \<Rightarrow> and_then elem (\<lambda>v. Inr (Some v)))"
| "get32 env (Slice_Array inner from to step) index =
     run_bind (slice_map_idx (overflow_checks env) from step index) (get32 env inner)"
| "get32 env (Extended_Array a b split len) index =
     (if split > index then get32 env a index
      else run_bind (u32_sub (overflow_checks env) index split) (get32 env b))"
| "get32 env (Range_Array start stop) index =
     Done (Inr (map_option (num_val env) (range_nth start stop index)))"
| "get32 env (Reverse_Array inner) index =
     run_bind (len32 env inner) (\<lambda>n.
     run_bind (reverse_idx (overflow_checks env) n index) (get32 env inner))"
| "get32 env (Repeated_Array data repeats total_len) index =
     run_bind (repeated_map_idx total_len (len32 env data) index) (\<lambda>r.
       case r of None \<Rightarrow> Done (Inr None) | Some idx \<Rightarrow> get32 env data idx)"
| "get32 env (Pick_Values obj keys) index =
     Done (case vec_get keys index of None \<Rightarrow> Inr None | Some key \<Rightarrow> and_then (obj key) (\<lambda>v. Inr (Some v)))"
| "get32 env (Pick_Key_Values obj keys) index =
     Done (case vec_get keys index of
             None \<Rightarrow> Inr None
           | Some key \<Rightarrow> and_then (obj key) (\<lambda>v. Inr (Some (key_value_val env key (Inr v)))))"

text \<open>\<open>is_cheap\<close>: \<open>cheap_vec\<close> stands for \<open>!T::provides_lazy()\<close> of a vector's element type.\<close>

fun is_cheap :: "bool \<Rightarrow> ('e, 'v) view \<Rightarrow> bool" where
  "is_cheap cheap_vec Unit_Array = True"
| "is_cheap cheap_vec (Bytes_Array bs) = True"
| "is_cheap cheap_vec (Trivial_Array vs) = True"
| "is_cheap cheap_vec (Vec_Array xs) = cheap_vec"
| "is_cheap cheap_vec (Slice_Array inner from to step) = is_cheap cheap_vec inner"
| "is_cheap cheap_vec (Extended_Array a b split len) = (is_cheap cheap_vec a \<and> is_cheap cheap_vec b)"
| "is_cheap cheap_vec (Range_Array start stop) = True"
| "is_cheap cheap_vec (Reverse_Array inner) = is_cheap cheap_vec inner"
| "is_cheap cheap_vec (Repeated_Array data repeats total_len) = is_cheap cheap_vec data"
| "is_cheap cheap_vec (Pick_Values obj keys) = False"
| "is_cheap cheap_vec (Pick_Key_Values obj keys) = False"

section \<open>Building views\<close>

definition extended_new :: "('e, 'v) array_env \<Rightarrow> ('e, 'v) view \<Rightarrow> ('e, 'v) view \<Rightarrow> ('e, 'v) view option run" where
  "extended_new env a b =
     run_bind (len32 env a) (\<lambda>a_len.
     run_bind (len32 env b) (\<lambda>b_len.
       Done (map_option (\<lambda>len. Extended_Array a b a_len len) (u32_checked_add a_len b_len))))"

definition repeated :: "('e, 'v) array_env \<Rightarrow> ('e, 'v) view \<Rightarrow> u32 \<Rightarrow> ('e, 'v) view option run" where
  "repeated env data repeats =
     run_bind (len32 env data) (\<lambda>n.
       Done (map_option (\<lambda>total_len. Repeated_Array data repeats total_len) (u32_checked_mul n repeats)))"

definition view_empty :: "('e, 'v) view" where
  "view_empty = Unit_Array"

definition view_is_empty :: "('e, 'v) array_env \<Rightarrow> ('e, 'v) view \<Rightarrow> bool run" where
  "view_is_empty env v = run_bind (len32 env v) (\<lambda>n. Done (n = 0))"

definition reversed :: "('e, 'v) view \<Rightarrow> ('e, 'v) view" where
  "reversed v = Reverse_Array v"

text \<open>\<open>iter_lazy\<close>, to the end: \<open>expect("length checked")\<close> panics on a missing element.\<close>

fun collect_run :: "(u32 \<Rightarrow> 'a option run) \<Rightarrow> u32 list \<Rightarrow> 'a list run" where
  "collect_run f [] = Done []"
| "collect_run f (i # is) =
     run_bind (f i) (\<lambda>r. case r of
       None \<Rightarrow> Panicked
     | Some x \<Rightarrow> run_bind (collect_run f is) (\<lambda>xs. Done (x # xs)))"

definition iter_lazy :: "('e, 'v) array_env \<Rightarrow> ('e, 'v) view \<Rightarrow> ('e + 'v) list run" where
  "iter_lazy env v =
     run_bind (len32 env v) (\<lambda>n. collect_run (get_lazy32 env v) (map of_nat [0..<unat n]))"

definition extended :: "('e, 'v) array_env \<Rightarrow> ('e, 'v) view \<Rightarrow> ('e, 'v) view \<Rightarrow> ('e, 'v) view option run" where
  "extended env a b =
     run_bind (view_is_empty env a) (\<lambda>ea. if ea then Done (Some b) else
     run_bind (view_is_empty env b) (\<lambda>eb. if eb then Done (Some a) else
     run_bind (iter_lazy env a) (\<lambda>xs.
     run_bind (iter_lazy env b) (\<lambda>ys. Done (Some (Vec_Array (xs @ ys)))))))"

text \<open>\<open>slice32\<close>: negative positions count from the end, positions past it are clamped.\<close>

definition get_idx :: "i32 option \<Rightarrow> u32 \<Rightarrow> u32 \<Rightarrow> u32" where
  "get_idx pos len dflt =
     (case pos of
        None \<Rightarrow> dflt
      | Some v \<Rightarrow>
          if sint v < 0 then of_nat (nat (max 0 (min (2 ^ 32 - 1) (uint len + sint v))))
          else min v len)"

definition slice32 :: "('e, 'v) array_env \<Rightarrow> ('e, 'v) view \<Rightarrow> i32 option \<Rightarrow> i32 option \<Rightarrow> u32 option \<Rightarrow> ('e, 'v) view run" where
  "slice32 env self index stop step =
     run_bind (len32 env self) (\<lambda>len.
       let i = get_idx index len 0;
           e = get_idx stop len len;
           s = (case step of None \<Rightarrow> 1 | Some s \<Rightarrow> s)
       in Done (if i \<ge> e then view_empty else Slice_Array self i e s))"

text \<open>\<open>slice\<close> over a \<open>RangeBounds<usize>\<close>.\<close>

datatype bound = Included nat | Excluded nat | Unbounded

definition i32_of_usize :: "nat \<Rightarrow> int" where
  "i32_of_usize v = (if v < 2 ^ 31 then int v else 2 ^ 31 - 1)"

definition map_bound :: "bool \<Rightarrow> bound \<Rightarrow> i32 option" where
  "map_bound start b =
     (case b of
        Included v \<Rightarrow> Some (of_int (i32_of_usize v))
      | Excluded v \<Rightarrow>
          Some (of_int (max (- (2 ^ 31)) (min (2 ^ 31 - 1) (i32_of_usize v + (if start then 1 else -1)))))
      | Unbounded \<Rightarrow> None)"

definition slice :: "('e, 'v) array_env \<Rightarrow> ('e, 'v) view \<Rightarrow> bound \<Rightarrow> bound \<Rightarrow> ('e, 'v) view run" where
  "slice env self start stop = slice32 env self (map_bound True start) (map_bound False stop) None"

definition view_get :: "('e, 'v) array_env \<Rightarrow> ('e, 'v) view \<Rightarrow> nat \<Rightarrow> ('e + 'v option) run" where
  "view_get env v index = (if index < 2 ^ 32 then get32 env v (of_nat index) else Done (Inr None))"

definition view_get_lazy :: "('e, 'v) array_env \<Rightarrow> ('e, 'v) view \<Rightarrow> nat \<Rightarrow> ('e + 'v) option run" where
  "view_get_lazy env v index = (if index < 2 ^ 32 then get_lazy32 env v (of_nat index) else Done None)"

section \<open>What a view denotes\<close>

text \<open>The elements of a slice: every \<open>step\<close>-th of the window.\<close>

fun every :: "nat \<Rightarrow> 'a list \<Rightarrow> 'a list" where
  "every step [] = []"
| "every step (x # xs) = x # every step (drop (step - 1) xs)"

fun elems :: "('e, 'v) array_env \<Rightarrow> ('e, 'v) view \<Rightarrow> ('e + 'v) list" where
  "elems env Unit_Array = []"
| "elems env (Bytes_Array bs) = map (\<lambda>b. Inr (num_val env (uint b))) bs"
| "elems env (Trivial_Array vs) = map Inr vs"
| "elems env (Vec_Array xs) = xs"
| "elems env (Slice_Array inner from to step) =
     every (unat step) (drop (unat from) (take (unat to) (elems env inner)))"
| "elems env (Extended_Array a b split len) = elems env a @ elems env b"
| "elems env (Range_Array start stop) = map (\<lambda>i. Inr (num_val env i)) [sint start..sint stop]"
| "elems env (Reverse_Array inner) = rev (elems env inner)"
| "elems env (Repeated_Array data repeats total_len) = concat (replicate (unat repeats) (elems env data))"
| "elems env (Pick_Values obj keys) = map obj keys"
| "elems env (Pick_Key_Values obj keys) = map (\<lambda>k. Inr (key_value_val env k (obj k))) keys"

text \<open>The invariant the constructors establish: lengths fit 32 bits and the stored lengths are the real ones.\<close>

fun view_ok :: "('e, 'v) array_env \<Rightarrow> ('e, 'v) view \<Rightarrow> bool" where
  "view_ok env Unit_Array = True"
| "view_ok env (Bytes_Array bs) = (length bs < 2 ^ 32)"
| "view_ok env (Trivial_Array vs) = (length vs < 2 ^ 32)"
| "view_ok env (Vec_Array xs) = (length xs < 2 ^ 32)"
| "view_ok env (Slice_Array inner from to step) =
     (view_ok env inner \<and> step \<noteq> 0 \<and> unat from < unat to \<and> unat to \<le> length (elems env inner))"
| "view_ok env (Extended_Array a b split len) =
     (view_ok env a \<and> view_ok env b \<and> unat split = length (elems env a) \<and>
      unat len = length (elems env a) + length (elems env b))"
| "view_ok env (Range_Array start stop) = (sint stop - sint start + 1 < 2 ^ 32 \<and> sint start \<le> sint stop + 1)"
| "view_ok env (Reverse_Array inner) = view_ok env inner"
| "view_ok env (Repeated_Array data repeats total_len) =
     (view_ok env data \<and> unat total_len = length (elems env data) * unat repeats)"
| "view_ok env (Pick_Values obj keys) = (length keys < 2 ^ 32)"
| "view_ok env (Pick_Key_Values obj keys) = (length keys < 2 ^ 32)"

lemma every_nth:
  assumes "0 < step" "i * step < length xs"
  shows "i < length (every step xs) \<and> every step xs ! i = xs ! (i * step)"
  using assms(2)
proof (induction i arbitrary: xs)
  case 0
  then show ?case by (cases xs) auto
next
  case (Suc i)
  then obtain x ys where xs: "xs = x # ys" by (cases xs) auto
  have "i * step < length (drop (step - 1) ys)" using Suc.prems assms(1) by (simp add: xs)
  from Suc.IH [OF this] have "i < length (every step (drop (step - 1) ys))"
    "every step (drop (step - 1) ys) ! i = ys ! (step - 1 + i * step)"
    using \<open>i * step < length (drop (step - 1) ys)\<close> by simp_all
  moreover have "Suc i * step = Suc (step - 1 + i * step)" using assms(1) by simp
  ultimately show ?case by (simp add: xs)
qed

lemma length_every:
  assumes "0 < step"
  shows "length (every step xs) = length xs div step + (if length xs mod step = 0 then 0 else 1)"
proof (induction "length xs" arbitrary: xs rule: less_induct)
  case less
  show ?case
  proof (cases xs)
    case (Cons x ys)
    have len: "length (every step xs) = Suc (length (every step (drop (step - 1) ys)))"
      by (simp add: Cons)
    show ?thesis
    proof (cases "length xs \<le> step")
      case True
      then have "drop (step - 1) ys = []" using Cons by simp
      with True Cons assms show ?thesis
        by (cases "length xs = step") (auto simp: div_eq_0_iff)
    next
      case False
      have "length (drop (step - 1) ys) = length xs - step" using Cons assms by simp
      moreover have "length (drop (step - 1) ys) < length xs" using Cons by simp
      ultimately have "length (every step (drop (step - 1) ys)) =
          (length xs - step) div step + (if (length xs - step) mod step = 0 then 0 else 1)"
        using less by metis
      with len False assms show ?thesis by (simp add: le_div_geq le_mod_geq)
    qed
  qed simp
qed

section \<open>The contract of an array\<close>

text \<open>
  What the interpreter relies on of an \<open>ArrayLike\<close>: its length is the number of its elements and
  every index below it gives the element there. Nothing is promised of other indices.
\<close>

locale array_like =
  fixes len :: "'a \<Rightarrow> u32 run"
    and get :: "'a \<Rightarrow> u32 \<Rightarrow> 'x option run"
    and elements :: "'a \<Rightarrow> 'x list"
    and ok :: "'a \<Rightarrow> bool"
  assumes fits: "ok a \<Longrightarrow> length (elements a) < 2 ^ 32"
    and len_ok: "ok a \<Longrightarrow> len a = Done (of_nat (length (elements a)))"
    and get_ok: "ok a \<Longrightarrow> unat i < length (elements a) \<Longrightarrow> get a i = Done (Some (elements a ! unat i))"
begin

lemma unat_len: "ok a \<Longrightarrow> unat (of_nat (length (elements a)) :: u32) = length (elements a)"
  using fits by (simp add: u32_unat_of_nat)

lemma collect_prefix:
  assumes "ok a" "set is \<subseteq> {..<length (elements a)}"
  shows "collect_run (get a) (map of_nat is) = Done (map (\<lambda>i. elements a ! i) is)"
  using assms(2)
proof (induction "is")
  case (Cons i "is")
  then have i: "i < length (elements a)" by simp
  then have "unat (of_nat i :: u32) = i"
    using fits [OF assms(1)] by (simp add: u32_unat_of_nat)
  with i have "get a (of_nat i) = Done (Some (elements a ! i))"
    using get_ok [OF assms(1), of "of_nat i"] by simp
  with Cons show ?case by simp
qed simp

lemma collect_all:
  assumes "ok a"
  shows "run_bind (len a) (\<lambda>n. collect_run (get a) (map of_nat [0..<unat n])) = Done (elements a)"
proof -
  have "collect_run (get a) (map of_nat [0..<length (elements a)]) = Done (elements a)"
    using collect_prefix [OF assms, of "[0..<length (elements a)]"] by (simp add: map_nth atLeast0LessThan)
  then show ?thesis by (simp add: len_ok [OF assms] unat_len [OF assms])
qed

lemma reverse_ok:
  assumes "ok a" "unat i < length (elements a)"
  shows "run_bind (len a) (\<lambda>n. run_bind (reverse_idx checks n i) (get a)) =
         Done (Some (rev (elements a) ! unat i))"
proof -
  let ?n = "of_nat (length (elements a)) :: u32"
  have n: "unat ?n = length (elements a)" by (rule unat_len [OF assms(1)])
  have d: "unat (?n - i) = length (elements a) - unat i"
    using assms(2) n by (simp add: u32_unat_sub)
  then have d1: "unat (?n - i - 1) = length (elements a) - unat i - 1"
    using assms(2) by (subst u32_unat_sub) auto
  have "reverse_idx checks ?n i = Done (?n - i - 1)"
    using assms(2) n d by (simp add: reverse_idx_def)
  with d1 assms show ?thesis
    by (simp add: len_ok get_ok rev_nth)
qed

end

lemma slice_idx_ok:
  assumes "unat from < unat to" "unat to \<le> n" "n < 2 ^ 32" "step \<noteq> 0"
    and "unat i * unat step < unat to - unat from"
  shows "\<exists>j. slice_map_idx checks from step i = Done j \<and> unat j = unat from + unat i * unat step"
proof -
  have m: "unat step * unat i < 4294967296" using assms(1-3,5) by (simp add: mult.commute)
  have "unat (step * i) = unat i * unat step" using u32_unat_mul [OF m] by (simp add: mult.commute)
  moreover have "unat from + unat i * unat step < 4294967296" using assms by simp
  ultimately show ?thesis
    using m u32_unat_add [of "from" "step * i"] by (simp add: slice_map_idx_def)
qed

lemma ceil_le:
  assumes "(0::nat) < s"
  shows "n div s + (if n mod s = 0 then 0 else 1) \<le> n"
proof -
  have "n div s \<le> n div s * s" using assms by simp
  moreover have "n div s * s + n mod s = n" by simp
  ultimately have "n div s + n mod s \<le> n" by linarith
  then show ?thesis by (cases "n mod s") auto
qed

lemma below_ceil:
  assumes "(0::nat) < s" "i < n div s + (if n mod s = 0 then 0 else 1)"
  shows "i * s < n"
proof (cases "n mod s = 0")
  case True
  then have "n = n div s * s" by (metis add.right_neutral div_mult_mod_eq)
  moreover have "i < n div s" using assms(2) True by simp
  ultimately show ?thesis using assms(1) by (metis mult_less_cancel2)
next
  case False
  then have "i * s \<le> n div s * s" using assms(2) by simp
  moreover have "n div s * s + n mod s = n" by simp
  ultimately show ?thesis using False by linarith
qed

lemma nth_concat_replicate:
  "i < k * length xs \<Longrightarrow> concat (replicate k xs) ! i = xs ! (i mod length xs)"
proof (induction k arbitrary: i)
  case (Suc k)
  show ?case
  proof (cases "i < length xs")
    case False
    then have "i - length xs < k * length xs" using Suc.prems by simp
    with Suc.IH False show ?thesis by (simp add: nth_append le_mod_geq)
  qed (simp add: nth_append)
qed simp

lemma length_concat_replicate: "length (concat (replicate k xs)) = k * length xs"
  by (induction k) auto

lemma views_ok:
  "view_ok env v \<Longrightarrow>
     length (elems env v) < 2 ^ 32 \<and>
     len32 env v = Done (of_nat (length (elems env v))) \<and>
     (\<forall>i. unat i < length (elems env v) \<longrightarrow> get_lazy32 env v i = Done (Some (elems env v ! unat i)))"
proof (induction v)
  case Unit_Array
  then show ?case by simp
next
  case (Bytes_Array bs)
  then show ?case by (auto simp: arridx_def vec_get_def)
next
  case (Trivial_Array vs)
  then show ?case by (auto simp: arridx_def vec_get_def)
next
  case (Vec_Array xs)
  then show ?case by (auto simp: vec_get_def min_def)
next
  case (Slice_Array inner "from" to step)
  let ?es = "elems env inner"
  let ?win = "drop (unat from) (take (unat to) ?es)"
  have ok: "view_ok env inner" "step \<noteq> 0" "unat from < unat to" "unat to \<le> length ?es"
    using Slice_Array.prems by simp_all
  note IH = Slice_Array.IH [OF ok(1)]
  have s: "0 < unat step" using ok(2) by (simp add: unat_gt_0)
  have w: "length ?win = unat to - unat from" using ok(4) by simp
  have len: "length (every (unat step) ?win) =
      (unat to - unat from) div unat step + (if (unat to - unat from) mod unat step = 0 then 0 else 1)"
    by (simp only: length_every [OF s] w)
  have sub: "unat (to - from) = unat to - unat from" using ok(3) by (simp add: u32_unat_sub)
  have "len32 env (Slice_Array inner from to step) = Done (of_nat (length (every (unat step) ?win)))"
    using ok(2,3) by (simp add: len u32_div_ceil_def sub)
  moreover have "length (every (unat step) ?win) < 2 ^ 32"
  proof -
    have "length (every (unat step) ?win) \<le> unat to"
      unfolding len using order.trans [OF ceil_le [OF s] diff_le_self] .
    also have "\<dots> < 2 ^ 32" using u32_unat_less [of to] by simp
    finally show ?thesis .
  qed
  moreover have "get_lazy32 env (Slice_Array inner from to step) i =
      Done (Some (every (unat step) ?win ! unat i))" if i: "unat i < length (every (unat step) ?win)" for i
  proof -
    have lt: "unat i * unat step < unat to - unat from"
      using below_ceil [OF s] i unfolding len by blast
    obtain j where j: "slice_map_idx (overflow_checks env) from step i = Done j"
      "unat j = unat from + unat i * unat step"
      using slice_idx_ok [OF ok(3,4) conjunct1 [OF IH] ok(2) lt] by blast
    have "unat j < length ?es" using j(2) lt ok(4) by simp
    then have "get_lazy32 env inner j = Done (Some (?es ! unat j))" using IH by blast
    moreover have "every (unat step) ?win ! unat i = ?win ! (unat i * unat step)"
      using every_nth [OF s, of "unat i" ?win] lt w by simp
    moreover have "?win ! (unat i * unat step) = ?es ! unat j" using lt w j(2) ok(4) by simp
    ultimately show ?thesis using j(1) by simp
  qed
  ultimately show ?case by (simp del: len32.simps get_lazy32.simps)
next
  case (Extended_Array a b split len)
  then have ok: "view_ok env a" "view_ok env b" "unat split = length (elems env a)"
    "unat len = length (elems env a) + length (elems env b)" by simp_all
  note IHa = Extended_Array.IH(1) [OF ok(1)] and IHb = Extended_Array.IH(2) [OF ok(2)]
  have "length (elems env a) + length (elems env b) < 2 ^ 32"
    using ok(4) u32_unat_less [of len] by simp
  moreover have "len = of_nat (length (elems env a) + length (elems env b))"
    unfolding ok(4) [symmetric] by simp
  moreover have "get_lazy32 env (Extended_Array a b split len) i = Done (Some ((elems env a @ elems env b) ! unat i))"
    if i: "unat i < length (elems env a @ elems env b)" for i
  proof (cases "i < split")
    case True
    then have "unat i < length (elems env a)" using ok(3) by (simp add: word_less_nat_alt)
    with True IHa show ?thesis by (simp add: nth_append)
  next
    case False
    then have le: "unat split \<le> unat i" by (simp add: word_less_nat_alt)
    then have "unat (i - split) = unat i - length (elems env a)" using ok(3) by (simp add: u32_unat_sub)
    moreover have "unat i - length (elems env a) < length (elems env b)" using i le ok(3) by simp
    ultimately show ?thesis using False IHb le ok(3) by (simp add: nth_append)
  qed
  ultimately show ?case by (simp del: get_lazy32.simps)
next
  case (Range_Array start stop)
  then have ok: "sint stop - sint start + 1 < 2 ^ 32" "sint start \<le> sint stop + 1" by simp_all
  have size: "range_size start stop = of_nat (nat (sint stop - sint start + 1))"
  proof -
    have "range_size start stop = of_int (sint stop - sint start + 1)" by (simp add: range_size_def)
    then show ?thesis using ok(2) by simp
  qed
  have "range_nth start stop i = Some ([sint start..sint stop] ! unat i)"
    if "unat i < length [sint start..sint stop]" for i
  proof -
    have "int (unat i) = uint i" by simp
    moreover have "int (unat i) \<le> sint stop - sint start"
      using that by (simp only: length_upto zless_nat_eq_int_zless)
    ultimately show ?thesis by (simp add: range_nth_def nth_upto)
  qed
  with ok size show ?case by simp
next
  case (Reverse_Array inner)
  then have ok: "view_ok env inner" by simp
  note IH = Reverse_Array.IH [OF ok]
  have loc: "array_like (\<lambda>_ :: unit. len32 env inner) (\<lambda>_. get_lazy32 env inner)
      (\<lambda>_. elems env inner) (\<lambda>_. True)"
    using IH by unfold_locales auto
  from IH array_like.reverse_ok [OF loc] show ?case by simp
next
  case (Repeated_Array data repeats total_len)
  let ?xs = "elems env data"
  have ok: "view_ok env data" "unat total_len = length ?xs * unat repeats"
    using Repeated_Array.prems by simp_all
  note IH = Repeated_Array.IH [OF ok(1)]
  have len: "length (concat (replicate (unat repeats) ?xs)) = unat total_len"
    using ok(2) by (simp add: length_concat_replicate mult.commute)
  have get: "get_lazy32 env (Repeated_Array data repeats total_len) i =
      Done (Some (concat (replicate (unat repeats) ?xs) ! unat i))"
    if i: "unat i < length (concat (replicate (unat repeats) ?xs))" for i
  proof -
    from i len have lt: "unat i < unat total_len" by simp
    then have "?xs \<noteq> []" using ok(2) by auto
    then have pos: "0 < length ?xs" by simp
    let ?n = "of_nat (length ?xs) :: u32"
    have n: "unat ?n = length ?xs" using IH by (simp add: u32_unat_of_nat)
    then have "?n \<noteq> 0" using pos by (metis not_gr_zero unat_0)
    moreover have "\<not> i > total_len" using lt by (simp add: word_less_nat_alt)
    moreover have m: "unat i mod length ?xs < length ?xs" using pos by simp
    moreover have "unat (of_nat (unat i mod length ?xs) :: u32) = unat i mod length ?xs"
      using m IH by (intro u32_unat_of_nat) simp
    moreover have "concat (replicate (unat repeats) ?xs) ! unat i = ?xs ! (unat i mod length ?xs)"
      using i by (intro nth_concat_replicate) (simp add: length_concat_replicate)
    ultimately show ?thesis using IH n by (simp add: repeated_map_idx_def u32_rem_def)
  qed
  have "length (concat (replicate (unat repeats) ?xs)) < 2 ^ 32" unfolding len by simp
  moreover have "Done total_len = Done (of_nat (length (concat (replicate (unat repeats) ?xs))))"
    unfolding len by simp
  ultimately show ?case unfolding elems.simps len32.simps using get by blast
next
  case (Pick_Values obj keys)
  then show ?case by (auto simp: arridx_def vec_get_def)
next
  case (Pick_Key_Values obj keys)
  then show ?case by (auto simp: arridx_def vec_get_def)
qed

interpretation views: array_like "len32 env" "get_lazy32 env" "elems env" "view_ok env" for env
  by unfold_locales (use views_ok in blast)+

text \<open>Forcing a lazily read element is reading it; only \<open>PickObjectKeyValues\<close> delays an error.\<close>

fun no_pairs :: "('e, 'v) view \<Rightarrow> bool" where
  "no_pairs (Slice_Array inner from to step) = no_pairs inner"
| "no_pairs (Extended_Array a b split len) = (no_pairs a \<and> no_pairs b)"
| "no_pairs (Reverse_Array inner) = no_pairs inner"
| "no_pairs (Repeated_Array data repeats total_len) = no_pairs data"
| "no_pairs (Pick_Key_Values obj keys) = False"
| "no_pairs v = True"

lemma forced_simps [simp]:
  "forced None = Inr None"
  "forced (Some r) = and_then r (\<lambda>v. Inr (Some v))"
  by (auto simp: forced_def and_then_def split: sum.splits)

lemma run_bind_assoc: "run_bind (run_bind r f) g = run_bind r (\<lambda>x. run_bind (f x) g)"
  by (cases r) simp_all

lemma run_bind_eqI: "(\<And>x. r = Done x \<Longrightarrow> f x = g x) \<Longrightarrow> run_bind r f = run_bind r g"
  by (cases r) simp_all

lemma forced_map:
  "forced (map_option (\<lambda>x. Inr (f x)) r) = Inr (map_option f r)"
  "forced (map_option Inr q) = Inr q"
  by (cases r; simp) (cases q; simp)

lemma get32_forces: "no_pairs v \<Longrightarrow> get32 env v i = run_bind (get_lazy32 env v i) (\<lambda>r. Done (forced r))"
proof (induction v arbitrary: i)
  case (Repeated_Array data repeats total_len)
  then show ?case
    by (cases "repeated_map_idx total_len (len32 env data) i") (auto split: option.splits)
qed (auto simp: run_bind_assoc forced_map option.map_ident split: option.splits intro!: run_bind_eqI)

section \<open>What the constructors build\<close>

lemma concat_replicate_0 [simp]: "concat (replicate n []) = []"
  by (induction n) simp_all

lemma repeated_elems:
  assumes "view_ok env v"
  shows "repeated env v n =
      (if length (elems env v) * unat n < 2 ^ 32
       then Done (Some (Repeated_Array v n (of_nat (length (elems env v)) * n))) else Done None)"
    and "length (elems env v) * unat n < 2 ^ 32 \<Longrightarrow>
      view_ok env (Repeated_Array v n (of_nat (length (elems env v)) * n))"
  using views.len_ok [OF assms] views.unat_len [OF assms] assms
  by (auto simp: repeated_def u32_checked_mul_def u32_unat_mul)

lemma iter_lazy_elems: "view_ok env v \<Longrightarrow> iter_lazy env v = Done (elems env v)"
  unfolding iter_lazy_def by (rule views.collect_all)

lemma view_is_empty_iff: "view_ok env v \<Longrightarrow> view_is_empty env v = Done (elems env v = [])"
  using views.len_ok [of env v] views.unat_len [of env v] by (auto simp: view_is_empty_def)

lemma extended_elems:
  assumes "view_ok env a" "view_ok env b" "length (elems env a) + length (elems env b) < 2 ^ 32"
  shows "\<exists>v. extended env a b = Done (Some v) \<and> view_ok env v \<and> elems env v = elems env a @ elems env b"
  using assms by (auto simp: extended_def view_is_empty_iff iter_lazy_elems)

text \<open>Positions as \<open>std.slice\<close> documents them.\<close>

definition clamped :: "i32 option \<Rightarrow> nat \<Rightarrow> nat \<Rightarrow> nat" where
  "clamped pos n dflt =
     (case pos of
        None \<Rightarrow> dflt
      | Some v \<Rightarrow> nat (min (int n) (if sint v < 0 then max 0 (int n + sint v) else sint v)))"

lemma sint_nonneg_uint: "0 \<le> sint (v :: i32) \<Longrightarrow> uint v = sint v"
  using sint_lt [of v] by (simp add: uint_sint take_bit_int_eq_self)

lemma get_idx_neg:
  assumes "sint v < 0"
  shows "unat (get_idx (Some v) len dflt) = clamped (Some v) (unat len) d"
proof -
  obtain L V where LV: "uint len = L" "sint v = V" by simp
  have L: "0 \<le> L" "L < 2 ^ 32" and V: "V < 0"
    using LV assms uint_range_size [of len] by (auto simp: word_size)
  have "max 0 (min (2 ^ 32 - 1) (L + V)) = max 0 (L + V)" using L V by simp
  moreover have "nat (max 0 (L + V)) < 4294967296" using L V by simp
  moreover have "min L (max 0 (L + V)) = max 0 (L + V)" using L V by simp
  moreover have "int (unat len) = L" using LV by simp
  ultimately show ?thesis using V LV(2)
    by (simp only: get_idx_def clamped_def option.case LV(1) if_True u32_unat_of_nat)
qed

lemma get_idx_pos:
  assumes "\<not> sint v < 0"
  shows "unat (get_idx (Some v) len dflt) = clamped (Some v) (unat len) d"
proof -
  have "sint v = int (unat v)" using assms by (simp add: sint_nonneg_uint)
  then have "clamped (Some v) (unat len) d = nat (min (int (unat len)) (int (unat v)))"
    unfolding clamped_def option.case using assms by (simp only: if_False)
  also have "\<dots> = min (unat v) (unat len)" unfolding min_def by (simp only: of_nat_le_iff nat_int) simp
  finally have "clamped (Some v) (unat len) d = min (unat v) (unat len)" .
  moreover have "unat (min v len) = min (unat v) (unat len)" by (simp add: min_def word_le_nat_alt)
  ultimately show ?thesis using assms by (simp only: get_idx_def option.case if_False)
qed

lemma clamped_le: "dflt \<le> n \<Longrightarrow> clamped pos n dflt \<le> n"
  unfolding clamped_def by (auto split: option.splits simp del: min_less_iff_conj)

lemma get_idx_clamped: "unat (get_idx pos len dflt) = clamped pos (unat len) (unat dflt)"
proof (cases pos)
  case (Some v)
  then show ?thesis using get_idx_neg get_idx_pos by (cases "sint v < 0") auto
qed (simp add: get_idx_def clamped_def)

definition slice_elems :: "'a list \<Rightarrow> i32 option \<Rightarrow> i32 option \<Rightarrow> u32 option \<Rightarrow> 'a list" where
  "slice_elems xs index stop step =
     every (case step of None \<Rightarrow> 1 | Some s \<Rightarrow> unat s)
       (drop (clamped index (length xs) 0) (take (clamped stop (length xs) (length xs)) xs))"

lemma slice32_elems:
  assumes "view_ok env v" "step \<noteq> Some 0"
  shows "\<exists>w. slice32 env v index stop step = Done w \<and> view_ok env w \<and>
             elems env w = slice_elems (elems env v) index stop step"
proof -
  let ?n = "of_nat (length (elems env v)) :: u32"
  have n: "unat ?n = length (elems env v)" by (rule views.unat_len [OF assms(1)])
  have i: "unat (get_idx index ?n 0) = clamped index (length (elems env v)) 0"
    and e: "unat (get_idx stop ?n ?n) = clamped stop (length (elems env v)) (length (elems env v))"
    using get_idx_clamped [of _ ?n] n by (metis unat_0)+
  have le: "unat (get_idx stop ?n ?n) \<le> length (elems env v)"
    unfolding e by (rule clamped_le) simp
  let ?s = "case step of None \<Rightarrow> 1 | Some s \<Rightarrow> s"
  have s: "?s \<noteq> 0" "unat ?s = (case step of None \<Rightarrow> 1 | Some s \<Rightarrow> unat s)"
    using assms(2) by (auto split: option.splits)
  show ?thesis
  proof (cases "get_idx index ?n 0 \<ge> get_idx stop ?n ?n")
    case True
    then have "clamped stop (length (elems env v)) (length (elems env v)) \<le> clamped index (length (elems env v)) 0"
      using i e by (simp add: word_le_nat_alt)
    then show ?thesis using True
      by (simp add: slice32_def views.len_ok [OF assms(1)] view_empty_def slice_elems_def)
  next
    case False
    then have "unat (get_idx index ?n 0) < unat (get_idx stop ?n ?n)" by (simp add: word_le_nat_alt)
    then show ?thesis using False i e le s assms(1)
      by (simp add: slice32_def views.len_ok [OF assms(1)] slice_elems_def)
  qed
qed

lemma every_1 [simp]: "every (Suc 0) xs = xs"
  by (induction "Suc 0" xs rule: every.induct) simp_all

section \<open>Filtering\<close>

text \<open>
  \<open>filter\<close> reads the elements one by one as long as their values compute; at the first element
  that fails it starts again on the thunks. The predicate gets a thunk and may fail.
\<close>

fun filter_eager :: "(u32 \<Rightarrow> ('e + 'v option) run) \<Rightarrow> ('e + 'v \<Rightarrow> 'e + bool) \<Rightarrow> u32 list \<Rightarrow> 'v list \<Rightarrow> ('e + 'v list) option run" where
  "filter_eager get f [] out = Done (Some (Inr out))"
| "filter_eager get f (i # is) out =
     run_bind (get i) (\<lambda>r. case r of
       Inl e \<Rightarrow> Done None
     | Inr None \<Rightarrow> Panicked
     | Inr (Some v) \<Rightarrow>
         (case f (Inr v) of Inl e \<Rightarrow> Done (Some (Inl e))
          | Inr keep \<Rightarrow> filter_eager get f is (if keep then out @ [v] else out)))"

fun filter_thunks :: "(u32 \<Rightarrow> ('e + 'v) option run) \<Rightarrow> ('e + 'v \<Rightarrow> 'e + bool) \<Rightarrow> u32 list \<Rightarrow> ('e + 'v) list \<Rightarrow> ('e + ('e + 'v) list) run" where
  "filter_thunks get f [] out = Done (Inr out)"
| "filter_thunks get f (i # is) out =
     run_bind (get i) (\<lambda>r. case r of
       None \<Rightarrow> Panicked
     | Some t \<Rightarrow>
         (case f t of Inl e \<Rightarrow> Done (Inl e)
          | Inr keep \<Rightarrow> filter_thunks get f is (if keep then out @ [t] else out)))"

definition view_filter :: "('e, 'v) array_env \<Rightarrow> ('e, 'v) view \<Rightarrow> ('e + 'v \<Rightarrow> 'e + bool) \<Rightarrow> ('e + ('e, 'v) view) run" where
  "view_filter env self f =
     run_bind (len32 env self) (\<lambda>n.
       let is = map of_nat [0..<unat n] in
       run_bind (filter_eager (get32 env self) f is []) (\<lambda>r. case r of
         Some (Inl e) \<Rightarrow> Done (Inl e)
       | Some (Inr out) \<Rightarrow> Done (Inr (Vec_Array (map Inr out)))
       | None \<Rightarrow>
           run_bind (filter_thunks (get_lazy32 env self) f is []) (\<lambda>r.
             Done (and_then r (\<lambda>out. Inr (Vec_Array out))))))"

text \<open>What is kept, as a function of the elements.\<close>

fun kept :: "('a \<Rightarrow> 'e + bool) \<Rightarrow> 'a list \<Rightarrow> 'e + 'a list" where
  "kept f [] = Inr []"
| "kept f (r # rs) =
     and_then (f r) (\<lambda>keep. and_then (kept f rs) (\<lambda>out. Inr (if keep then r # out else out)))"

lemma filter_thunks_kept:
  assumes "\<And>i. i \<in> set is \<Longrightarrow> get i = Done (Some (g i))"
  shows "filter_thunks get f is out = Done (and_then (kept f (map g is)) (\<lambda>more. Inr (out @ more)))"
  using assms
proof (induction "is" arbitrary: out)
  case (Cons i "is")
  show ?case
  proof (cases "f (g i)")
    case (Inr keep)
    then show ?thesis using Cons by (cases "kept f (map g is)") auto
  qed (use Cons.prems in simp)
qed simp

text \<open>The eager pass, when it ends, gives what the lazy one gives.\<close>

lemma filter_eager_kept:
  assumes "\<And>i. i \<in> set is \<Longrightarrow> get i = Done (forced (Some (g i)))"
  shows "\<exists>r. filter_eager get f is out = Done r \<and>
    (\<forall>q. r = Some q \<longrightarrow> and_then (kept f (map g is)) (\<lambda>more. Inr (map Inr out @ more)) = and_then q (\<lambda>vs. Inr (map Inr vs)))"
  using assms
proof (induction "is" arbitrary: out)
  case (Cons i "is")
  have get: "get i = Done (forced (Some (g i)))" by (rule Cons.prems) simp
  show ?case
  proof (cases "g i")
    case (Inr v)
    show ?thesis
    proof (cases "f (Inr v)")
      case keep: (Inr keep)
      obtain r where r: "filter_eager get f is (if keep then out @ [v] else out) = Done r"
        "\<forall>q. r = Some q \<longrightarrow> and_then (kept f (map g is))
           (\<lambda>more. Inr (map Inr (if keep then out @ [v] else out) @ more)) = and_then q (\<lambda>vs. Inr (map Inr vs))"
        using Cons.IH Cons.prems by (metis list.set_intros(2))
      have "and_then (kept f (map g (i # is))) (\<lambda>more. Inr (map Inr out @ more)) =
          and_then (kept f (map g is)) (\<lambda>more. Inr (map Inr (if keep then out @ [v] else out) @ more))"
        using keep Inr by (cases "kept f (map g is)") simp_all
      with r get keep Inr show ?thesis by simp
    qed (use get Inr in simp)
  qed (use get in simp)
qed simp

lemma view_filter_kept:
  assumes "view_ok env v" "no_pairs v"
  shows "view_filter env v f = Done (and_then (kept f (elems env v)) (\<lambda>out. Inr (Vec_Array out)))"
proof -
  let ?n = "length (elems env v)"
  let ?is = "map of_nat [0..<?n] :: u32 list"
  let ?g = "\<lambda>i. elems env v ! unat i"
  have small: "unat i < ?n" if "i \<in> set ?is" for i
    using that views.fits [OF assms(1)] by (auto simp: u32_unat_of_nat)
  have lazy: "get_lazy32 env v i = Done (Some (?g i))" if "i \<in> set ?is" for i
    using views.get_ok [OF assms(1) small [OF that]] .
  then have eager: "get32 env v i = Done (forced (Some (?g i)))" if "i \<in> set ?is" for i
    using that get32_forces [OF assms(2)] by simp
  have elems: "map ?g ?is = elems env v"
    by (rule nth_equalityI) (use views.fits [OF assms(1)] in \<open>simp_all add: u32_unat_of_nat\<close>)
  obtain r where r: "filter_eager (get32 env v) f ?is [] = Done r"
    "\<And>q. r = Some q \<Longrightarrow> and_then (kept f (elems env v)) (\<lambda>more. Inr more) = and_then q (\<lambda>vs. Inr (map Inr vs))"
    using filter_eager_kept [of ?is "get32 env v" ?g f "[]", OF eager] unfolding elems by auto
  have "filter_thunks (get_lazy32 env v) f ?is [] = Done (and_then (kept f (elems env v)) (\<lambda>more. Inr more))"
    using filter_thunks_kept [of ?is "get_lazy32 env v" ?g f "[]", OF lazy] unfolding elems by simp
  moreover have "and_then (kept f (elems env v)) (\<lambda>more. Inr more) = kept f (elems env v)"
    by (cases "kept f (elems env v)") simp_all
  ultimately show ?thesis using r
    by (cases r; cases "kept f (elems env v)")
      (auto simp: view_filter_def Let_def views.len_ok [OF assms(1)]
        views.unat_len [OF assms(1)] and_then_def split: sum.splits)
qed

section \<open>Array destructuring\<close>

text \<open>
  \<open>destruct_array\<close> (\<open>evaluate/destructure.rs\<close>): the pattern \<open>[start..., ...rest, end...]\<close>
  binds each name to a thunk over the checked array. \<open>None\<close> is a value that is no array.
\<close>

datatype destruct_error = Expected_Array | Expected_Elements nat u32 | Expected_At_Least nat u32

definition destruct_full :: "('e, 'v) array_env \<Rightarrow> nat \<Rightarrow> nat \<Rightarrow> bool \<Rightarrow> ('e, 'v) view option \<Rightarrow> (destruct_error + ('e, 'v) view) run" where
  "destruct_full env start_len end_len has_rest value =
     (case value of
        None \<Rightarrow> Done (Inl Expected_Array)
      | Some arr \<Rightarrow>
          run_bind (len32 env arr) (\<lambda>n.
            let min_len = start_len + end_len in
            Done (if \<not> has_rest \<and> unat n \<noteq> min_len then Inl (Expected_Elements min_len n)
                  else if has_rest \<and> unat n < min_len then Inl (Expected_At_Least min_len n)
                  else Inr arr)))"

definition destruct_start :: "('e, 'v) array_env \<Rightarrow> ('e, 'v) view \<Rightarrow> nat \<Rightarrow> ('e + 'v option) run" where
  "destruct_start env full i = view_get env full i"

definition destruct_rest :: "('e, 'v) array_env \<Rightarrow> ('e, 'v) view \<Rightarrow> nat \<Rightarrow> nat \<Rightarrow> ('e, 'v) view run" where
  "destruct_rest env full start_len end_len =
     run_bind (len32 env full) (\<lambda>n. slice env full (Included start_len) (Excluded (unat n - end_len)))"

definition destruct_end :: "('e, 'v) array_env \<Rightarrow> ('e, 'v) view \<Rightarrow> nat \<Rightarrow> nat \<Rightarrow> ('e + 'v option) run" where
  "destruct_end env full end_len i =
     run_bind (len32 env full) (\<lambda>n. view_get env full (unat n - end_len + i))"

section \<open>The indexing expression\<close>

text \<open>
  \<open>arr[n]\<close> in \<open>evaluate/mod.rs\<close>. A number is the rational its double stands for; \<open>fract\<close> and
  \<open>as u32\<close> round towards zero.
\<close>

datatype 'e index_error = Fractional_Index | Array_Bounds_Error rat u32 | Element_Error 'e

definition epsilon :: rat where
  "epsilon = 1 / 2 ^ 52"

definition trunc :: "rat \<Rightarrow> int" where
  "trunc n = (if n < 0 then - \<lfloor>- n\<rfloor> else \<lfloor>n\<rfloor>)"

definition index_array :: "('e, 'v) array_env \<Rightarrow> ('e, 'v) view \<Rightarrow> rat \<Rightarrow> ('e index_error + 'v) run" where
  "index_array env arr n =
     (if n - of_int (trunc n) > epsilon then Done (Inl Fractional_Index)
      else run_bind (len32 env arr) (\<lambda>len.
        if n < 0 \<or> n > of_int (uint len) then Done (Inl (Array_Bounds_Error n len))
        else run_bind (get32 env arr (of_int (trunc n))) (\<lambda>r.
          Done (case r of
                  Inl e \<Rightarrow> Inl (Element_Error e)
                | Inr None \<Rightarrow> Inl (Array_Bounds_Error n len)
                | Inr (Some v) \<Rightarrow> Inr v))))"

lemma trunc_of_int [simp]: "trunc (of_int k) = k"
  by (simp add: trunc_def)

lemma trunc_of_nat [simp]: "trunc (of_nat k) = int k"
  using trunc_of_int [of "int k"] by simp

text \<open>
  The end of \<open>slice\<close>'s range is taken one too low: \<open>map_bound\<close> makes the excluded end inclusive,
  and \<open>slice32\<close> excludes it again.
\<close>


lemma sint_of_small: "0 \<le> n \<Longrightarrow> n < 2 ^ 31 \<Longrightarrow> sint (of_int n :: i32) = n"
  by (simp add: signed_of_int signed_take_bit_int_eq_self)

lemma clamped_small:
  assumes "k < 2 ^ 31"
  shows "clamped (Some (of_nat k)) n d = min n k"
proof -
  have "sint (of_nat k :: i32) = int k"
    using sint_of_small [of "int k"] assms by simp
  then show ?thesis by (simp add: clamped_def of_nat_min [symmetric] del: of_nat_min)
qed

lemma slice_half_open:
  assumes "view_ok env v" "a < 2 ^ 31" "0 < b" "b < 2 ^ 31"
  shows "\<exists>w. slice env v (Included a) (Excluded b) = Done w \<and> view_ok env w \<and>
             elems env w = drop (min (length (elems env v)) a) (take (b - 1) (elems env v))"
proof -
  have "map_bound True (Included a) = Some (of_nat a)"
    using assms(2) by (simp add: map_bound_def i32_of_usize_def)
  moreover have "map_bound False (Excluded b) = Some (of_nat (b - 1))"
    using assms(3,4) by (simp add: map_bound_def i32_of_usize_def of_nat_diff)
  moreover have "slice_elems (elems env v) (Some (of_nat a)) (Some (of_nat (b - 1))) None =
      drop (min (length (elems env v)) a) (take (b - 1) (elems env v))"
    using assms(2,4) by (simp add: slice_elems_def clamped_small min_def)
  ultimately show ?thesis
    using slice32_elems [OF assms(1), of None "Some (of_nat a)" "Some (of_nat (b - 1))"]
    by (simp add: slice_def)
qed

section \<open>Properties\<close>

definition int_env :: "(string, int) array_env" where
  "int_env = \<lparr>overflow_checks = True, num_val = (\<lambda>i. i), key_value_val = (\<lambda>k r. 0)\<rparr>"

definition tens :: "(string, int) view" where
  "tens = Vec_Array [Inr 10, Inl ''boom'', Inr 30, Inr 40, Inr 50]"

text \<open>
  C11. Every array view agrees with the list it stands for: iterating it gives that list and
  indexing gives the element at that place, without a panic, whatever tree of slices, reversals,
  repetitions and concatenations it is.
\<close>

theorem view_is_its_elements:
  assumes "view_ok env v" "k < length (elems env v)"
  shows "iter_lazy env v = Done (elems env v) \<and> view_get_lazy env v k = Done (Some (elems env v ! k))"
proof -
  have k: "k < 2 ^ 32" using assms(2) views.fits [OF assms(1)] by simp
  then have "unat (of_nat k :: u32) = k" by (simp add: u32_unat_of_nat)
  then show ?thesis
    using k views.get_ok [OF assms(1), of "of_nat k"] assms(2)
    by (simp add: view_get_lazy_def iter_lazy_elems [OF assms(1)])
qed

definition backwards :: "(string, int) view" where
  "backwards = Reverse_Array (Repeated_Array (Slice_Array tens 1 4 2) 2 4)"

theorem view_is_its_elements_witness:
  "view_get_lazy int_env backwards 1 = Done (Some (elems int_env backwards ! 1)) \<and>
   elems int_env backwards ! 1 = Inl ''boom''"
proof -
  have slice: "elems int_env (Slice_Array tens 1 4 2) = [Inl ''boom'', Inr 40]"
    by code_simp
  then have "view_ok int_env backwards"
    by (simp add: backwards_def tens_def)
  moreover have "elems int_env backwards = [Inr 40, Inl ''boom'', Inr 40, Inl ''boom'']"
    by code_simp
  ultimately show ?thesis using view_is_its_elements [of int_env backwards 1] by simp
qed

text \<open>
  \<open>slice32\<close> is the documented slice: negative positions count from the end, positions are
  clamped to the array, and every \<open>step\<close>-th element of the window is taken.
\<close>

theorem slice32_selects:
  assumes "view_ok env v" "step \<noteq> Some 0"
  shows "run_bind (slice32 env v index stop step) (iter_lazy env) =
         Done (slice_elems (elems env v) index stop step)"
  using slice32_elems [OF assms, of index stop] by (auto simp: iter_lazy_elems)

theorem slice32_selects_witness:
  "run_bind (slice32 int_env tens (Some (- 4)) (Some 9) (Some 2)) (iter_lazy int_env) =
   Done [Inl ''boom'', Inr 40]"
proof -
  have "view_ok int_env tens" by (simp add: tens_def)
  moreover have "slice_elems (elems int_env tens) (Some (- 4)) (Some 9) (Some 2) = [Inl ''boom'', Inr 40]"
    by code_simp
  ultimately show ?thesis
    using slice32_selects [of int_env tens "Some 2" "Some (- 4)" "Some 9"] by simp
qed

text \<open>
  \<open>a + b\<close> on arrays is list concatenation and can only be refused beyond the 32-bit length.
\<close>

theorem extended_concatenates:
  assumes "view_ok env a" "view_ok env b" "length (elems env a) + length (elems env b) < 2 ^ 32"
  shows "\<exists>v. extended env a b = Done (Some v) \<and> view_ok env v \<and>
             iter_lazy env v = Done (elems env a @ elems env b)"
  using extended_elems [OF assms] by (auto simp: iter_lazy_elems)

theorem extended_concatenates_witness:
  "\<exists>v. extended int_env tens (Range_Array 1 2) = Done (Some v) \<and> view_ok int_env v \<and>
       iter_lazy int_env v = Done (elems int_env tens @ [Inr 1, Inr 2])"
proof -
  have "elems int_env (Range_Array 1 2) = [Inr 1, Inr (2 :: int)]"
    by (simp add: int_env_def upto.simps)
  then show ?thesis
    using extended_concatenates [of int_env tens "Range_Array 1 2"] by (simp add: tens_def)
qed

text \<open>
  C23. \<open>filter\<close> keeps the elements its predicate accepts, in order, and fails with the predicate's
  first error: reading values eagerly and starting over on the thunks when an element fails
  does not change the result.
\<close>

theorem filter_keeps:
  assumes "view_ok env v" "no_pairs v"
  shows "view_filter env v f = Done (and_then (kept f (elems env v)) (\<lambda>out. Inr (Vec_Array out)))"
  by (rule view_filter_kept [OF assms])

theorem filter_keeps_witness:
  "view_filter int_env tens (\<lambda>r. Inr (r \<noteq> Inr 40)) =
   Done (Inr (Vec_Array [Inr 10, Inl ''boom'', Inr 30, Inr 50]))"
  using filter_keeps [of int_env tens "\<lambda>r. Inr (r \<noteq> Inr 40)"] by (simp add: tens_def)

text \<open>
  In the pattern \<open>[s1, ..., ...rest, e1, ...]\<close> the rest loses its last element: it is the
  array between the start and the end names without the element before the end names.
\<close>

theorem destruct_rest_loses_last:
  assumes "view_ok env v" "start_len + end_len < length (elems env v)" "length (elems env v) < 2 ^ 31"
  shows "run_bind (destruct_rest env v start_len end_len) (iter_lazy env) =
         Done (drop start_len (take (length (elems env v) - end_len - 1) (elems env v)))"
proof -
  let ?b = "length (elems env v) - end_len"
  have "start_len < 2 ^ 31" "0 < ?b" "?b < 2 ^ 31" using assms(2,3) by simp_all
  from slice_half_open [OF assms(1) this] obtain w where
    "slice env v (Included start_len) (Excluded ?b) = Done w" "view_ok env w"
    "elems env w = drop (min (length (elems env v)) start_len) (take (?b - 1) (elems env v))"
    by blast
  then show ?thesis using assms(2)
    by (simp add: destruct_rest_def views.len_ok [OF assms(1)] views.unat_len [OF assms(1)]
      iter_lazy_elems min_def)
qed

theorem destruct_rest_loses_last_witness:
  "run_bind (destruct_rest int_env tens 1 1) (iter_lazy int_env) = Done [Inl ''boom'', Inr 30]"
  using destruct_rest_loses_last [of int_env tens 1 1] by (simp add: tens_def)



text \<open>
  C25. The index equal to the length is let through, so a slice with an end inside its array answers
  it with the element after the slice.
\<close>

theorem index_past_slice:
  assumes "view_ok env (Slice_Array inner from to 1)" "no_pairs inner"
    and "unat to < length (elems env inner)" "elems env inner ! unat to = Inr v"
  shows "index_array env (Slice_Array inner from to 1) (of_nat (unat to - unat from)) = Done (Inr v)"
proof -
  have ok: "view_ok env inner" "unat from < unat to" using assms(1) by auto
  have sub: "unat (to - from) = unat to - unat from" using ok(2) by (simp add: u32_unat_sub)
  have len: "len32 env (Slice_Array inner from to 1) = Done (to - from)"
    using ok(2) by (simp add: u32_div_ceil_def)
  have "uint (to - from) = int (unat to - unat from)" by (simp flip: sub)
  then have "\<not> (of_nat (unat to - unat from) < (0 :: rat) \<or>
      of_nat (unat to - unat from) > (of_int (uint (to - from)) :: rat))"
    by (simp only: of_int_of_nat_eq) simp
  moreover have "of_int (int (unat to - unat from)) = to - from" by (simp flip: sub)
  moreover have "slice_map_idx (overflow_checks env) from 1 (to - from) = Done to"
    using sub ok(2) less_imp_diff_less [OF u32_unat_less [of to]]
    by (simp add: slice_map_idx_def u32_mul_def u32_add_def not_le)
  moreover have "get32 env inner to = Done (Inr (Some v))"
    using views.get_ok [OF ok(1) assms(3)] assms(4) get32_forces [OF assms(2)] by simp
  moreover have "\<not> (of_nat (unat to - unat from) - of_int (trunc (of_nat (unat to - unat from))) > epsilon)"
    by (simp add: epsilon_def)
  ultimately show ?thesis unfolding index_array_def len
    by (simp only: if_False run_bind_simps trunc_of_nat get32.simps) simp
qed

theorem index_past_slice_witness:
  "index_array int_env (Slice_Array tens 1 3 1) 2 = Done (Inr 40)"
  using index_past_slice [of int_env tens 1 3 40]
  by (simp add: tens_def)

end
