(* ===== verification/Array_Caches.thy ===== *)
theory Array_Caches
  imports Array_Views
begin

text \<open>
  Lazy cells of the Jsonnet interpreter: the memoised thunk (\<open>MemoizedClosureThunk\<close> of
  \<open>crates/jrsonnet-evaluator/src/val.rs\<close>) and the arrays that compute an element at its first use
  and keep it (\<open>ExprArray\<close>, \<open>MappedArray\<close>, \<open>MakeArray\<close> of \<open>arr/spec.rs\<close>). The code of an
  element may read cells of the same store again, so it is a \<open>calc\<close>: a result, or a read and what
  to do with the answer. Since a read may lead back to the cell being computed, evaluation takes
  fuel; \<open>cell_get_returns\<close> shows that one more than the number of waiting cells is enough.
\<close>

section \<open>Cells and computations\<close>

datatype 'e eval_error = Infinite_Recursion | Other_Error 'e

datatype ('e, 'v) array_thunk = Computed 'v | Errored "'e eval_error" | Waiting | Pending

type_synonym ('e, 'v) result = "'e eval_error + 'v"

datatype ('e, 'v, 'a) calc = Give 'a | Ask nat "('e, 'v) result \<Rightarrow> ('e, 'v, 'a) calc"

type_synonym ('e, 'v) cells = "('e, 'v) array_thunk list"


text \<open>A computation over the cells: \<open>read\<close> answers its reads, \<open>None\<close> is running out of fuel.\<close>

primrec run_calc ::
    "(nat \<Rightarrow> ('e, 'v) cells \<Rightarrow> (('e, 'v) result \<times> ('e, 'v) cells) option) \<Rightarrow> ('e, 'v, 'a) calc \<Rightarrow>
     ('e, 'v) cells \<Rightarrow> ('a \<times> ('e, 'v) cells) option" where
  "run_calc read (Give x) cells = Some (x, cells)"
| "run_calc read (Ask i k) cells =
     (case read i cells of None \<Rightarrow> None | Some (r, cells') \<Rightarrow> run_calc read (k r) cells')"

text \<open>
  The \<open>get\<close> of a cell. \<open>on_error\<close> is the state left by a failing computation: the thunk and the
  mapped and made arrays keep the error, an expression array waits again.
\<close>

fun cell_get ::
    "('e eval_error \<Rightarrow> ('e, 'v) array_thunk) \<Rightarrow> (nat \<Rightarrow> ('e, 'v, ('e, 'v) result) calc) \<Rightarrow> nat \<Rightarrow> nat \<Rightarrow>
     ('e, 'v) cells \<Rightarrow> (('e, 'v) result \<times> ('e, 'v) cells) option" where
  "cell_get on_error compute 0 i cells = None"
| "cell_get on_error compute (Suc fuel) i cells =
     (case cells ! i of
        Computed v \<Rightarrow> Some (Inr v, cells)
      | Errored e \<Rightarrow> Some (Inl e, cells)
      | Pending \<Rightarrow> Some (Inl Infinite_Recursion, cells)
      | Waiting \<Rightarrow>
          (case run_calc (cell_get on_error compute fuel) (compute i) (cells[i := Pending]) of
             None \<Rightarrow> None
           | Some (Inr v, cells') \<Rightarrow> Some (Inr v, cells'[i := Computed v])
           | Some (Inl e, cells') \<Rightarrow> Some (Inl e, cells'[i := on_error e])))"

text \<open>\<open>MemoizedClosureThunk::get\<close>; the cells are the thunks of the heap.\<close>

definition thunk_new :: "('e, 'v) array_thunk" where
  "thunk_new = Waiting"

definition thunk_get ::
    "(nat \<Rightarrow> ('e, 'v, ('e, 'v) result) calc) \<Rightarrow> nat \<Rightarrow> nat \<Rightarrow> ('e, 'v) cells \<Rightarrow>
     (('e, 'v) result \<times> ('e, 'v) cells) option" where
  "thunk_get closure = cell_get Errored closure"

section \<open>The caching arrays\<close>

definition cached_new :: "nat \<Rightarrow> ('e, 'v) cells" where
  "cached_new len = replicate len Waiting"

definition cached_len32 :: "bool \<Rightarrow> ('e, 'v) cells \<Rightarrow> u32 run" where
  "cached_len32 checks cells = arridx checks (length cells)"

text \<open>\<open>get32\<close> of a caching array: out of range is \<open>Ok(None)\<close>.\<close>

definition cached_get32 ::
    "('e eval_error \<Rightarrow> ('e, 'v) array_thunk) \<Rightarrow> (nat \<Rightarrow> ('e, 'v, ('e, 'v) result) calc) \<Rightarrow> nat \<Rightarrow> bool \<Rightarrow>
     u32 \<Rightarrow> ('e, 'v) cells \<Rightarrow> (('e, 'v option) result \<times> ('e, 'v) cells) option run" where
  "cached_get32 on_error compute fuel checks index cells =
     run_bind (cached_len32 checks cells) (\<lambda>len.
       Done (if index \<ge> len then Some (Inr None, cells)
             else map_option (\<lambda>(r, cells'). (and_then r (\<lambda>v. Inr (Some v)), cells'))
                    (cell_get on_error compute fuel (unat index) cells)))"

definition expr_array_get32 where
  "expr_array_get32 evaluate = cached_get32 (\<lambda>e. Waiting) evaluate"

definition make_array_get32 where
  "make_array_get32 mapper = cached_get32 Errored (\<lambda>i. mapper (of_nat i :: u32))"





text \<open>\<open>get_lazy32\<close> of a caching array: the cached outcome, or a thunk that calls \<open>get32\<close> later.\<close>

datatype ('e, 'v) lazy_elem = Evaluated 'v | Failed "'e eval_error" | Deferred u32

definition cached_get_lazy32 :: "bool \<Rightarrow> u32 \<Rightarrow> ('e, 'v) cells \<Rightarrow> ('e, 'v) lazy_elem option run" where
  "cached_get_lazy32 checks index cells =
     run_bind (cached_len32 checks cells) (\<lambda>len.
       Done (if index \<ge> len then None
             else case cells ! unat index of
               Computed v \<Rightarrow> Some (Evaluated v)
             | Errored e \<Rightarrow> Some (Failed e)
             | _ \<Rightarrow> Some (Deferred index)))"

definition settled :: "('e eval_error \<Rightarrow> ('e, 'v) array_thunk) \<Rightarrow> ('e, 'v) result \<Rightarrow> ('e, 'v) array_thunk" where
  "settled on_error q = (case q of Inr v \<Rightarrow> Computed v | Inl e \<Rightarrow> on_error e)"

lemma cell_get_Waiting:
  "c ! i = Waiting \<Longrightarrow> cell_get on_error compute (Suc fuel) i c =
     (case run_calc (cell_get on_error compute fuel) (compute i) (c[i := Pending]) of
        None \<Rightarrow> None
      | Some (q, d) \<Rightarrow> Some (q, d[i := settled on_error q]))"
  by (auto simp: settled_def split: option.splits sum.splits)

section \<open>Evaluation only fills waiting cells\<close>

definition filled :: "('e, 'v) cells \<Rightarrow> ('e, 'v) cells \<Rightarrow> bool" where
  "filled c c' \<longleftrightarrow> length c' = length c \<and>
     (\<forall>j < length c. (c ! j \<noteq> Waiting \<longrightarrow> c' ! j = c ! j) \<and> (c' ! j = Pending \<longrightarrow> c ! j = Pending))"

lemma filled_refl [simp]: "filled c c"
  by (simp add: filled_def)

lemma filled_trans: "filled a b \<Longrightarrow> filled b c \<Longrightarrow> filled a c"
  unfolding filled_def by metis

lemma filled_length: "filled c c' \<Longrightarrow> length c' = length c"
  by (simp add: filled_def)

text \<open>The reads of a computation stay inside the store of \<open>n\<close> cells.\<close>

primrec reads_below :: "nat \<Rightarrow> ('e, 'v, 'a) calc \<Rightarrow> bool" where
  "reads_below n (Give x) = True"
| "reads_below n (Ask i k) = (i < n \<and> (\<forall>r. reads_below n (k r)))"

lemma filled_run:
  assumes "\<And>i c r c'. i < n \<Longrightarrow> length c = n \<Longrightarrow> read i c = Some (r, c') \<Longrightarrow> filled c c'"
  shows "reads_below n p \<Longrightarrow> length c = n \<Longrightarrow> run_calc read p c = Some (x, c') \<Longrightarrow> filled c c'"
proof (induction p arbitrary: c)
  case (Ask i k)
  then obtain r d where d: "read i c = Some (r, d)" "run_calc read (k r) d = Some (x, c')"
    by (auto split: option.splits prod.splits)
  have "filled c d" using assms [OF _ _ d(1)] Ask.prems by simp
  moreover have "filled d c'"
    using Ask.IH [OF rangeI _ _ d(2)] Ask.prems filled_length [OF \<open>filled c d\<close>] by simp
  ultimately show ?case by (rule filled_trans)
qed simp

lemma filled_store:
  assumes "i < length c" "c ! i = Waiting" "filled (c[i := Pending]) d" "s \<noteq> Pending"
  shows "filled c (d[i := s])"
proof -
  have "(c ! j \<noteq> Waiting \<longrightarrow> d[i := s] ! j = c ! j) \<and> (d[i := s] ! j = Pending \<longrightarrow> c ! j = Pending)"
    if j: "j < length c" for j
  proof (cases "j = i")
    case True
    moreover have "d[i := s] ! i = s" using filled_length [OF assms(3)] assms(1) by simp
    ultimately show ?thesis using assms(2,4) by simp
  next
    case False
    then have eq: "c[i := Pending] ! j = c ! j" "d[i := s] ! j = d ! j" by simp_all
    have "(c[i := Pending] ! j \<noteq> Waiting \<longrightarrow> d ! j = c[i := Pending] ! j) \<and>
        (d ! j = Pending \<longrightarrow> c[i := Pending] ! j = Pending)"
      using assms(3) j unfolding filled_def length_list_update by blast
    then show ?thesis unfolding eq .
  qed
  moreover have "length d = length c" using filled_length [OF assms(3)] by simp
  ultimately show ?thesis unfolding filled_def length_list_update by blast
qed

text \<open>A run that reads less waiting cells than the fuel returns.\<close>

definition waiting :: "('e, 'v) cells \<Rightarrow> nat" where
  "waiting c = card {j. j < length c \<and> c ! j = Waiting}"

lemma filled_waiting: "filled c c' \<Longrightarrow> waiting c' \<le> waiting c"
  unfolding waiting_def filled_def by (rule card_mono) auto

lemma waiting_le: "waiting c \<le> length c"
  unfolding waiting_def using card_mono [of "{..<length c}" "{j. j < length c \<and> c ! j = Waiting}"] by auto

lemma waiting_pending:
  assumes "i < length c" "c ! i = Waiting"
  shows "Suc (waiting (c[i := Pending])) = waiting c"
proof -
  let ?W = "{j. j < length c \<and> c ! j = Waiting}"
  have "{j. j < length (c[i := Pending]) \<and> c[i := Pending] ! j = Waiting} = ?W - {i}"
    using assms(1) by (auto simp: nth_list_update split: if_splits)
  moreover have "Suc (card (?W - {i})) = card ?W"
    using assms by (intro card_Suc_Diff1) auto
  ultimately show ?thesis by (simp add: waiting_def)
qed

section \<open>What a cell evaluates to without caching\<close>

text \<open>
  The specification: a cell's value is its computation with every read answered by evaluating the
  cell read again. It exists for cells that do not depend on themselves.
\<close>

primrec plain_run :: "(nat \<Rightarrow> ('e, 'v) result option) \<Rightarrow> ('e, 'v, 'a) calc \<Rightarrow> 'a option" where
  "plain_run answer (Give x) = Some x"
| "plain_run answer (Ask i k) = (case answer i of None \<Rightarrow> None | Some r \<Rightarrow> plain_run answer (k r))"

primrec plain_value :: "(nat \<Rightarrow> ('e, 'v, ('e, 'v) result) calc) \<Rightarrow> nat \<Rightarrow> nat \<Rightarrow> ('e, 'v) result option" where
  "plain_value compute 0 = (\<lambda>i. None)"
| "plain_value compute (Suc depth) = (\<lambda>i. plain_run (plain_value compute depth) (compute i))"

lemma plain_run_mono:
  "(\<And>i r. f i = Some r \<Longrightarrow> g i = Some r) \<Longrightarrow> plain_run f p = Some x \<Longrightarrow> plain_run g p = Some x"
  by (induction p) (auto split: option.splits)

lemma plain_value_Suc: "plain_value compute n i = Some r \<Longrightarrow> plain_value compute (Suc n) i = Some r"
proof (induction n arbitrary: i r)
  case (Suc n)
  then show ?case
    unfolding plain_value.simps(2) [of compute "Suc n"] plain_value.simps(2) [of compute n]
    by (elim plain_run_mono [rotated]) simp
qed simp

lemma plain_value_mono: "plain_value compute n i = Some r \<Longrightarrow> n \<le> m \<Longrightarrow> plain_value compute m i = Some r"
  by (induction m) (auto simp: le_Suc_eq simp del: plain_value.simps dest: plain_value_Suc)

text \<open>What is cached is right: the invariant between evaluations.\<close>

definition cell_right :: "(nat \<Rightarrow> ('e, 'v, ('e, 'v) result) calc) \<Rightarrow> nat \<Rightarrow> ('e, 'v) array_thunk \<Rightarrow> bool" where
  "cell_right compute j s =
     (case s of
        Computed v \<Rightarrow> \<exists>n. plain_value compute n j = Some (Inr v)
      | Errored e \<Rightarrow> \<exists>n. plain_value compute n j = Some (Inl e)
      | _ \<Rightarrow> True)"

definition faithful :: "(nat \<Rightarrow> ('e, 'v, ('e, 'v) result) calc) \<Rightarrow> ('e, 'v) cells \<Rightarrow> bool" where
  "faithful compute c \<longleftrightarrow> (\<forall>j < length c. cell_right compute j (c ! j))"

lemma plain_value_unique:
  assumes "plain_value compute n i = Some r" "plain_value compute m i = Some q"
  shows "r = q"
  using plain_value_mono [OF assms(1), of "max n m"] plain_value_mono [OF assms(2), of "max n m"] by simp

lemma faithful_store: "faithful compute c \<Longrightarrow> cell_right compute i s \<Longrightarrow> faithful compute (c[i := s])"
  unfolding faithful_def by (metis length_list_update nth_list_update_eq nth_list_update_neq)

lemma cell_right_simps [simp]:
  "cell_right compute j Waiting" "cell_right compute j Pending"
  by (simp_all add: cell_right_def)

section \<open>The policies\<close>

text \<open>
  What the proofs need of \<open>on_error\<close>: a failed cell keeps that very error or waits again.
\<close>

locale memo_policy =
  fixes on_error :: "'e eval_error \<Rightarrow> ('e, 'v) array_thunk"
  assumes on_error: "on_error e = Errored e \<or> on_error e = Waiting"
begin

lemma on_error_neq [simp]: "on_error e \<noteq> Pending" "on_error e \<noteq> Computed v"
  using on_error [of e] by auto

lemma on_error_eq: "on_error e = Errored d \<Longrightarrow> d = e"
  using on_error [of e] by auto

lemma get_filled:
  fixes compute :: "nat \<Rightarrow> ('e, 'v, ('e, 'v) result) calc"
  assumes "\<And>j. j < n \<Longrightarrow> reads_below n (compute j)"
  shows "i < n \<Longrightarrow> length c = n \<Longrightarrow> cell_get on_error compute fuel i c = Some (r, c') \<Longrightarrow> filled c c'"
proof (induction fuel arbitrary: i c r c')
  case (Suc fuel)
  show ?case
  proof (cases "c ! i")
    case Waiting
    from Suc.prems(3) [unfolded cell_get_Waiting [OF Waiting]] obtain d where run:
        "run_calc (cell_get on_error compute fuel) (compute i) (c[i := Pending]) = Some (r, d)"
      and c': "c' = d[i := settled on_error r]"
      by (auto split: option.splits)
    have "filled (c[i := Pending]) d"
      by (rule filled_run [OF Suc.IH _ _ run, of n]) (use assms Suc.prems(1,2) in simp_all)
    moreover have "settled on_error r \<noteq> Pending" by (cases r) (simp_all add: settled_def)
    ultimately show ?thesis unfolding c' using Suc.prems(1,2) Waiting by (intro filled_store) simp_all
  qed (use Suc.prems in auto)
qed simp

lemma get_returns:
  fixes compute :: "nat \<Rightarrow> ('e, 'v, ('e, 'v) result) calc"
  assumes "\<And>j. j < n \<Longrightarrow> reads_below n (compute j)"
  shows "i < n \<Longrightarrow> length c = n \<Longrightarrow> waiting c < fuel \<Longrightarrow> \<exists>r c'. cell_get on_error compute fuel i c = Some (r, c')"
proof (induction fuel arbitrary: i c)
  case (Suc fuel)
  have run: "\<exists>x d. run_calc (cell_get on_error compute fuel) p b = Some (x, d)"
    if "reads_below n p" "length b = n" "waiting b < fuel" for p :: "('e, 'v, ('e, 'v) result) calc" and b
    using that
  proof (induction p arbitrary: b)
    case (Ask j k)
    then obtain r d where d: "cell_get on_error compute fuel j b = Some (r, d)"
      using Suc.IH by (metis reads_below.simps(2))
    have "filled b d" using get_filled [OF assms _ _ d] Ask.prems by simp
    then have "length d = n" "waiting d < fuel"
      using Ask.prems filled_length filled_waiting by fastforce+
    then show ?case using d Ask.IH [OF rangeI, of r d] Ask.prems by simp
  qed simp
  show ?case
  proof (cases "c ! i")
    case Waiting
    have "waiting (c[i := Pending]) < fuel"
      using waiting_pending [of i c] Waiting Suc.prems by simp
    then obtain q d where "run_calc (cell_get on_error compute fuel) (compute i) (c[i := Pending]) = Some (q, d)"
      using run [of "compute i" "c[i := Pending]"] assms Suc.prems by auto
    then show ?thesis unfolding cell_get_Waiting [OF Waiting] by simp
  qed auto
qed simp

end

lemma run_plain:
  fixes p :: "('e, 'v, 'a) calc"
  assumes read: "\<And>j q b. plain_value compute k j = Some q \<Longrightarrow> j < n \<Longrightarrow> length b = n \<Longrightarrow> faithful compute b \<Longrightarrow>
      (\<And>l. l < n \<Longrightarrow> b ! l = Pending \<Longrightarrow> plain_value compute k l = None) \<Longrightarrow>
      \<exists>d. read j b = Some (q, d) \<and> filled b d \<and> faithful compute d"
  shows "plain_run (plain_value compute k) p = Some x \<Longrightarrow> reads_below n p \<Longrightarrow> length b = n \<Longrightarrow>
      faithful compute b \<Longrightarrow> (\<And>l. l < n \<Longrightarrow> b ! l = Pending \<Longrightarrow> plain_value compute k l = None) \<Longrightarrow>
      \<exists>d. run_calc read p b = Some (x, d) \<and> filled b d \<and> faithful compute d"
proof (induction p arbitrary: b)
  case (Ask j g)
  from Ask.prems(1) obtain q where q: "plain_value compute k j = Some q"
    "plain_run (plain_value compute k) (g q) = Some x"
    by (auto split: option.splits)
  obtain d where d: "read j b = Some (q, d)" "filled b d" "faithful compute d"
    using read [OF q(1) _ Ask.prems(3,4,5)] Ask.prems(2) by auto
  have len: "length d = n" using filled_length [OF d(2)] Ask.prems(3) by simp
  have pend: "plain_value compute k l = None" if "l < n" "d ! l = Pending" for l
    using Ask.prems(3,5) that d(2) unfolding filled_def by metis
  obtain e where "run_calc read (g q) d = Some (x, e)" "filled d e" "faithful compute e"
    using Ask.IH [OF rangeI q(2) _ len d(3) pend] Ask.prems(2) by auto
  with d show ?case using filled_trans by auto
qed simp

lemma first_depth:
  "plain_value compute m i = Some r \<Longrightarrow>
     \<exists>k. Suc k \<le> m \<and> plain_value compute (Suc k) i = Some r \<and> plain_value compute k i = None"
proof (induction m)
  case (Suc m)
  show ?case
  proof (cases "plain_value compute m i")
    case (Some q)
    then have "q = r" using plain_value_unique Suc.prems by metis
    then show ?thesis using Suc.IH Some by (metis le_Suc_eq)
  qed (use Suc.prems in auto)
qed simp

context memo_policy
begin

lemma get_plain:
  fixes compute :: "nat \<Rightarrow> ('e, 'v, ('e, 'v) result) calc"
  assumes closed: "\<And>j. j < n \<Longrightarrow> reads_below n (compute j)"
  shows "plain_value compute m i = Some r \<Longrightarrow> i < n \<Longrightarrow> length c = n \<Longrightarrow> faithful compute c \<Longrightarrow>
      (\<And>l. l < n \<Longrightarrow> c ! l = Pending \<Longrightarrow> plain_value compute m l = None) \<Longrightarrow> m \<le> fuel \<Longrightarrow>
      \<exists>c'. cell_get on_error compute fuel i c = Some (r, c') \<and> filled c c' \<and> faithful compute c'"
proof (induction m arbitrary: i r c fuel rule: less_induct)
  case (less m)
  obtain k where k: "Suc k \<le> m" "plain_value compute (Suc k) i = Some r" "plain_value compute k i = None"
    using first_depth [OF less.prems(1)] by blast
  then obtain f where f: "fuel = Suc f" "k \<le> f" using less.prems(6) by (cases fuel) auto
  have right: "cell_right compute i (c ! i)" using less.prems(2,3,4) by (simp add: faithful_def)
  show ?case
  proof (cases "c ! i")
    case (Computed v)
    then have "r = Inr v" using right plain_value_unique [OF k(2)] by (auto simp: cell_right_def)
    then show ?thesis using f less.prems(4) Computed by simp
  next
    case (Errored e)
    then have "r = Inl e" using right plain_value_unique [OF k(2)] by (auto simp: cell_right_def)
    then show ?thesis using f less.prems(4) Errored by simp
  next
    case Pending
    then show ?thesis using less.prems(1,2,5) by simp
  next
    case Waiting
    let ?b = "c[i := Pending]"
    have pend: "plain_value compute k l = None" if "l < n" "?b ! l = Pending" for l
    proof (cases "l = i")
      case False
      then have "plain_value compute m l = None" using that less.prems(5) by simp
      then show ?thesis using k(1) plain_value_mono [of compute k l _ m] by (cases "plain_value compute k l") auto
    qed (use k(3) in simp)
    have "plain_run (plain_value compute k) (compute i) = Some r" using k(2) by simp
    moreover have "faithful compute ?b" using less.prems(4) by (intro faithful_store) simp_all
    ultimately obtain d where d: "run_calc (cell_get on_error compute f) (compute i) ?b = Some (r, d)"
      "filled ?b d" "faithful compute d"
      using run_plain [of compute k n "cell_get on_error compute f" "compute i" r ?b]
        less.IH [of k _ _ _ f] k(1) f(2) closed less.prems(2,3) pend by fastforce
    have "cell_right compute i (settled on_error r)"
      using k(2) by (cases r) (auto dest: on_error_eq simp: settled_def cell_right_def simp del: plain_value.simps split: array_thunk.splits)
    then have "faithful compute (d[i := settled on_error r])" using d(3) by (rule faithful_store [rotated])
    moreover have "filled c (d[i := settled on_error r])"
      using less.prems(2,3) Waiting d(2) by (intro filled_store) (auto simp: settled_def split: sum.splits)
    ultimately show ?thesis unfolding f(1) cell_get_Waiting [OF Waiting] d(1) by simp
  qed
qed

end

interpretation keep_error: memo_policy Errored
  by unfold_locales simp

interpretation forget_error: memo_policy "\<lambda>e. Waiting"
  by unfold_locales simp

lemma get_settles:
  assumes "cell_get Errored compute fuel i c = Some (r, c')" "i < length c" "length c' = length c" "c ! i \<noteq> Pending"
  shows "c' ! i = (case r of Inr v \<Rightarrow> Computed v | Inl e \<Rightarrow> Errored e)"
proof (cases fuel)
  case (Suc f)
  show ?thesis
  proof (cases "c ! i")
    case Waiting
    then obtain d where "c' = d[i := settled Errored r]"
      using assms(1) unfolding Suc cell_get_Waiting [OF Waiting] by (auto split: option.splits)
    then show ?thesis using assms(2,3) by (simp add: settled_def)
  next
    case Pending
    then show ?thesis using assms(4) by simp
  next
    case (Computed v)
    with assms(1) Suc have "r = Inr v \<and> c' = c" by simp
    with Computed show ?thesis by simp
  next
    case (Errored e)
    with assms(1) Suc have "r = Inl e \<and> c' = c" by simp
    with Errored show ?thesis by simp
  qed
qed (use assms(1) in simp)

section \<open>Properties\<close>

definition closed_store :: "nat \<Rightarrow> (nat \<Rightarrow> ('e, 'v, ('e, 'v) result) calc) \<Rightarrow> bool" where
  "closed_store n compute \<longleftrightarrow> (\<forall>j < n. reads_below n (compute j))"

text \<open>
  C21. Reading a lazy cell returns whatever its code reads, itself included: fuel for one level per
  waiting cell is enough, since a cell that is being computed is marked and never entered again.
\<close>

theorem thunk_get_returns:
  assumes "closed_store (length heap) closure" "i < length heap" "waiting heap < fuel"
  shows "\<exists>r heap'. thunk_get closure fuel i heap = Some (r, heap') \<and> filled heap heap'"
proof -
  have closed: "j < length heap \<Longrightarrow> reads_below (length heap) (closure j)" for j
    using assms(1) by (simp add: closed_store_def)
  obtain r heap' where r: "cell_get Errored closure fuel i heap = Some (r, heap')"
    using keep_error.get_returns [where compute = closure, OF closed assms(2) refl assms(3)] by blast
  with keep_error.get_filled [where compute = closure, OF closed assms(2) refl r] show ?thesis by (simp add: thunk_get_def)
qed

text \<open>Three thunks: the first reads the second, the second and the third read each other.\<close>

definition knot :: "nat \<Rightarrow> (string, int, (string, int) result) calc" where
  "knot i =
     (if i = 0 then Ask 3 (\<lambda>r. case r of Inl e \<Rightarrow> Give (Inl e) | Inr v \<Rightarrow> Give (Inr (v + 1)))
      else if i = 1 then Ask 2 Give
      else if i = 2 then Ask 1 Give
      else Give (Inr 41))"

lemma closed_knot: "closed_store 4 knot"
  by (auto simp: closed_store_def knot_def split: sum.splits)

theorem thunk_get_returns_witness:
  "\<exists>r heap'. thunk_get knot 5 1 (cached_new 4) = Some (r, heap') \<and> filled (cached_new 4) heap'"
proof -
  have "waiting (cached_new 4 :: (string, int) cells) < 5"
    using waiting_le [of "cached_new 4 :: (string, int) cells"] by (simp add: cached_new_def)
  then show ?thesis
    using thunk_get_returns [of "cached_new 4" knot 1 5] closed_knot by (simp add: cached_new_def)
qed

text \<open>
  C14. Memoisation is transparent: a cell that does not depend on itself has, whatever was computed
  before, the value its code gives when every read is computed again, and the store stays right.
\<close>

theorem memoised_is_plain:
  assumes "closed_store (length heap) closure" "i < length heap" "faithful closure heap"
    and "\<And>j. j < length heap \<Longrightarrow> heap ! j \<noteq> Pending"
    and "plain_value closure depth i = Some r" "depth \<le> fuel"
  shows "\<exists>heap'. thunk_get closure fuel i heap = Some (r, heap') \<and> faithful closure heap' \<and>
           (\<forall>fuel' > 0. thunk_get closure fuel' i heap' = Some (r, heap'))"
proof -
  have closed: "j < length heap \<Longrightarrow> reads_below (length heap) (closure j)" for j
    using assms(1) by (simp add: closed_store_def)
  obtain heap' where h: "cell_get Errored closure fuel i heap = Some (r, heap')"
    "filled heap heap'" "faithful closure heap'"
    using keep_error.get_plain [where compute = closure, OF closed assms(5,2) refl assms(3) _ assms(6)] assms(4) by blast
  have "heap' ! i = (case r of Inr v \<Rightarrow> Computed v | Inl e \<Rightarrow> Errored e)"
    using get_settles [OF h(1) assms(2) filled_length [OF h(2)] assms(4) [OF assms(2)]] .
  then have "cell_get Errored closure fuel' i heap' = Some (r, heap')" if "fuel' > 0" for fuel'
    using that by (cases fuel'; cases r) simp_all
  with h show ?thesis by (simp add: thunk_get_def)
qed

theorem memoised_is_plain_witness:
  "\<exists>heap'. thunk_get knot 2 0 (cached_new 4) = Some (Inr 42, heap') \<and> faithful knot heap' \<and>
      (\<forall>fuel' > 0. thunk_get knot fuel' 0 heap' = Some (Inr 42, heap'))"
proof -
  have "plain_value knot 2 0 = Some (Inr 42)" by (simp add: knot_def numeral_eq_Suc)
  moreover have "faithful knot (cached_new 4)" "\<And>j. j < 4 \<Longrightarrow> cached_new 4 ! j \<noteq> Pending"
    by (simp_all add: faithful_def cached_new_def)
  ultimately show ?thesis
    using memoised_is_plain [of "cached_new 4" knot 0 2] closed_knot by (simp add: cached_new_def)
qed





end
