(* ===== verification/Rust_Order.thy ===== *)
theory Rust_Order
  imports Prelude "HOL-Library.Char_ord" "HOL-Library.List_Lexorder"
begin

text \<open>
  Rust's \<open>std::cmp::Ordering\<close> and the derived comparison of a linearly ordered type. Strings
  compare byte by byte, which is the lexicographic order of the library on character lists.
\<close>

section \<open>Orderings\<close>

datatype ordering = Less | Equal | Greater

fun flip :: "ordering \<Rightarrow> ordering" where
  "flip Less = Greater"
| "flip Equal = Equal"
| "flip Greater = Less"

definition compare_lin :: "'a::linorder \<Rightarrow> 'a \<Rightarrow> ordering" where
  "compare_lin a b = (if a < b then Less else if a = b then Equal else Greater)"

lemma compare_lin_simps [simp]:
  "compare_lin a b = Less \<longleftrightarrow> a < b"
  "compare_lin a b = Equal \<longleftrightarrow> a = b"
  "compare_lin a b = Greater \<longleftrightarrow> b < a"
  by (auto simp: compare_lin_def)

lemma compare_lin_flip: "flip (compare_lin a b) = compare_lin b a"
  by (auto simp: compare_lin_def)

end
