(* ===== verification/Jsonnet_Values.thy ===== *)
theory Jsonnet_Values
  imports Rust_Order
begin

text \<open>
  Jsonnet values and their comparisons: the rope strings and \<open>equals\<close> of
  \<open>crates/jrsonnet-evaluator/src/val.rs\<close>, the ordering \<open>evaluate_compare_op\<close> of
  \<open>evaluate/operator.rs\<close>. Arrays and objects hold what forcing an element gives, an error or a
  value, and the address that \<open>ptr_eq\<close> compares. Numbers are any linear order: comparing doubles
  is exact. Equality of numbers subtracts them; \<open>near\<close> stands for
  \<open>(a - b).abs() <= f64::EPSILON\<close>.
\<close>

section \<open>Rope strings\<close>

datatype str_value = Flat string | Tree str_value str_value nat

fun str_len :: "str_value \<Rightarrow> nat" where
  "str_len (Flat v) = length v"
| "str_len (Tree a b n) = n"

fun str_is_empty :: "str_value \<Rightarrow> bool" where
  "str_is_empty (Flat v) = (v = [])"
| "str_is_empty (Tree a b n) = False"

fun into_flat_in :: "str_value \<Rightarrow> string \<Rightarrow> string" where
  "into_flat_in (Flat f) out = out @ f"
| "into_flat_in (Tree a b n) out = into_flat_in b (into_flat_in a out)"

fun into_flat :: "str_value \<Rightarrow> string" where
  "into_flat (Flat f) = f"
| "into_flat (Tree a b n) = into_flat_in (Tree a b n) []"

fun str_chunks :: "str_value \<Rightarrow> string list" where
  "str_chunks (Flat f) = [f]"
| "str_chunks (Tree a b n) = str_chunks a @ str_chunks b"

fun str_display :: "str_value \<Rightarrow> string" where
  "str_display (Flat v) = v"
| "str_display (Tree a b n) = str_display a @ str_display b"

definition str_concat :: "str_value \<Rightarrow> str_value \<Rightarrow> str_value" where
  "str_concat a b =
     (if str_is_empty a then b
      else if str_is_empty b then a
      else if str_len a + str_len b < 100 then Flat (str_display a @ str_display b)
      else Tree a b (str_len a + str_len b))"

definition str_eq :: "str_value \<Rightarrow> str_value \<Rightarrow> bool" where
  "str_eq a b = (into_flat a = into_flat b)"

definition str_cmp :: "str_value \<Rightarrow> str_value \<Rightarrow> ordering" where
  "str_cmp a b = compare_lin (into_flat a) (into_flat b)"

text \<open>The stored lengths are right and no subtree is empty: what \<open>is_empty\<close> relies on.\<close>

fun str_ok :: "str_value \<Rightarrow> bool" where
  "str_ok (Flat v) = True"
| "str_ok (Tree a b n) =
     (str_ok a \<and> str_ok b \<and> \<not> str_is_empty a \<and> \<not> str_is_empty b \<and> n = str_len a + str_len b)"

lemma into_flat_in_display: "into_flat_in s out = out @ str_display s"
  by (induction s arbitrary: out) simp_all

lemma into_flat_display: "into_flat s = str_display s"
  by (cases s) (simp_all add: into_flat_in_display)

lemma str_chunks_display: "concat (str_chunks s) = str_display s"
  by (induction s) simp_all

lemma str_ok_len: "str_ok s \<Longrightarrow> str_len s = length (str_display s)"
  by (induction s) simp_all

lemma str_ok_empty: "str_ok s \<Longrightarrow> str_is_empty s \<longleftrightarrow> str_display s = []"
  by (induction s) auto

lemma str_concat_display:
  assumes "str_ok a" "str_ok b"
  shows "str_ok (str_concat a b) \<and> str_display (str_concat a b) = str_display a @ str_display b"
  using assms str_ok_empty [of a] str_ok_empty [of b] by (auto simp: str_concat_def)

section \<open>Values\<close>

datatype val_type = T_Bool | T_Null | T_Str | T_Num | T_Arr | T_Obj | T_Func

datatype jerror =
    Bail string
  | Binary_Operator_On_Values val_type val_type
  | Raised string

datatype 'n val =
    Null
  | Bool bool
  | Str str_value
  | Num 'n
  | Arr nat "(jerror + 'n val) list"
  | Obj nat "(string \<times> (jerror + 'n val)) list"
  | Func nat

fun value_type :: "'n val \<Rightarrow> val_type" where
  "value_type (Str s) = T_Str"
| "value_type (Num n) = T_Num"
| "value_type (Arr p xs) = T_Arr"
| "value_type (Obj p fs) = T_Obj"
| "value_type (Bool b) = T_Bool"
| "value_type Null = T_Null"
| "value_type (Func f) = T_Func"

fun primitive_equals :: "('n \<Rightarrow> 'n \<Rightarrow> bool) \<Rightarrow> 'n val \<Rightarrow> 'n val \<Rightarrow> jerror + bool" where
  "primitive_equals near (Bool a) (Bool b) = Inr (a = b)"
| "primitive_equals near Null Null = Inr True"
| "primitive_equals near (Str a) (Str b) = Inr (str_eq a b)"
| "primitive_equals near (Num a) (Num b) = Inr (near a b)"
| "primitive_equals near (Arr p xs) (Arr q ys) =
     Inl (Bail ''primitiveEquals operates on primitive types, got array'')"
| "primitive_equals near (Obj p fs) (Obj q gs) =
     Inl (Bail ''primitiveEquals operates on primitive types, got object'')"
| "primitive_equals near (Func f) (Func g) = Inl (Bail ''cannot test equality of functions'')"
| "primitive_equals near a b = Inr False"

text \<open>
  \<open>equals\<close>. The fields of an object are its visible ones in sorted order, each with what \<open>get\<close>
  gives for it.
\<close>

function (sequential) equals :: "('n \<Rightarrow> 'n \<Rightarrow> bool) \<Rightarrow> 'n val \<Rightarrow> 'n val \<Rightarrow> jerror + bool"
  and equals_items :: "('n \<Rightarrow> 'n \<Rightarrow> bool) \<Rightarrow> (jerror + 'n val) list \<Rightarrow> (jerror + 'n val) list \<Rightarrow> jerror + bool"
  and equals_fields :: "('n \<Rightarrow> 'n \<Rightarrow> bool) \<Rightarrow> (string \<times> (jerror + 'n val)) list \<Rightarrow> (string \<times> (jerror + 'n val)) list \<Rightarrow> jerror + bool"
  where
  "equals near (Arr p xs) (Arr q ys) =
     (if p = q then Inr True
      else if length xs \<noteq> length ys then Inr False
      else equals_items near xs ys)"
| "equals near (Obj p fs) (Obj q gs) =
     (if p = q then Inr True
      else if map fst fs \<noteq> map fst gs then Inr False
      else equals_fields near fs gs)"
| "equals near a b = (if value_type a \<noteq> value_type b then Inr False else primitive_equals near a b)"
| "equals_items near (Inl e # xs) (y # ys) = Inl e"
| "equals_items near (Inr x # xs) (Inl e # ys) = Inl e"
| "equals_items near (Inr x # xs) (Inr y # ys) =
     and_then (equals near x y) (\<lambda>same. if same then equals_items near xs ys else Inr False)"
| "equals_items near xs ys = Inr True"
| "equals_fields near ((k, Inl e) # fs) (g # gs) = Inl e"
| "equals_fields near ((k, Inr x) # fs) ((l, Inl e) # gs) = Inl e"
| "equals_fields near ((k, Inr x) # fs) ((l, Inr y) # gs) =
     and_then (equals near x y) (\<lambda>same. if same then equals_fields near fs gs else Inr False)"
| "equals_fields near fs gs = Inr True"
  by pat_completeness auto
termination
  by (relation "measure (case_sum (\<lambda>(near, a, b). size a)
       (case_sum (\<lambda>(near, xs, ys). size_list (size_sum (\<lambda>_. 0) size) xs)
         (\<lambda>(near, fs, gs). size_list (size_prod (\<lambda>_. 0) (size_sum (\<lambda>_. 0) size)) fs)))") auto

text \<open>\<open>evaluate_compare_op\<close> (\<open>Val::try_cmp\<close> calls it for \<open><\<close>).\<close>

function (sequential) try_cmp :: "'n::linorder val \<Rightarrow> 'n val \<Rightarrow> jerror + ordering"
  and try_cmp_items :: "(jerror + 'n val) list \<Rightarrow> (jerror + 'n val) list \<Rightarrow> jerror + ordering"
  where
  "try_cmp (Str a) (Str b) = Inr (str_cmp a b)"
| "try_cmp (Num a) (Num b) = Inr (compare_lin a b)"
| "try_cmp (Arr p xs) (Arr q ys) =
     and_then (try_cmp_items xs ys) (\<lambda>ord.
       if ord \<noteq> Equal then Inr ord else Inr (compare_lin (length xs) (length ys)))"
| "try_cmp a b = Inl (Binary_Operator_On_Values (value_type a) (value_type b))"
| "try_cmp_items (Inl e # xs) (y # ys) = Inl e"
| "try_cmp_items (Inr x # xs) (Inl e # ys) = Inl e"
| "try_cmp_items (Inr x # xs) (Inr y # ys) =
     and_then (try_cmp x y) (\<lambda>ord. if ord \<noteq> Equal then Inr ord else try_cmp_items xs ys)"
| "try_cmp_items xs ys = Inr Equal"
  by pat_completeness auto
termination
  by (relation "measure (case_sum (\<lambda>(a, b). size a)
       (\<lambda>(xs, ys). size_list (size_sum (\<lambda>_. 0) size) xs))") auto

section \<open>Values that can be compared\<close>

text \<open>
  \<open>try_cmp\<close> orders values of one kind: numbers, strings, or arrays whose elements compute and are
  of one kind again.
\<close>

datatype kind = K_Num | K_Str | K_Arr kind

fun items_ok :: "('v \<Rightarrow> bool) \<Rightarrow> ('e + 'v) list \<Rightarrow> bool" where
  "items_ok ok [] = True"
| "items_ok ok (Inl e # xs) = False"
| "items_ok ok (Inr v # xs) = (ok v \<and> items_ok ok xs)"

lemma items_ok_Cons [simp]: "items_ok ok (x # xs) \<longleftrightarrow> (\<exists>v. x = Inr v \<and> ok v \<and> items_ok ok xs)"
  by (cases x) auto

primrec of_kind :: "kind \<Rightarrow> 'n val \<Rightarrow> bool" where
  "of_kind K_Num v = (case v of Num n \<Rightarrow> True | _ \<Rightarrow> False)"
| "of_kind K_Str v = (case v of Str s \<Rightarrow> True | _ \<Rightarrow> False)"
| "of_kind (K_Arr k) v =
     (case v of Arr p xs \<Rightarrow> items_ok (of_kind k) xs | _ \<Rightarrow> False)"

text \<open>The contract of a comparison on the keys it can compare: a total preorder.\<close>

locale key_order =
  fixes cmp :: "'k \<Rightarrow> 'k \<Rightarrow> 'e + ordering"
    and ok :: "'k \<Rightarrow> bool"
  assumes total: "ok a \<Longrightarrow> ok b \<Longrightarrow> \<exists>ord. cmp a b = Inr ord"
    and cmp_self: "ok a \<Longrightarrow> cmp a a = Inr Equal"
    and cmp_flip: "ok a \<Longrightarrow> ok b \<Longrightarrow> cmp a b = Inr ord \<Longrightarrow> cmp b a = Inr (flip ord)"
    and less_trans: "ok a \<Longrightarrow> ok b \<Longrightarrow> ok c \<Longrightarrow> cmp a b = Inr Less \<Longrightarrow> cmp b c = Inr Less \<Longrightarrow> cmp a c = Inr Less"
    and equal_subst: "ok a \<Longrightarrow> ok b \<Longrightarrow> ok c \<Longrightarrow> cmp a b = Inr Equal \<Longrightarrow> cmp a c = cmp b c"

lemma key_order_linear:
  fixes f :: "'k \<Rightarrow> 'a::linorder"
  assumes "\<And>a b. ok a \<Longrightarrow> ok b \<Longrightarrow> cmp a b = Inr (compare_lin (f a) (f b))"
  shows "key_order cmp ok"
  by unfold_locales (auto simp: assms compare_lin_flip)

text \<open>Arrays compare lexicographically.\<close>

definition try_cmp_lists :: "(jerror + 'n::linorder val) list \<Rightarrow> (jerror + 'n val) list \<Rightarrow> jerror + ordering" where
  "try_cmp_lists xs ys =
     and_then (try_cmp_items xs ys) (\<lambda>ord.
       if ord \<noteq> Equal then Inr ord else Inr (compare_lin (length xs) (length ys)))"

lemma compare_lin_Suc: "compare_lin (Suc m) (Suc n) = compare_lin m n"
  by (simp add: compare_lin_def)

lemma try_cmp_lists_simps [simp]:
  "try_cmp_lists [] [] = Inr Equal"
  "try_cmp_lists [] (y # ys) = Inr Less"
  "try_cmp_lists (x # xs) [] = Inr Greater"
  "try_cmp_lists (Inr v # xs) (Inr w # ys) =
     and_then (try_cmp v w) (\<lambda>ord. if ord \<noteq> Equal then Inr ord else try_cmp_lists xs ys)"
  by (simp_all add: try_cmp_lists_def compare_lin_def compare_lin_Suc and_then_def split: sum.splits)

lemma key_order_lists:
  assumes "key_order try_cmp ok"
  shows "key_order try_cmp_lists (items_ok ok)"
    (is "key_order _ ?oks")
proof
  note defs = key_order.total [OF assms] key_order.cmp_self [OF assms]
  fix a b c :: "(jerror + 'a val) list" and ord
  show "\<exists>ord. try_cmp_lists a b = Inr ord" if "?oks a" "?oks b" for a b
    using that
  proof (induction a b rule: list_induct2')
    case (4 x xs y ys)
    then obtain v w where "x = Inr v" "y = Inr w" "ok v" "ok w" by auto
    with key_order.total [OF assms, of v w] 4 show ?case by auto
  qed auto
  show "try_cmp_lists a a = Inr Equal" if "?oks a" for a
    using that by (induction a) (auto simp: defs)
  show "try_cmp_lists b a = Inr (flip ord)" if "?oks a" "?oks b" "try_cmp_lists a b = Inr ord" for a b ord
    using that
  proof (induction a b rule: list_induct2')
    case (4 x xs y ys)
    then obtain v w where vw: "x = Inr v" "y = Inr w" "ok v" "ok w" by auto
    obtain o' where "try_cmp v w = Inr o'" using key_order.total [OF assms vw(3,4)] by blast
    moreover from key_order.cmp_flip [OF assms vw(3,4) this] have "try_cmp w v = Inr (flip o')" .
    ultimately show ?case using 4 vw by (cases o') auto
  qed auto
  show "try_cmp_lists a c = Inr Less"
    if "?oks a" "?oks b" "?oks c" "try_cmp_lists a b = Inr Less" "try_cmp_lists b c = Inr Less" for a b c
    using that
  proof (induction a arbitrary: b c)
    case Nil
    from Nil.prems(4) have "b \<noteq> []" by auto
    with Nil.prems(5) have "c \<noteq> []" by (cases b) auto
    then show ?case by (cases c) simp_all
  next
    case (Cons x xs)
    from Cons.prems(4) obtain y ys where b: "b = y # ys" by (cases b) auto
    with Cons.prems(5) obtain z zs where c: "c = z # zs" by (cases c) auto
    note bc = b c
    from Cons.prems(1-3) obtain u v w where uvw: "x = Inr u" "y = Inr v" "z = Inr w" "ok u" "ok v" "ok w"
      unfolding bc items_ok_Cons by blast
    obtain o1 o2 where o: "try_cmp u v = Inr o1" "try_cmp v w = Inr o2"
      using key_order.total [OF assms] uvw by meson
    have o12: "o1 = Less \<or> o1 = Equal" "o2 = Less \<or> o2 = Equal"
      using Cons.prems(4,5) o by (auto simp: bc uvw split: if_splits)
    consider "o1 = Equal" "o2 = Equal" | "o1 = Equal" "o2 = Less" | "o1 = Less" "o2 = Less" | "o1 = Less" "o2 = Equal"
      using o12 by blast
    then show ?case
    proof cases
      case 1
      then have "try_cmp u w = Inr Equal" using key_order.equal_subst [OF assms uvw(4-6)] o by simp
      then show ?thesis using Cons.IH [of ys zs] Cons.prems o 1 by (simp add: bc uvw)
    next
      case 2
      then have "try_cmp u w = Inr Less" using key_order.equal_subst [OF assms uvw(4-6)] o by simp
      then show ?thesis by (simp add: bc uvw)
    next
      case 3
      then have "try_cmp u w = Inr Less" using key_order.less_trans [OF assms uvw(4-6)] o by simp
      then show ?thesis by (simp add: bc uvw)
    next
      case 4
      then have "try_cmp v u = Inr Greater" using key_order.cmp_flip [OF assms uvw(4,5) o(1)] by simp
      moreover have "try_cmp v u = try_cmp w u"
        using key_order.equal_subst [OF assms uvw(5,6,4)] o 4 by simp
      ultimately have "try_cmp u w = Inr Less" using key_order.cmp_flip [OF assms uvw(6,4)] by fastforce
      then show ?thesis by (simp add: bc uvw)
    qed
  qed
  show "try_cmp_lists a c = try_cmp_lists b c"
    if "?oks a" "?oks b" "?oks c" "try_cmp_lists a b = Inr Equal" for a b c
    using that
  proof (induction a arbitrary: b c)
    case Nil
    then show ?case by (cases b) auto
  next
    case (Cons x xs)
    from Cons.prems(4) obtain y ys where b: "b = y # ys" by (cases b) auto
    show ?case
    proof (cases c)
      case c: (Cons z zs)
      from Cons.prems(1-3) obtain u v w where uvw: "x = Inr u" "y = Inr v" "z = Inr w" "ok u" "ok v" "ok w"
        unfolding b c items_ok_Cons by blast
      obtain o1 where o1: "try_cmp u v = Inr o1" using key_order.total [OF assms uvw(4,5)] by blast
      then have "o1 = Equal" using Cons.prems(4) by (auto simp: b uvw split: if_splits)
      then have "try_cmp u w = try_cmp v w" using key_order.equal_subst [OF assms uvw(4-6)] o1 by simp
      moreover have "try_cmp_lists xs zs = try_cmp_lists ys zs"
        by (rule Cons.IH) (use Cons.prems o1 \<open>o1 = Equal\<close> in \<open>simp_all add: b uvw c\<close>)
      ultimately show ?thesis unfolding b uvw c by (simp only: try_cmp_lists_simps)
    qed (simp add: b)
  qed
qed

lemma of_kind_cases:
  "of_kind K_Num v \<longleftrightarrow> (\<exists>n. v = Num n)"
  "of_kind K_Str v \<longleftrightarrow> (\<exists>s. v = Str s)"
  "of_kind (K_Arr k) v \<longleftrightarrow> (\<exists>p xs. v = Arr p xs \<and> items_ok (of_kind k) xs)"
  by (cases v; simp)+

lemma key_order_kind: "key_order try_cmp (of_kind k)"
proof (induction k)
  case K_Num
  show ?case
    by (rule key_order_linear [where f = "\<lambda>v. case v of Num n \<Rightarrow> n | _ \<Rightarrow> undefined"])
      (auto simp: of_kind_cases simp del: of_kind.simps)
next
  case K_Str
  show ?case
    by (rule key_order_linear [where f = "\<lambda>v. case v of Str s \<Rightarrow> into_flat s | _ \<Rightarrow> undefined"])
      (auto simp: of_kind_cases str_cmp_def simp del: of_kind.simps)
next
  case (K_Arr k)
  have "try_cmp (Arr p xs) (Arr q ys) = try_cmp_lists xs ys" for p q and xs ys :: "(jerror + 'a val) list"
    by (simp add: try_cmp_lists_def)
  note eq = this
  show ?case
  proof
    fix a b c :: "'a val" and ord
    let ?oks = "items_ok (of_kind k) :: (jerror + 'a val) list \<Rightarrow> bool"
    note lists = key_order_lists [OF K_Arr]
    have arr: "\<exists>p xs. v = Arr p xs \<and> ?oks xs" if "of_kind (K_Arr k) v" for v
      using that by (simp only: of_kind_cases(3))
    show "\<exists>ord. try_cmp a b = Inr ord" if "of_kind (K_Arr k) a" "of_kind (K_Arr k) b"
      using arr [OF that(1)] arr [OF that(2)] key_order.total [OF lists] by (metis eq)
    show "try_cmp a a = Inr Equal" if "of_kind (K_Arr k) a"
      using arr [OF that] key_order.cmp_self [OF lists] by (metis eq)
    show "try_cmp b a = Inr (flip ord)"
      if "of_kind (K_Arr k) a" "of_kind (K_Arr k) b" "try_cmp a b = Inr ord"
      using arr [OF that(1)] arr [OF that(2)] that(3) key_order.cmp_flip [OF lists] by (metis eq)
    show "try_cmp a c = Inr Less"
      if "of_kind (K_Arr k) a" "of_kind (K_Arr k) b" "of_kind (K_Arr k) c"
        "try_cmp a b = Inr Less" "try_cmp b c = Inr Less"
      using arr [OF that(1)] arr [OF that(2)] arr [OF that(3)] that(4,5) key_order.less_trans [OF lists]
      by (metis eq)
    show "try_cmp a c = try_cmp b c"
      if "of_kind (K_Arr k) a" "of_kind (K_Arr k) b" "of_kind (K_Arr k) c" "try_cmp a b = Inr Equal"
      using arr [OF that(1)] arr [OF that(2)] arr [OF that(3)] that(4) key_order.equal_subst [OF lists]
      by (metis eq)
  qed
qed

interpretation kinds: key_order try_cmp "of_kind k" for k
  by (rule key_order_kind)

section \<open>Equality and order\<close>






section \<open>Properties\<close>

text \<open>
  C28. Values of one kind (numbers, strings, arrays of one kind) are totally ordered by the
  comparison operators: it never fails on them, is consistent both ways round, and transitive.
\<close>

theorem compare_total_preorder:
  assumes "of_kind k a" "of_kind k b" "of_kind k c"
  shows "(\<exists>ord. try_cmp a b = Inr ord \<and> try_cmp b a = Inr (flip ord)) \<and> try_cmp a a = Inr Equal \<and>
         \<not> (try_cmp a b = Inr Less \<and> try_cmp b c = Inr Less \<and> try_cmp a c \<noteq> Inr Less) \<and>
         \<not> (try_cmp a b = Inr Equal \<and> try_cmp a c \<noteq> try_cmp b c)"
  using kinds.total [OF assms(1,2)] kinds.cmp_flip [OF assms(1,2)] kinds.cmp_self [OF assms(1)]
    kinds.less_trans [OF assms] kinds.equal_subst [OF assms] by auto

theorem compare_total_preorder_witness:
  "\<exists>ord. try_cmp (Arr 0 [Inr (Num (1 :: int)), Inr (Num 2)]) (Arr 1 [Inr (Num 1)]) = Inr ord \<and>
         try_cmp (Arr 1 [Inr (Num (1 :: int))]) (Arr 0 [Inr (Num 1), Inr (Num 2)]) = Inr (flip ord)"
  using compare_total_preorder [of "K_Arr K_Num" "Arr 0 [Inr (Num 1), Inr (Num 2)]" "Arr 1 [Inr (Num (1 :: int))]" "Arr 2 []"]
  by simp



text \<open>
  C30. Concatenating ropes is concatenating their texts, and keeps the stored lengths right and
  the subtrees non-empty, which the constant-time \<open>len\<close> and \<open>is_empty\<close> rest on.
\<close>

theorem concat_keeps_ropes:
  assumes "str_ok a" "str_ok b"
  shows "str_ok (str_concat a b) \<and> into_flat (str_concat a b) = into_flat a @ into_flat b \<and>
         str_len (str_concat a b) = length (into_flat a) + length (into_flat b) \<and>
         str_is_empty (str_concat a b) = (into_flat a = [] \<and> into_flat b = [])"
  using str_concat_display [OF assms] str_ok_len [of "str_concat a b"] str_ok_empty [of "str_concat a b"]
  by (simp add: into_flat_display)

theorem concat_keeps_ropes_witness:
  "into_flat (str_concat (Flat ''ab'') (Flat ''c'')) = ''abc''"
  using concat_keeps_ropes [of "Flat ''ab''" "Flat ''c''"] by simp

end
