(* ===== verification/Jsonnet_Sets.thy ===== *)
theory Jsonnet_Sets
  imports Jsonnet_Values
begin

text \<open>
  Sorting and sets of the Jsonnet standard library (\<open>crates/jrsonnet-stdlib/src/sort.rs\<close>,
  \<open>sets.rs\<close>, \<open>keyf.rs\<close>). An array is the list of its thunks, a thunk what forcing it gives.
  Rust's \<open>sort_by\<close> is a stable sort; it is modelled by insertion, which calls the comparator with
  its mutable state. The unstable variants are used only where equal keys are equal values.
  A read of a missing element, which would panic and which the callers rule out, is a \<open>Bail\<close>.
\<close>

section \<open>Key functions\<close>

type_synonym 'n thunk = "jerror + 'n val"

datatype 'n key_f =
    Identity
  | Prepared "'n thunk \<Rightarrow> jerror + 'n val"
  | Prepare_Failure jerror

fun keyf_is_identity :: "'n key_f \<Rightarrow> bool" where
  "keyf_is_identity Identity = True"
| "keyf_is_identity _ = False"

fun keyf_eval :: "'n key_f \<Rightarrow> 'n thunk \<Rightarrow> jerror + 'n val" where
  "keyf_eval Identity t = t"
| "keyf_eval (Prepared p) t = p t"
| "keyf_eval (Prepare_Failure e) t = Inl e"

fun collect_results :: "('e + 'a) list \<Rightarrow> 'e + 'a list" where
  "collect_results [] = Inr []"
| "collect_results (r # rs) = and_then r (\<lambda>v. and_then (collect_results rs) (\<lambda>vs. Inr (v # vs)))"

section \<open>Sorting\<close>

fun insert_with :: "('a \<Rightarrow> 'a \<Rightarrow> 's \<Rightarrow> ordering \<times> 's) \<Rightarrow> 'a \<Rightarrow> 'a list \<Rightarrow> 's \<Rightarrow> 'a list \<times> 's" where
  "insert_with f x [] s = ([x], s)"
| "insert_with f x (y # ys) s =
     (let (ord, s') = f x y s in
      if ord = Greater then (let (zs, s'') = insert_with f x ys s' in (y # zs, s''))
      else (x # y # ys, s'))"

fun sort_with :: "('a \<Rightarrow> 'a \<Rightarrow> 's \<Rightarrow> ordering \<times> 's) \<Rightarrow> 'a list \<Rightarrow> 's \<Rightarrow> 'a list \<times> 's" where
  "sort_with f [] s = ([], s)"
| "sort_with f (x # xs) s = (let (ys, s') = sort_with f xs s in insert_with f x ys s')"

datatype sort_key_type = Sort_Number | Sort_String | Sort_Unspecialized | Sort_Unknown

fun get_sort_type_from :: "sort_key_type \<Rightarrow> 'n val list \<Rightarrow> jerror + sort_key_type" where
  "get_sort_type_from sort_type [] = Inr sort_type"
| "get_sort_type_from sort_type (v # vs) =
     (case (v, sort_type) of
        (Str s, Sort_Unknown) \<Rightarrow> get_sort_type_from Sort_String vs
      | (Num n, Sort_Unknown) \<Rightarrow> get_sort_type_from Sort_Number vs
      | (Str s, Sort_String) \<Rightarrow> get_sort_type_from sort_type vs
      | (Num n, Sort_Number) \<Rightarrow> get_sort_type_from sort_type vs
      | (Str s, _) \<Rightarrow> Inl (Bail ''sort elements should have the same types'')
      | (Num n, _) \<Rightarrow> Inl (Bail ''sort elements should have the same types'')
      | _ \<Rightarrow> Inr Sort_Unspecialized)"

definition get_sort_type :: "('a \<Rightarrow> 'n val) \<Rightarrow> 'a list \<Rightarrow> jerror + sort_key_type" where
  "get_sort_type key_getter values = get_sort_type_from Sort_Unknown (map key_getter values)"

fun number_key_cmp :: "'n::linorder val \<Rightarrow> 'n val \<Rightarrow> ordering" where
  "number_key_cmp (Num a) (Num b) = compare_lin a b"
| "number_key_cmp _ _ = Equal"

fun string_key_cmp :: "'n val \<Rightarrow> 'n val \<Rightarrow> ordering" where
  "string_key_cmp (Str a) (Str b) = str_cmp a b"
| "string_key_cmp _ _ = Equal"

text \<open>The closure that remembers the first error and calls the pair equal.\<close>

definition recording_cmp :: "'n::linorder val \<Rightarrow> 'n val \<Rightarrow> jerror option \<Rightarrow> ordering \<times> jerror option" where
  "recording_cmp a b err =
     (case try_cmp a b of
        Inr ord \<Rightarrow> (ord, err)
      | Inl e \<Rightarrow> (if err = None then (Equal, Some e) else (Equal, err)))"

text \<open>The three sorts by the type of the keys; \<open>key\<close> is what \<open>key_getter\<close> reads.\<close>

definition sort_on :: "('a \<Rightarrow> 'n::linorder val) \<Rightarrow> 'a list \<Rightarrow> jerror + 'a list" where
  "sort_on key values =
     and_then (get_sort_type key values) (\<lambda>sort_type.
       case sort_type of
         Sort_Number \<Rightarrow> Inr (fst (sort_with (\<lambda>a b u. (number_key_cmp (key a) (key b), u)) values ()))
       | Sort_String \<Rightarrow> Inr (fst (sort_with (\<lambda>a b u. (string_key_cmp (key a) (key b), u)) values ()))
       | _ \<Rightarrow>
           (case sort_with (\<lambda>a b. recording_cmp (key a) (key b)) values None of
              (result, Some err) \<Rightarrow> Inl err
            | (result, None) \<Rightarrow> Inr result))"

definition sort_identity :: "'n::linorder val list \<Rightarrow> jerror + 'n val list" where
  "sort_identity values = sort_on (\<lambda>v. v) values"

definition sort_keyf :: "'n::linorder thunk list \<Rightarrow> 'n key_f \<Rightarrow> jerror + 'n thunk list" where
  "sort_keyf values keyf =
     and_then (for_each (\<lambda>value vk. and_then (keyf_eval keyf value) (\<lambda>k. Inr (vk @ [(value, k)]))) values [])
       (\<lambda>vk. and_then (sort_on snd vk) (\<lambda>vk. Inr (map fst vk)))"

definition sort_array :: "'n::linorder thunk list \<Rightarrow> 'n key_f \<Rightarrow> jerror + 'n thunk list" where
  "sort_array values key_getter =
     (if length values \<le> 1 then Inr values
      else if keyf_is_identity key_getter
      then and_then (collect_results values) (\<lambda>vs. and_then (sort_identity vs) (\<lambda>vs. Inr (map Inr vs)))
      else sort_keyf values key_getter)"

section \<open>Removing adjacent duplicates\<close>

fun uniq_loop :: "('n \<Rightarrow> 'n \<Rightarrow> bool) \<Rightarrow> ('a \<Rightarrow> jerror + 'n val) \<Rightarrow> 'n val \<Rightarrow> 'a list \<Rightarrow> 'a list \<Rightarrow> jerror + 'a list" where
  "uniq_loop near key prev [] out = Inr out"
| "uniq_loop near key prev (x # xs) out =
     and_then (key x) (\<lambda>k.
     and_then (equals near prev k) (\<lambda>same.
       uniq_loop near key k xs (if \<not> same then out @ [x] else out)))"

definition uniq_identity :: "('n \<Rightarrow> 'n \<Rightarrow> bool) \<Rightarrow> 'n val list \<Rightarrow> jerror + 'n val list" where
  "uniq_identity near arr =
     (case arr of
        [] \<Rightarrow> Inl (Bail ''index out of bounds'')
      | x # xs \<Rightarrow> uniq_loop near Inr x xs [x])"

definition uniq_keyf :: "('n \<Rightarrow> 'n \<Rightarrow> bool) \<Rightarrow> 'n thunk list \<Rightarrow> 'n key_f \<Rightarrow> jerror + 'n thunk list" where
  "uniq_keyf near arr keyf =
     (case arr of
        [] \<Rightarrow> Inl (Bail ''index out of bounds'')
      | x # xs \<Rightarrow>
          and_then (keyf_eval keyf x) (\<lambda>last_key. uniq_loop near (keyf_eval keyf) last_key xs [x]))"

definition builtin_uniq :: "('n \<Rightarrow> 'n \<Rightarrow> bool) \<Rightarrow> 'n thunk list \<Rightarrow> 'n key_f \<Rightarrow> jerror + 'n thunk list" where
  "builtin_uniq near arr keyF =
     (if length arr \<le> 1 then Inr arr
      else if keyf_is_identity keyF
      then and_then (collect_results arr) (\<lambda>vs. and_then (uniq_identity near vs) (\<lambda>r. Inr (map Inr r)))
      else uniq_keyf near arr keyF)"

definition builtin_set :: "('n \<Rightarrow> 'n \<Rightarrow> bool) \<Rightarrow> 'n::linorder thunk list \<Rightarrow> 'n key_f \<Rightarrow> jerror + 'n thunk list" where
  "builtin_set near arr keyF =
     (if length arr \<le> 1 then Inr arr
      else if keyf_is_identity keyF
      then and_then (collect_results arr) (\<lambda>vs.
           and_then (sort_identity vs) (\<lambda>vs.
           and_then (uniq_identity near vs) (\<lambda>r. Inr (map Inr r))))
      else and_then (sort_keyf arr keyF) (\<lambda>arr. uniq_keyf near arr keyF))"

section \<open>Extrema\<close>

fun array_top1 :: "'n::linorder thunk list \<Rightarrow> 'n key_f \<Rightarrow> ordering \<Rightarrow> jerror + 'n val" where
  "array_top1 [] keyf wanted = Inl (Bail ''not empty'')"
| "array_top1 (x # xs) keyf wanted =
     and_then x (\<lambda>min.
     and_then (keyf_eval keyf (Inr min)) (\<lambda>min_key.
     and_then (for_each (\<lambda>item (min, min_key).
         and_then item (\<lambda>cur.
         and_then (keyf_eval keyf (Inr cur)) (\<lambda>cur_key.
         and_then (try_cmp cur_key min_key) (\<lambda>ord.
           Inr (if ord = wanted then (cur, cur_key) else (min, min_key)))))) xs (min, min_key))
       (\<lambda>(min, min_key). Inr min)))"

definition eval_on_empty :: "'n thunk option \<Rightarrow> jerror + 'n val" where
  "eval_on_empty on_empty =
     (case on_empty of Some t \<Rightarrow> t | None \<Rightarrow> Inl (Bail ''expected non-empty array''))"

definition builtin_min_array :: "'n::linorder thunk list \<Rightarrow> 'n key_f \<Rightarrow> 'n thunk option \<Rightarrow> jerror + 'n val" where
  "builtin_min_array arr keyF onEmpty = (if arr = [] then eval_on_empty onEmpty else array_top1 arr keyF Less)"

definition builtin_max_array :: "'n::linorder thunk list \<Rightarrow> 'n key_f \<Rightarrow> 'n thunk option \<Rightarrow> jerror + 'n val" where
  "builtin_max_array arr keyF onEmpty = (if arr = [] then eval_on_empty onEmpty else array_top1 arr keyF Greater)"

section \<open>Set operations\<close>

function set_member_loop ::
    "'n::linorder key_f \<Rightarrow> 'n thunk list \<Rightarrow> 'n val \<Rightarrow> nat \<Rightarrow> nat \<Rightarrow> jerror + bool" where
  "set_member_loop keyF arr x low high =
     (if low < high then
        let middle = (high + low) div 2 in
        and_then (keyf_eval keyF (arr ! middle)) (\<lambda>comp.
        and_then (try_cmp comp x) (\<lambda>ord.
          case ord of
            Less \<Rightarrow> set_member_loop keyF arr x (middle + 1) high
          | Equal \<Rightarrow> Inr True
          | Greater \<Rightarrow> set_member_loop keyF arr x low middle))
      else Inr False)"
  by pat_completeness auto
termination
  by (relation "measure (\<lambda>(keyF, arr, x, low, high). high - low)") auto

declare set_member_loop.simps [simp del]

definition set_member :: "'n::linorder thunk \<Rightarrow> 'n thunk list \<Rightarrow> 'n key_f \<Rightarrow> jerror + bool" where
  "set_member x arr keyF =
     and_then (keyf_eval keyF x) (\<lambda>k. set_member_loop keyF arr k 0 (length arr))"

text \<open>
  A cursor is the current element with its key and the rest of the iterator; advancing takes the
  next element and computes its key.
\<close>

type_synonym 'n cursor = "('n thunk \<times> 'n val \<times> 'n thunk list) option"

definition advance :: "'n key_f \<Rightarrow> 'n thunk list \<Rightarrow> jerror + 'n cursor" where
  "advance keyF xs =
     (case xs of
        [] \<Rightarrow> Inr None
      | v # rest \<Rightarrow> and_then (keyf_eval keyF v) (\<lambda>k. Inr (Some (v, k, rest))))"

definition cursor_length :: "'n cursor \<Rightarrow> nat" where
  "cursor_length c = (case c of None \<Rightarrow> 0 | Some (v, k, rest) \<Rightarrow> Suc (length rest))"

lemma cursor_length_simps [simp]:
  "cursor_length None = 0" "cursor_length (Some (v, k, rest)) = Suc (length rest)"
  by (simp_all add: cursor_length_def)

lemma advance_length: "advance keyF xs = Inr c \<Longrightarrow> cursor_length c = length xs"
  by (auto simp: advance_def and_then_Inr_iff split: list.splits)

function (sequential) set_inter_loop ::
    "'n::linorder key_f \<Rightarrow> 'n cursor \<Rightarrow> 'n cursor \<Rightarrow> 'n thunk list \<Rightarrow> jerror + 'n thunk list" where
  "set_inter_loop keyF (Some (av, ak, a)) (Some (bv, bk, b)) out =
     and_then (try_cmp ak bk) (\<lambda>ord.
       case ord of
         Less \<Rightarrow> and_then (advance keyF a) (\<lambda>a'. set_inter_loop keyF a' (Some (bv, bk, b)) out)
       | Greater \<Rightarrow> and_then (advance keyF b) (\<lambda>b'. set_inter_loop keyF (Some (av, ak, a)) b' out)
       | Equal \<Rightarrow>
           and_then (advance keyF a) (\<lambda>a'.
           and_then (advance keyF b) (\<lambda>b'. set_inter_loop keyF a' b' (out @ [av]))))"
| "set_inter_loop keyF a b out = Inr out"
  by pat_completeness auto
termination
  by (relation "measure (\<lambda>(keyF, a, b, out). cursor_length a + cursor_length b)")
    (auto dest!: advance_length)

definition set_inter :: "'n::linorder thunk list \<Rightarrow> 'n thunk list \<Rightarrow> 'n key_f \<Rightarrow> jerror + 'n thunk list" where
  "set_inter a b keyF =
     and_then (advance keyF a) (\<lambda>ca. and_then (advance keyF b) (\<lambda>cb. set_inter_loop keyF ca cb []))"

text \<open>The loops that copy what is left of one side.\<close>

fun drain :: "'n key_f \<Rightarrow> 'n thunk list \<Rightarrow> 'n thunk list \<Rightarrow> jerror + 'n thunk list" where
  "drain keyF [] out = Inr out"
| "drain keyF (v # rest) out = and_then (keyf_eval keyF v) (\<lambda>k. drain keyF rest (out @ [v]))"

definition drain_cursor :: "'n key_f \<Rightarrow> 'n cursor \<Rightarrow> 'n thunk list \<Rightarrow> jerror + 'n thunk list" where
  "drain_cursor keyF c out = (case c of None \<Rightarrow> Inr out | Some (v, k, rest) \<Rightarrow> drain keyF rest (out @ [v]))"

function (sequential) set_diff_loop ::
    "'n::linorder key_f \<Rightarrow> 'n cursor \<Rightarrow> 'n cursor \<Rightarrow> 'n thunk list \<Rightarrow> jerror + 'n thunk list" where
  "set_diff_loop keyF (Some (av, ak, a)) (Some (bv, bk, b)) out =
     and_then (try_cmp ak bk) (\<lambda>ord.
       case ord of
         Less \<Rightarrow> and_then (advance keyF a) (\<lambda>a'. set_diff_loop keyF a' (Some (bv, bk, b)) (out @ [av]))
       | Greater \<Rightarrow> and_then (advance keyF b) (\<lambda>b'. set_diff_loop keyF (Some (av, ak, a)) b' out)
       | Equal \<Rightarrow>
           and_then (advance keyF a) (\<lambda>a'.
           and_then (advance keyF b) (\<lambda>b'. set_diff_loop keyF a' b' out)))"
| "set_diff_loop keyF a b out = drain_cursor keyF a out"
  by pat_completeness auto
termination
  by (relation "measure (\<lambda>(keyF, a, b, out). cursor_length a + cursor_length b)")
    (auto dest!: advance_length)

definition set_diff :: "'n::linorder thunk list \<Rightarrow> 'n thunk list \<Rightarrow> 'n key_f \<Rightarrow> jerror + 'n thunk list" where
  "set_diff a b keyF =
     and_then (advance keyF a) (\<lambda>ca. and_then (advance keyF b) (\<lambda>cb. set_diff_loop keyF ca cb []))"

function (sequential) set_union_loop ::
    "'n::linorder key_f \<Rightarrow> 'n cursor \<Rightarrow> 'n cursor \<Rightarrow> 'n thunk list \<Rightarrow> jerror + 'n thunk list" where
  "set_union_loop keyF (Some (av, ak, a)) (Some (bv, bk, b)) out =
     and_then (try_cmp ak bk) (\<lambda>ord.
       case ord of
         Less \<Rightarrow> and_then (advance keyF a) (\<lambda>a'. set_union_loop keyF a' (Some (bv, bk, b)) (out @ [av]))
       | Greater \<Rightarrow> and_then (advance keyF b) (\<lambda>b'. set_union_loop keyF (Some (av, ak, a)) b' (out @ [bv]))
       | Equal \<Rightarrow>
           and_then (advance keyF a) (\<lambda>a'.
           and_then (advance keyF b) (\<lambda>b'. set_union_loop keyF a' b' (out @ [av]))))"
| "set_union_loop keyF a b out =
     and_then (drain_cursor keyF a out) (\<lambda>out. drain_cursor keyF b out)"
  by pat_completeness auto
termination
  by (relation "measure (\<lambda>(keyF, a, b, out). cursor_length a + cursor_length b)")
    (auto dest!: advance_length)

definition set_union :: "'n::linorder thunk list \<Rightarrow> 'n thunk list \<Rightarrow> 'n key_f \<Rightarrow> jerror + 'n thunk list" where
  "set_union a b keyF =
     and_then (advance keyF a) (\<lambda>ca. and_then (advance keyF b) (\<lambda>cb. set_union_loop keyF ca cb []))"

end
