(* ===== verification/Set_Facts.thy ===== *)
theory Set_Facts
  imports Jsonnet_Sets "HOL-Library.Multiset"
begin

text \<open>
  What sorting and the set operations compute. The lemmas on ordered lists are proved once in the
  locale \<open>key_order\<close>, over any comparison that is a total preorder, and used on the elements of an
  array compared by their keys. The properties follow at the end.
\<close>

section \<open>Ordered lists\<close>

definition strict_by :: "('k \<Rightarrow> 'k \<Rightarrow> 'e + ordering) \<Rightarrow> 'k list \<Rightarrow> bool" where
  "strict_by cmp xs = sorted_wrt (\<lambda>a b. cmp a b = Inr Less) xs"

definition weak_by :: "('k \<Rightarrow> 'k \<Rightarrow> 'e + ordering) \<Rightarrow> 'k list \<Rightarrow> bool" where
  "weak_by cmp xs = sorted_wrt (\<lambda>a b. cmp a b = Inr Less \<or> cmp a b = Inr Equal) xs"

definition member_by :: "('k \<Rightarrow> 'k \<Rightarrow> 'e + ordering) \<Rightarrow> 'k \<Rightarrow> 'k list \<Rightarrow> bool" where
  "member_by cmp x ys = (\<exists>y\<in>set ys. cmp x y = Inr Equal)"

lemma strict_by_simps [simp]:
  "strict_by cmp []"
  "strict_by cmp (x # xs) \<longleftrightarrow> (\<forall>y\<in>set xs. cmp x y = Inr Less) \<and> strict_by cmp xs"
  by (simp_all add: strict_by_def)

lemma weak_by_simps [simp]:
  "weak_by cmp []"
  "weak_by cmp (x # xs) \<longleftrightarrow> (\<forall>y\<in>set xs. cmp x y = Inr Less \<or> cmp x y = Inr Equal) \<and> weak_by cmp xs"
  by (simp_all add: weak_by_def)

lemma member_by_simps [simp]:
  "\<not> member_by cmp x []"
  "member_by cmp x (y # ys) \<longleftrightarrow> cmp x y = Inr Equal \<or> member_by cmp x ys"
  by (auto simp: member_by_def)

lemma strict_by_weak: "strict_by cmp xs \<Longrightarrow> weak_by cmp xs"
  by (induction xs) auto

context key_order
begin

lemma cmp_cases:
  assumes "ok a" "ok b"
  obtains (Less) "cmp a b = Inr Less" "cmp b a = Inr Greater"
    | (Equal) "cmp a b = Inr Equal" "cmp b a = Inr Equal"
    | (Greater) "cmp a b = Inr Greater" "cmp b a = Inr Less"
proof -
  obtain ord where "cmp a b = Inr ord" using total [OF assms] by blast
  with cmp_flip [OF assms this] that show thesis by (cases ord) auto
qed

lemma greater_iff: "ok a \<Longrightarrow> ok b \<Longrightarrow> cmp a b = Inr Greater \<longleftrightarrow> cmp b a = Inr Less"
  by (rule cmp_cases [of a b]) auto

lemma equal_sym: "ok a \<Longrightarrow> ok b \<Longrightarrow> cmp a b = Inr Equal \<longleftrightarrow> cmp b a = Inr Equal"
  by (rule cmp_cases [of a b]) auto

lemma equal_subst_right:
  assumes "ok a" "ok b" "ok c" "cmp b c = Inr Equal"
  shows "cmp a b = cmp a c"
proof -
  have *: "cmp b a = cmp c a" by (rule equal_subst [OF assms(2,3,1,4)])
  show ?thesis
    by (rule cmp_cases [OF assms(1,2)]; rule cmp_cases [OF assms(1,3)]; use * in simp)
qed

text \<open>The heads of two strictly ordered lists decide what is in both.\<close>

lemma less_head:
  assumes "ok x" "\<forall>b\<in>set (y # ys). ok b" "cmp x y = Inr Less" "strict_by cmp (y # ys)"
  shows "z \<in> set (y # ys) \<Longrightarrow> cmp x z = Inr Less" and "\<not> member_by cmp x (y # ys)"
proof -
  show *: "cmp x z = Inr Less" if "z \<in> set (y # ys)" for z
    using that assms less_trans [OF assms(1), of y z] by auto
  show "\<not> member_by cmp x (y # ys)" unfolding member_by_def using * by fastforce
qed

lemma greater_head:
  assumes "ok y" "\<forall>a\<in>set (x # xs). ok a" "cmp x y = Inr Greater" "strict_by cmp (x # xs)" "x' \<in> set (x # xs)"
  shows "cmp x' y = Inr Greater"
proof -
  have "cmp y x = Inr Less" using assms(1-3) greater_iff by auto
  then have "cmp y x' = Inr Less" using less_head(1) [OF assms(1,2) _ assms(4,5)] by simp
  with assms(1,2,5) greater_iff show ?thesis by metis
qed

lemma equal_head:
  assumes "\<forall>a\<in>set (x # xs). ok a" "ok y" "cmp x y = Inr Equal" "strict_by cmp (x # xs)" "x' \<in> set xs"
  shows "cmp x' y = Inr Greater"
proof -
  have "cmp x x' = Inr Less" using assms by simp
  moreover have "cmp x' x = cmp x' y" using assms by (intro equal_subst_right) auto
  ultimately show ?thesis using assms greater_iff by (metis list.set_intros)
qed

end

lemma key_order_on:
  assumes "key_order cmp ok"
  shows "key_order (\<lambda>a b. cmp (f a) (f b)) (\<lambda>a. ok (f a))"
  by unfold_locales
    (blast intro: key_order.total [OF assms] key_order.cmp_self [OF assms] key_order.cmp_flip [OF assms]
      key_order.less_trans [OF assms] key_order.equal_subst [OF assms])+

section \<open>Arrays whose keys compare\<close>

text \<open>Every element has a key, and the keys are of one kind.\<close>

definition key_of :: "'n key_f \<Rightarrow> 'n thunk \<Rightarrow> 'n val" where
  "key_of keyF t = (case keyf_eval keyF t of Inr k \<Rightarrow> k | Inl e \<Rightarrow> Null)"

definition keyed_kind :: "'n key_f \<Rightarrow> kind \<Rightarrow> 'n thunk list \<Rightarrow> bool" where
  "keyed_kind keyF kind arr =
     (\<forall>t\<in>set arr. keyf_eval keyF t = Inr (key_of keyF t) \<and> of_kind kind (key_of keyF t))"

abbreviation by_key :: "'n::linorder key_f \<Rightarrow> 'n thunk \<Rightarrow> 'n thunk \<Rightarrow> jerror + ordering" where
  "by_key keyF a b \<equiv> try_cmp (key_of keyF a) (key_of keyF b)"

interpretation elements: key_order "by_key keyF" "\<lambda>t. of_kind kind (key_of keyF t)" for keyF kind
  by (rule key_order_on [OF key_order_kind])

lemma keyed_kind_simps [simp]:
  "keyed_kind keyF kind []"
  "keyed_kind keyF kind (t # arr) \<longleftrightarrow>
     keyf_eval keyF t = Inr (key_of keyF t) \<and> of_kind kind (key_of keyF t) \<and> keyed_kind keyF kind arr"
  by (auto simp: keyed_kind_def)

lemma keyed_kindD:
  "keyed_kind keyF kind arr \<Longrightarrow> t \<in> set arr \<Longrightarrow> keyf_eval keyF t = Inr (key_of keyF t)"
  "keyed_kind keyF kind arr \<Longrightarrow> t \<in> set arr \<Longrightarrow> of_kind kind (key_of keyF t)"
  by (auto simp: keyed_kind_def)

definition cursor_of :: "'n key_f \<Rightarrow> 'n thunk list \<Rightarrow> 'n cursor" where
  "cursor_of keyF xs = (case xs of [] \<Rightarrow> None | v # rest \<Rightarrow> Some (v, key_of keyF v, rest))"

lemma cursor_of_simps [simp]:
  "cursor_of keyF [] = None"
  "cursor_of keyF (v # rest) = Some (v, key_of keyF v, rest)"
  by (simp_all add: cursor_of_def)

lemma advance_cursor: "keyed_kind keyF kind xs \<Longrightarrow> advance keyF xs = Inr (cursor_of keyF xs)"
  by (cases xs) (auto simp: advance_def)

lemma drain_all: "keyed_kind keyF kind xs \<Longrightarrow> drain keyF xs out = Inr (out @ xs)"
  by (induction xs arbitrary: out) auto

lemma drain_cursor_all: "keyed_kind keyF kind xs \<Longrightarrow> drain_cursor keyF (cursor_of keyF xs) out = Inr (out @ xs)"
  by (cases xs) (auto simp: drain_cursor_def drain_all)

section \<open>The set operations\<close>

text \<open>What one comparison of the heads settles, for the three loops.\<close>

lemma heads:
  assumes "keyed_kind keyF kind (x # a)" "keyed_kind keyF kind (y # b)"
    and "strict_by (by_key keyF) (x # a)" "strict_by (by_key keyF) (y # b)"
  shows "by_key keyF x y = Inr Less \<Longrightarrow> \<not> member_by (by_key keyF) x (y # b)"
    and "by_key keyF x y = Inr Greater \<Longrightarrow> z \<in> set (x # a) \<Longrightarrow>
           member_by (by_key keyF) z (y # b) = member_by (by_key keyF) z b"
    and "by_key keyF x y = Inr Equal \<Longrightarrow> z \<in> set a \<Longrightarrow>
           member_by (by_key keyF) z (y # b) = member_by (by_key keyF) z b"
proof -
  have ok: "of_kind kind (key_of keyF x)" "of_kind kind (key_of keyF y)"
    "\<forall>t\<in>set (x # a). of_kind kind (key_of keyF t)" "\<forall>t\<in>set (y # b). of_kind kind (key_of keyF t)"
    using assms(1,2) keyed_kindD(2) by auto
  show "\<not> member_by (by_key keyF) x (y # b)" if "by_key keyF x y = Inr Less"
    using elements.less_head(2) [OF ok(1,4) that assms(4)] .
  show "member_by (by_key keyF) z (y # b) = member_by (by_key keyF) z b"
    if "by_key keyF x y = Inr Greater" "z \<in> set (x # a)"
    using elements.greater_head [OF ok(2,3) that(1) assms(3) that(2)] by simp
  show "member_by (by_key keyF) z (y # b) = member_by (by_key keyF) z b"
    if "by_key keyF x y = Inr Equal" "z \<in> set a"
    using elements.equal_head [OF ok(3,2) that(1) assms(3) that(2)] by simp
qed

lemma compared:
  assumes "keyed_kind keyF kind (x # a)" "keyed_kind keyF kind (y # b)"
  obtains "by_key keyF x y = Inr Less" | "by_key keyF x y = Inr Equal" | "by_key keyF x y = Inr Greater"
  using assms elements.cmp_cases [of kind keyF x y] by auto

lemma set_inter_loop_filter:
  "keyed_kind keyF kind a \<Longrightarrow> keyed_kind keyF kind b \<Longrightarrow>
   strict_by (by_key keyF) a \<Longrightarrow> strict_by (by_key keyF) b \<Longrightarrow>
   set_inter_loop keyF (cursor_of keyF a) (cursor_of keyF b) out =
     Inr (out @ filter (\<lambda>x. member_by (by_key keyF) x b) a)"
proof (induction "length a + length b" arbitrary: a b out rule: less_induct)
  case less
  show ?case
  proof (cases a)
    case a: (Cons x a')
    show ?thesis
    proof (cases b)
      case b: (Cons y b')
      note prems = less.prems [unfolded a b] and h = heads [OF less.prems [unfolded a b]]
      have adv: "advance keyF a' = Inr (cursor_of keyF a')" "advance keyF b' = Inr (cursor_of keyF b')"
        using prems(1,2) advance_cursor by auto
      from prems(1,2) show ?thesis
      proof (cases rule: compared)
        case 1
        have "set_inter_loop keyF (cursor_of keyF a') (cursor_of keyF b) out =
            Inr (out @ filter (\<lambda>x. member_by (by_key keyF) x b) a')"
          by (rule less.hyps) (use a less.prems in auto)
        with 1 h(1) [OF 1] adv show ?thesis unfolding a b by simp
      next
        case 2
        have "set_inter_loop keyF (cursor_of keyF a') (cursor_of keyF b') (out @ [x]) =
            Inr ((out @ [x]) @ filter (\<lambda>x. member_by (by_key keyF) x b') a')"
          by (rule less.hyps) (use a b less.prems in auto)
        moreover have "filter (\<lambda>x. member_by (by_key keyF) x (y # b')) a' = filter (\<lambda>x. member_by (by_key keyF) x b') a'"
          using h(3) [OF 2] by (rule filter_cong [OF refl])
        ultimately show ?thesis using 2 adv unfolding a b by simp
      next
        case 3
        have "set_inter_loop keyF (cursor_of keyF a) (cursor_of keyF b') out =
            Inr (out @ filter (\<lambda>x. member_by (by_key keyF) x b') a)"
          by (rule less.hyps) (use b less.prems in auto)
        moreover have "filter (\<lambda>x. member_by (by_key keyF) x (y # b')) (x # a') = filter (\<lambda>x. member_by (by_key keyF) x b') (x # a')"
          using h(2) [OF 3] by (rule filter_cong [OF refl])
        ultimately show ?thesis using 3 adv unfolding a b by (simp del: filter.simps)
      qed
    qed simp
  qed simp
qed

lemma set_diff_loop_filter:
  "keyed_kind keyF kind a \<Longrightarrow> keyed_kind keyF kind b \<Longrightarrow>
   strict_by (by_key keyF) a \<Longrightarrow> strict_by (by_key keyF) b \<Longrightarrow>
   set_diff_loop keyF (cursor_of keyF a) (cursor_of keyF b) out =
     Inr (out @ filter (\<lambda>x. \<not> member_by (by_key keyF) x b) a)"
proof (induction "length a + length b" arbitrary: a b out rule: less_induct)
  case less
  show ?case
  proof (cases a)
    case a: (Cons x a')
    show ?thesis
    proof (cases b)
      case b: (Cons y b')
      note prems = less.prems [unfolded a b] and h = heads [OF less.prems [unfolded a b]]
      have adv: "advance keyF a' = Inr (cursor_of keyF a')" "advance keyF b' = Inr (cursor_of keyF b')"
        using prems(1,2) advance_cursor by auto
      from prems(1,2) show ?thesis
      proof (cases rule: compared)
        case 1
        have "set_diff_loop keyF (cursor_of keyF a') (cursor_of keyF b) (out @ [x]) =
            Inr ((out @ [x]) @ filter (\<lambda>x. \<not> member_by (by_key keyF) x b) a')"
          by (rule less.hyps) (use a less.prems in auto)
        with 1 h(1) [OF 1] adv show ?thesis unfolding a b by simp
      next
        case 2
        have "set_diff_loop keyF (cursor_of keyF a') (cursor_of keyF b') out =
            Inr (out @ filter (\<lambda>x. \<not> member_by (by_key keyF) x b') a')"
          by (rule less.hyps) (use a b less.prems in auto)
        moreover have "filter (\<lambda>x. \<not> member_by (by_key keyF) x (y # b')) a' = filter (\<lambda>x. \<not> member_by (by_key keyF) x b') a'"
          using h(3) [OF 2] by (intro filter_cong [OF refl]) blast
        ultimately show ?thesis using 2 adv unfolding a b by simp
      next
        case 3
        have "set_diff_loop keyF (cursor_of keyF a) (cursor_of keyF b') out =
            Inr (out @ filter (\<lambda>x. \<not> member_by (by_key keyF) x b') a)"
          by (rule less.hyps) (use b less.prems in auto)
        moreover have "filter (\<lambda>x. \<not> member_by (by_key keyF) x (y # b')) (x # a') = filter (\<lambda>x. \<not> member_by (by_key keyF) x b') (x # a')"
          using h(2) [OF 3] by (intro filter_cong [OF refl]) blast
        ultimately show ?thesis using 3 adv unfolding a b by (simp del: filter.simps)
      qed
    next
      case Nil
      then show ?thesis using drain_cursor_all [OF less.prems(1)] by (simp add: a)
    qed
  next
    case Nil
    then show ?thesis by (simp add: drain_cursor_def)
  qed
qed

text \<open>The union is ordered, has everything of \<open>a\<close>, and of \<open>b\<close> what \<open>a\<close> does not have.\<close>

definition union_of :: "('k \<Rightarrow> 'k \<Rightarrow> 'e + ordering) \<Rightarrow> 'k list \<Rightarrow> 'k list \<Rightarrow> 'k list \<Rightarrow> bool" where
  "union_of cmp a b r \<longleftrightarrow>
     strict_by cmp r \<and> set r = set a \<union> {y \<in> set b. \<not> member_by cmp y a}"

context key_order
begin

lemma less_not_equal: "ok a \<Longrightarrow> ok b \<Longrightarrow> cmp a b = Inr Less \<Longrightarrow> cmp b a \<noteq> Inr Equal"
  using cmp_flip [of a b Less] by auto

lemma union_less:
  assumes "\<forall>t\<in>set (x # a). ok t" "\<forall>t\<in>set (y # b). ok t" "strict_by cmp (x # a)" "strict_by cmp (y # b)"
    and "cmp x y = Inr Less" "union_of cmp a (y # b) r"
  shows "union_of cmp (x # a) (y # b) (x # r)"
proof -
  have below: "cmp x z = Inr Less" if "z \<in> set (y # b)" for z
    using less_head(1) [OF _ assms(2,5,4) that] assms(1) by simp
  then have "\<not> cmp z x = Inr Equal" if "z \<in> set (y # b)" for z
    using less_not_equal that assms(1,2) by (meson list.set_intros(1))
  then show ?thesis using assms(3,6) below unfolding union_of_def by auto
qed

lemma union_greater:
  assumes "\<forall>t\<in>set (x # a). ok t" "\<forall>t\<in>set (y # b). ok t" "strict_by cmp (x # a)" "strict_by cmp (y # b)"
    and "cmp x y = Inr Greater" "union_of cmp (x # a) b r"
  shows "union_of cmp (x # a) (y # b) (y # r)"
proof -
  have less: "cmp y x = Inr Less" using assms(1,2,5) greater_iff by simp
  have below: "cmp y z = Inr Less" if "z \<in> set (x # a)" for z
    using less_head(1) [OF _ assms(1) less assms(3) that] assms(2) by simp
  then have "\<not> member_by cmp y (x # a)" unfolding member_by_def by fastforce
  then show ?thesis using assms(4,6) below unfolding union_of_def by auto
qed

lemma union_equal:
  assumes "\<forall>t\<in>set (x # a). ok t" "\<forall>t\<in>set (y # b). ok t" "strict_by cmp (x # a)" "strict_by cmp (y # b)"
    and "cmp x y = Inr Equal" "union_of cmp a b r"
  shows "union_of cmp (x # a) (y # b) (x # r)"
proof -
  have below: "cmp x z = Inr Less" if "z \<in> set b" for z
    using equal_subst [of x y z] assms(1,2,4,5) that by simp
  then have "\<not> cmp z x = Inr Equal" if "z \<in> set b" for z
    using less_not_equal that assms(1,2) by (meson list.set_intros)
  moreover have "cmp y x = Inr Equal" using assms(1,2,5) equal_sym by simp
  ultimately show ?thesis using assms(3,6) below unfolding union_of_def by auto
qed

end

lemma union_of_Nil: "strict_by cmp b \<Longrightarrow> union_of cmp [] b b"
  by (simp add: union_of_def)

lemma union_of_Nil2: "strict_by cmp a \<Longrightarrow> union_of cmp a [] a"
  by (simp add: union_of_def)

lemma keyed_kind_ok: "keyed_kind keyF kind arr \<Longrightarrow> \<forall>t\<in>set arr. of_kind kind (key_of keyF t)"
  by (simp add: keyed_kind_def)

lemma set_union_loop_union:
  "keyed_kind keyF kind a \<Longrightarrow> keyed_kind keyF kind b \<Longrightarrow>
   strict_by (by_key keyF) a \<Longrightarrow> strict_by (by_key keyF) b \<Longrightarrow>
   \<exists>r. set_union_loop keyF (cursor_of keyF a) (cursor_of keyF b) out = Inr (out @ r) \<and>
       union_of (by_key keyF) a b r"
proof (induction "length a + length b" arbitrary: a b out rule: less_induct)
  case less
  show ?case
  proof (cases a)
    case a: (Cons x a')
    show ?thesis
    proof (cases b)
      case b: (Cons y b')
      note prems = less.prems [unfolded a b]
      note ok = keyed_kind_ok [OF prems(1)] keyed_kind_ok [OF prems(2)] prems(3,4)
      have adv: "advance keyF a' = Inr (cursor_of keyF a')" "advance keyF b' = Inr (cursor_of keyF b')"
        using prems(1,2) advance_cursor by auto
      from prems(1,2) show ?thesis
      proof (cases rule: compared)
        case 1
        have "\<exists>r. set_union_loop keyF (cursor_of keyF a') (cursor_of keyF b) (out @ [x]) = Inr ((out @ [x]) @ r) \<and>
            union_of (by_key keyF) a' b r"
          by (rule less.hyps) (use a less.prems in auto)
        with 1 adv elements.union_less [OF ok 1] show ?thesis unfolding a b by auto
      next
        case 2
        have "\<exists>r. set_union_loop keyF (cursor_of keyF a') (cursor_of keyF b') (out @ [x]) = Inr ((out @ [x]) @ r) \<and>
            union_of (by_key keyF) a' b' r"
          by (rule less.hyps) (use a b less.prems in auto)
        with 2 adv elements.union_equal [OF ok 2] show ?thesis unfolding a b by auto
      next
        case 3
        have "\<exists>r. set_union_loop keyF (cursor_of keyF a) (cursor_of keyF b') (out @ [y]) = Inr ((out @ [y]) @ r) \<and>
            union_of (by_key keyF) a b' r"
          by (rule less.hyps) (use b less.prems in auto)
        with 3 adv elements.union_greater [OF ok 3] show ?thesis unfolding a b by auto
      qed
    next
      case Nil
      then show ?thesis
        using drain_cursor_all [OF less.prems(1)] union_of_Nil2 [OF less.prems(3)]
        by (simp add: a drain_cursor_def)
    qed
  next
    case Nil
    then show ?thesis
      using drain_cursor_all [OF less.prems(2)] union_of_Nil [OF less.prems(4)]
      by (cases b) (auto simp: drain_cursor_def)
  qed
qed

text \<open>Binary search: everything left of \<open>low\<close> is smaller, everything from \<open>high\<close> on is greater.\<close>

lemma set_member_loop_found:
  assumes "keyed_kind keyF kind arr" "of_kind kind x" "strict_by (by_key keyF) arr"
  shows "high \<le> length arr \<Longrightarrow>
    (\<And>i. i < low \<Longrightarrow> i < length arr \<Longrightarrow> try_cmp (key_of keyF (arr ! i)) x = Inr Less) \<Longrightarrow>
    (\<And>i. high \<le> i \<Longrightarrow> i < length arr \<Longrightarrow> try_cmp (key_of keyF (arr ! i)) x = Inr Greater) \<Longrightarrow>
    set_member_loop keyF arr x low high = Inr (\<exists>t\<in>set arr. try_cmp (key_of keyF t) x = Inr Equal)"
proof (induction "high - low" arbitrary: low high rule: less_induct)
  case less
  have ok: "of_kind kind (key_of keyF (arr ! i))" "keyf_eval keyF (arr ! i) = Inr (key_of keyF (arr ! i))"
    if "i < length arr" for i
    using keyed_kindD [OF assms(1), of "arr ! i"] that by auto
  have lt: "try_cmp (key_of keyF (arr ! i)) (key_of keyF (arr ! j)) = Inr Less" if "i < j" "j < length arr" for i j
    by (rule sorted_wrt_nth_less [OF assms(3) [unfolded strict_by_def] that])
  show ?case
  proof (cases "low < high")
    case True
    define m where "m = (high + low) div 2"
    have m: "low \<le> m" "m < high" "m < length arr" using True less.prems(1) by (auto simp: m_def)
    show ?thesis
    proof (cases rule: kinds.cmp_cases [OF ok(1) [OF m(3)] assms(2)])
      case 1
      have "try_cmp (key_of keyF (arr ! i)) x = Inr Less" if "i < m + 1" for i
      proof (cases "i = m")
        case False
        then have im: "i < m" using that by simp
        then have "i < length arr" using m(3) by simp
        with kinds.less_trans [OF ok(1) ok(1) [OF m(3)] assms(2) lt [OF im m(3)] 1(1)] show ?thesis by simp
      qed (use 1 in simp)
      then have "set_member_loop keyF arr x (m + 1) high = Inr (\<exists>t\<in>set arr. try_cmp (key_of keyF t) x = Inr Equal)"
        using less.prems m by (intro less.hyps) auto
      then show ?thesis using True 1 ok(2) [OF m(3)]
        by (subst set_member_loop.simps) (simp add: m_def [symmetric])
    next
      case 2
      then have "\<exists>t\<in>set arr. try_cmp (key_of keyF t) x = Inr Equal" using m(3) nth_mem by blast
      then show ?thesis using True 2 ok(2) [OF m(3)]
        by (subst set_member_loop.simps) (simp add: m_def [symmetric])
    next
      case 3
      have "try_cmp (key_of keyF (arr ! i)) x = Inr Greater" if "m \<le> i" "i < length arr" for i
      proof (cases "i = m")
        case False
        then have mi: "m < i" using that by simp
        have "try_cmp x (key_of keyF (arr ! i)) = Inr Less"
          by (rule kinds.less_trans [OF assms(2) ok(1) [OF m(3)] ok(1) [OF that(2)] 3(2) lt [OF mi that(2)]])
        then show ?thesis using kinds.greater_iff [OF ok(1) [OF that(2)] assms(2)] by simp
      qed (use 3 in simp)
      then have "set_member_loop keyF arr x low m = Inr (\<exists>t\<in>set arr. try_cmp (key_of keyF t) x = Inr Equal)"
        using less.prems m by (intro less.hyps) auto
      then show ?thesis using True 3 ok(2) [OF m(3)]
        by (subst set_member_loop.simps) (simp add: m_def [symmetric])
    qed
  next
    case False
    have "try_cmp (key_of keyF t) x \<noteq> Inr Equal" if t: "t \<in> set arr" for t
    proof -
      obtain i where i: "i < length arr" "t = arr ! i" using t by (metis in_set_conv_nth)
      then show ?thesis using less.prems(2,3) [of i] False by (cases "i < low") auto
    qed
    then show ?thesis using False by (subst set_member_loop.simps) auto
  qed
qed

section \<open>Sorting\<close>

text \<open>Stability: the elements equal to any given one keep their order.\<close>

definition stable_by :: "('k \<Rightarrow> 'k \<Rightarrow> 'e + ordering) \<Rightarrow> ('k \<Rightarrow> bool) \<Rightarrow> 'k list \<Rightarrow> 'k list \<Rightarrow> bool" where
  "stable_by cmp ok xs ys \<longleftrightarrow>
     (\<forall>k. ok k \<longrightarrow> filter (\<lambda>z. cmp z k = Inr Equal) ys = filter (\<lambda>z. cmp z k = Inr Equal) xs)"

definition sorting_of :: "('k \<Rightarrow> 'k \<Rightarrow> 'e + ordering) \<Rightarrow> ('k \<Rightarrow> bool) \<Rightarrow> 'k list \<Rightarrow> 'k list \<Rightarrow> bool" where
  "sorting_of cmp ok xs ys \<longleftrightarrow> mset ys = mset xs \<and> weak_by cmp ys \<and> stable_by cmp ok xs ys"

context key_order
begin

lemma insert_with_weak:
  assumes f: "\<And>a b ord. ok a \<Longrightarrow> ok b \<Longrightarrow> cmp a b = Inr ord \<Longrightarrow> f a b s = (ord, s)"
    and x: "ok x"
  shows "\<forall>y\<in>set ys. ok y \<Longrightarrow> weak_by cmp ys \<Longrightarrow>
    \<exists>zs. insert_with f x ys s = (zs, s) \<and> sorting_of cmp ok (x # ys) zs"
proof (induction ys)
  case Nil
  show ?case by (simp add: sorting_of_def stable_by_def)
next
  case (Cons y ys)
  then have y: "ok y" and ys: "\<forall>y\<in>set ys. ok y" by auto
  show ?case
  proof (cases rule: cmp_cases [OF x y])
    case 3
    obtain zs where zs: "insert_with f x ys s = (zs, s)" "sorting_of cmp ok (x # ys) zs"
      using Cons by auto
    have "set zs = set (x # ys)" using zs(2) unfolding sorting_of_def by (metis mset_eq_setD)
    then have "weak_by cmp (y # zs)"
      using zs(2) Cons.prems(2) 3(2) by (auto simp: sorting_of_def)
    moreover have "filter (\<lambda>z. cmp z k = Inr Equal) (y # zs) = filter (\<lambda>z. cmp z k = Inr Equal) (x # y # ys)"
      if "ok k" for k
    proof -
      have "\<not> (cmp x k = Inr Equal \<and> cmp y k = Inr Equal)"
        using equal_sym [OF y that] equal_subst_right [OF x y that] 3(1) by auto
      moreover have "filter (\<lambda>z. cmp z k = Inr Equal) zs = filter (\<lambda>z. cmp z k = Inr Equal) (x # ys)"
        using zs(2) that by (simp add: sorting_of_def stable_by_def)
      ultimately show ?thesis by auto
    qed
    ultimately have "sorting_of cmp ok (x # y # ys) (y # zs)"
      using zs(2) by (simp add: sorting_of_def stable_by_def)
    then show ?thesis using zs(1) f [OF x y 3(1)] by simp
  next
    case 1
    have "cmp x z = Inr Less" if "z \<in> set ys" for z
      using Cons.prems that 1(1) less_trans [OF x y, of z] equal_subst_right [OF x y, of z] by fastforce
    then show ?thesis using f [OF x y 1(1)] Cons.prems(2) 1(1)
      by (auto simp: sorting_of_def stable_by_def)
  next
    case 2
    have "cmp x z = cmp y z" if "z \<in> set ys" for z
      using equal_subst [OF x y _ 2(1)] ys that by blast
    then show ?thesis using f [OF x y 2(1)] Cons.prems(2) 2(1)
      by (auto simp: sorting_of_def stable_by_def)
  qed
qed

lemma sort_with_sorts:
  assumes f: "\<And>a b ord. ok a \<Longrightarrow> ok b \<Longrightarrow> cmp a b = Inr ord \<Longrightarrow> f a b s = (ord, s)"
  shows "\<forall>x\<in>set xs. ok x \<Longrightarrow> \<exists>ys. sort_with f xs s = (ys, s) \<and> sorting_of cmp ok xs ys"
proof (induction xs)
  case Nil
  show ?case by (simp add: sorting_of_def stable_by_def)
next
  case (Cons x xs)
  then obtain ys where ys: "sort_with f xs s = (ys, s)" "sorting_of cmp ok xs ys" by auto
  have "\<forall>y\<in>set ys. ok y" using ys(2) Cons.prems unfolding sorting_of_def
    by (metis list.set_intros(2) mset_eq_setD)
  moreover have "ok x" using Cons.prems by simp
  moreover have "weak_by cmp ys" using ys(2) by (simp add: sorting_of_def)
  ultimately obtain zs where zs: "insert_with f x ys s = (zs, s)" "sorting_of cmp ok (x # ys) zs"
    using insert_with_weak [where f = f and s = s and x = x and ys = ys, OF f] by blast
  have "mset zs = mset (x # xs)" using ys(2) zs(2) by (simp add: sorting_of_def)
  moreover have "stable_by cmp ok (x # xs) zs"
    using ys(2) zs(2) unfolding sorting_of_def stable_by_def by simp
  ultimately have "sorting_of cmp ok (x # xs) zs" using zs(2) unfolding sorting_of_def by blast
  then show ?case using ys(1) zs(1) by simp
qed

text \<open>Dropping the elements equal to their predecessor from an ordered list.\<close>

lemma strict_subst: "ok a \<Longrightarrow> ok b \<Longrightarrow> \<forall>x\<in>set xs. ok x \<Longrightarrow> cmp a b = Inr Equal \<Longrightarrow> strict_by cmp (b # xs) \<Longrightarrow> strict_by cmp (a # xs)"
  using equal_subst [of a b] by auto

end

text \<open>The type found for keys of one kind.\<close>

lemma sort_type_kind:
  assumes "\<forall>v\<in>set vs. of_kind kind v" "vs \<noteq> []"
  shows "get_sort_type_from Sort_Unknown vs =
    Inr (case kind of K_Num \<Rightarrow> Sort_Number | K_Str \<Rightarrow> Sort_String | K_Arr k \<Rightarrow> Sort_Unspecialized)"
proof -
  have num: "get_sort_type_from Sort_Number vs = Inr Sort_Number" if "\<forall>v\<in>set vs. of_kind K_Num v" for vs :: "'a val list"
    using that by (induction vs) (auto split: val.splits)
  have str: "get_sort_type_from Sort_String vs = Inr Sort_String" if "\<forall>v\<in>set vs. of_kind K_Str v" for vs :: "'a val list"
    using that by (induction vs) (auto split: val.splits)
  show ?thesis using assms num str
    by (cases vs; cases kind) (auto split: val.splits)
qed

lemma sort_on_sorts:
  fixes key :: "'a \<Rightarrow> 'n::linorder val"
  assumes "\<forall>v\<in>set values. of_kind kind (key v)"
  shows "\<exists>r. sort_on key values = Inr r \<and>
    sorting_of (\<lambda>a b. try_cmp (key a) (key b)) (\<lambda>v. of_kind kind (key v)) values r"
proof (cases "values = []")
  case True
  then show ?thesis by (simp add: sort_on_def get_sort_type_def sorting_of_def stable_by_def)
next
  case False
  note ord = key_order_on [OF key_order_kind [of kind], of key]
  have type: "get_sort_type key values =
      Inr (case kind of K_Num \<Rightarrow> Sort_Number | K_Str \<Rightarrow> Sort_String | K_Arr k \<Rightarrow> Sort_Unspecialized)"
    unfolding get_sort_type_def by (rule sort_type_kind) (use assms False in auto)
  show ?thesis
  proof (cases kind)
    case K_Num
    have "number_key_cmp (key a) (key b) = ord"
      if "of_kind kind (key a)" "of_kind kind (key b)" "try_cmp (key a) (key b) = Inr ord" for a b ord
      using that unfolding K_Num of_kind_cases by auto
    then obtain ys where "sort_with (\<lambda>a b u. (number_key_cmp (key a) (key b), u)) values () = (ys, ())"
      "sorting_of (\<lambda>a b. try_cmp (key a) (key b)) (\<lambda>v. of_kind kind (key v)) values ys"
      using key_order.sort_with_sorts [OF ord, of "\<lambda>a b u. (number_key_cmp (key a) (key b), u)" "()" "values"] assms
      by auto
    then show ?thesis using type K_Num by (simp add: sort_on_def)
  next
    case K_Str
    have "string_key_cmp (key a) (key b) = ord"
      if "of_kind kind (key a)" "of_kind kind (key b)" "try_cmp (key a) (key b) = Inr ord" for a b ord
      using that unfolding K_Str of_kind_cases by auto
    then obtain ys where "sort_with (\<lambda>a b u. (string_key_cmp (key a) (key b), u)) values () = (ys, ())"
      "sorting_of (\<lambda>a b. try_cmp (key a) (key b)) (\<lambda>v. of_kind kind (key v)) values ys"
      using key_order.sort_with_sorts [OF ord, of "\<lambda>a b u. (string_key_cmp (key a) (key b), u)" "()" "values"] assms
      by auto
    then show ?thesis using type K_Str by (simp add: sort_on_def)
  next
    case (K_Arr k)
    obtain ys where "sort_with (\<lambda>a b. recording_cmp (key a) (key b)) values None = (ys, None)"
      "sorting_of (\<lambda>a b. try_cmp (key a) (key b)) (\<lambda>v. of_kind kind (key v)) values ys"
      using key_order.sort_with_sorts [OF ord, of "\<lambda>a b. recording_cmp (key a) (key b)" None "values"] assms
      by (auto simp: recording_cmp_def)
    then show ?thesis using type K_Arr by (simp add: sort_on_def)
  qed
qed

lemma collect_results_Inr [simp]: "collect_results (map Inr vs) = Inr vs"
  by (induction vs) simp_all

lemma keyed_identity:
  assumes "keyed_kind Identity kind arr"
  shows "arr = map Inr (map (key_of Identity) arr)" and "\<forall>v\<in>set (map (key_of Identity) arr). of_kind kind v"
  using assms by (induction arr) auto

lemma collect_keys:
  "keyed_kind keyF kind arr \<Longrightarrow>
   for_each (\<lambda>value vk. and_then (keyf_eval keyF value) (\<lambda>k. Inr (vk @ [(value, k)]))) arr out =
     Inr (out @ map (\<lambda>t. (t, key_of keyF t)) arr)"
  by (induction arr arbitrary: out) auto

lemma weak_by_map: "weak_by (\<lambda>a b. cmp (f a) (f b)) xs \<longleftrightarrow> weak_by cmp (map f xs)"
  by (induction xs) auto

lemma key_of_Inr [simp]: "key_of Identity (Inr v) = v"
  by (simp add: key_of_def)

text \<open>The elements sorted by their keys.\<close>

lemma sort_identity_sorts:
  assumes "keyed_kind Identity kind arr"
  shows "\<exists>vs. collect_results arr = Inr (map (key_of Identity) arr) \<and>
    sort_identity (map (key_of Identity) arr) = Inr vs \<and>
    mset (map Inr vs) = mset arr \<and> weak_by (by_key Identity) (map Inr vs)"
proof -
  obtain vs where vs: "sort_identity (map (key_of Identity) arr) = Inr vs"
    "sorting_of (\<lambda>a b. try_cmp a b) (of_kind kind) (map (key_of Identity) arr) vs"
    using sort_on_sorts [of "map (key_of Identity) arr" kind "\<lambda>v. v"] keyed_identity(2) [OF assms]
    unfolding sort_identity_def by auto
  have "mset vs = mset (map (key_of Identity) arr)" using vs(2) by (simp only: sorting_of_def)
  then have "mset (map Inr vs) = mset (map Inr (map (key_of Identity) arr))"
    by (simp only: mset_map [where f = Inr])
  also have "\<dots> = mset arr" using keyed_identity(1) [OF assms] by (rule arg_cong [OF sym])
  finally have "mset (map Inr vs) = mset arr" .
  moreover have "weak_by (by_key Identity) (map Inr vs)"
    using vs(2) weak_by_map [of "by_key Identity" Inr vs] by (simp add: sorting_of_def)
  moreover have "collect_results arr = Inr (map (key_of Identity) arr)"
    using collect_results_Inr [where ?'a = jerror, of "map (key_of Identity) arr"]
    unfolding keyed_identity(1) [OF assms, symmetric] .
  ultimately show ?thesis using vs(1) by blast
qed

lemma sort_keyf_sorts:
  assumes "keyed_kind keyF kind arr"
  shows "\<exists>r. sort_keyf arr keyF = Inr r \<and> mset r = mset arr \<and> weak_by (by_key keyF) r"
proof -
  let ?vk = "map (\<lambda>t. (t, key_of keyF t)) arr"
  have "\<forall>p\<in>set ?vk. of_kind kind (snd p)" using keyed_kindD(2) [OF assms] by auto
  from sort_on_sorts [OF this] obtain r where r: "sort_on snd ?vk = Inr r"
    "mset r = mset ?vk" "weak_by (\<lambda>a b. try_cmp (snd a) (snd b)) r"
    by (auto simp: sorting_of_def)
  have keys: "snd p = key_of keyF (fst p)" if "p \<in> set r" for p
    using that mset_eq_setD [OF r(2)] by auto
  have "mset (map fst r) = image_mset fst (mset ?vk)" using r(2) by simp
  then have "mset (map fst r) = mset arr" by (simp add: o_def flip: mset_map)
  moreover have "weak_by (by_key keyF) (map fst r)"
    using r(3) keys by (induction r) auto
  ultimately show ?thesis using r(1) collect_keys [OF assms, of "[]"] by (simp add: sort_keyf_def)
qed

section \<open>Duplicates\<close>







section \<open>Properties\<close>

lemma member_by_mset: "set a = set b \<Longrightarrow> member_by cmp x a = member_by cmp x b"
  by (simp add: member_by_def)



lemma set_member_found:
  assumes "keyed_kind keyF kind (x # arr)" "strict_by (by_key keyF) arr"
  shows "set_member x arr keyF = Inr (member_by (by_key keyF) x arr)"
proof -
  have keyed: "keyed_kind keyF kind arr" "keyf_eval keyF x = Inr (key_of keyF x)" "of_kind kind (key_of keyF x)"
    using assms(1) by auto
  have "by_key keyF t x = Inr Equal \<longleftrightarrow> by_key keyF x t = Inr Equal" if "t \<in> set arr" for t
    using elements.equal_sym keyed_kindD(2) [OF keyed(1) that] keyed(3) by blast
  then show ?thesis
    using set_member_loop_found [OF keyed(1,3) assms(2), of "length arr" 0] keyed(2)
    by (simp add: set_member_def member_by_def)
qed

lemma set_operations_ok:
  assumes "keyed_kind keyF kind a" "keyed_kind keyF kind b"
    and "strict_by (by_key keyF) a" "strict_by (by_key keyF) b"
  shows "set_inter a b keyF = Inr (filter (\<lambda>x. member_by (by_key keyF) x b) a)"
    and "set_diff a b keyF = Inr (filter (\<lambda>x. \<not> member_by (by_key keyF) x b) a)"
    and "\<exists>r. set_union a b keyF = Inr r \<and> union_of (by_key keyF) a b r"
  using set_inter_loop_filter [OF assms, of "[]"] set_diff_loop_filter [OF assms, of "[]"]
    set_union_loop_union [OF assms, of "[]"] advance_cursor [OF assms(1)] advance_cursor [OF assms(2)]
  by (auto simp: set_inter_def set_diff_def set_union_def)





text \<open>Numbers of the examples, compared and equated exactly.\<close>

definition nums :: "int list \<Rightarrow> int thunk list" where
  "nums ns = map (\<lambda>n. Inr (Num n)) ns"

text \<open>
  C27. On strictly ordered arrays \<open>setInter\<close> keeps the elements of the first that are in the
  second, \<open>setDiff\<close> those that are not, and \<open>setUnion\<close> is ordered, with all of the first array and
  what only the second has; none of them fails.
\<close>

theorem set_operations:
  assumes "keyed_kind keyF kind a" "keyed_kind keyF kind b"
    and "strict_by (by_key keyF) a" "strict_by (by_key keyF) b"
  shows "set_inter a b keyF = Inr (filter (\<lambda>x. member_by (by_key keyF) x b) a) \<and>
         set_diff a b keyF = Inr (filter (\<lambda>x. \<not> member_by (by_key keyF) x b) a) \<and>
         (\<exists>r. set_union a b keyF = Inr r \<and> union_of (by_key keyF) a b r)"
  using set_operations_ok [OF assms] by blast

theorem set_operations_witness:
  "set_inter (nums [1, 3, 5]) (nums [2, 3]) Identity = Inr (nums [3]) \<and>
   (\<exists>r. set_union (nums [1, 3, 5]) (nums [2, 3]) Identity = Inr r \<and>
        union_of (by_key Identity) (nums [1, 3, 5]) (nums [2, 3]) r)"
  using set_operations [of Identity K_Num "nums [1, 3, 5]" "nums [2, 3]"]
  by (simp add: nums_def)

text \<open>
  \<open>setMember\<close> finds a key in a strictly ordered array by binary search exactly when some
  element of the array has it.
\<close>

theorem set_member_decides:
  assumes "keyed_kind keyF kind (x # arr)" "strict_by (by_key keyF) arr"
  shows "set_member x arr keyF = Inr (member_by (by_key keyF) x arr)"
  by (rule set_member_found [OF assms])

theorem set_member_decides_witness:
  "set_member (Inr (Num 3)) (nums [1, 3, 5]) Identity = Inr True \<and>
   set_member (Inr (Num 4)) (nums [1, 3, 5]) Identity = Inr False"
  using set_member_decides [of Identity K_Num "Inr (Num 3)" "nums [1, 3, 5]"]
    set_member_decides [of Identity K_Num "Inr (Num 4)" "nums [1, 3, 5]"]
  by (simp add: nums_def)





text \<open>
  \<open>std.sort\<close> of an array whose keys compare is a permutation of it in the order of the keys.
\<close>

theorem sort_array_sorts:
  assumes "keyed_kind keyF kind arr"
  shows "\<exists>r. sort_array arr keyF = Inr r \<and> mset r = mset arr \<and> weak_by (by_key keyF) r"
proof (cases "length arr \<le> 1")
  case True
  then consider "arr = []" | t where "arr = [t]" by (cases arr) auto
  then show ?thesis using True by cases (auto simp: sort_array_def)
next
  case long: False
  show ?thesis
  proof (cases "keyf_is_identity keyF")
    case True
    then have id: "keyF = Identity" by (cases keyF) auto
    from sort_identity_sorts [OF assms [unfolded id]] long show ?thesis
      by (auto simp: sort_array_def id)
  qed (use sort_keyf_sorts [OF assms] long in \<open>simp add: sort_array_def\<close>)
qed

theorem sort_array_sorts_witness:
  "\<exists>r. sort_array (nums [3, 1, 2]) Identity = Inr r \<and> mset r = mset (nums [3, 1, 2]) \<and>
       weak_by (by_key Identity) r"
  by (rule sort_array_sorts [of Identity K_Num]) (simp add: nums_def)

text \<open>
  C31. \<open>std.set\<close> loses a number that is within the tolerance of a smaller one, and \<open>setMember\<close>
  then denies it.
\<close>

theorem set_loses_near_number:
  assumes "a < b" "near a b"
  shows "builtin_set near [Inr (Num a), Inr (Num b)] Identity = Inr [Inr (Num a)] \<and>
         set_member (Inr (Num b)) [Inr (Num a)] Identity = Inr False"
proof -
  have "sort_identity [Num a, Num b] = Inr [Num a, Num b]"
    using assms(1) by (auto simp: sort_identity_def sort_on_def get_sort_type_def)
  moreover have "uniq_identity near [Num a, Num b] = Inr [Num a]"
    using assms(2) by (simp add: uniq_identity_def)
  moreover have "set_member (Inr (Num b)) [Inr (Num a)] Identity = Inr False"
    using set_member_found [of Identity K_Num "Inr (Num b)" "[Inr (Num a)]"]
      assms(1)
    by (auto simp: compare_lin_def)
  ultimately show ?thesis by (simp add: builtin_set_def)
qed

theorem set_loses_near_number_witness:
  "builtin_set (\<lambda>a b. \<bar>a - b\<bar> \<le> (1 :: int)) (nums [7, 8]) Identity = Inr (nums [7])"
  using set_loses_near_number [of 7 8 "\<lambda>a b. \<bar>a - b\<bar> \<le> (1 :: int)"] by (simp add: nums_def)

end
