(* ===== verification/Redaction.thy ===== *)
theory Redaction
  imports Json
begin

text \<open>
  Masking of secrets before a diff is shown (\<open>cmds/rtk/src/k8s/redacted_object.rs\<close>). A \<open>HashSet\<close>
  is walked in an unspecified order, so the pairwise redaction takes the order as a parameter
  \<open>hash_order\<close> that lists the elements of a list once each. \<open>None\<close> is the \<open>unreachable!()\<close>.
\<close>

section \<open>Objects\<close>

definition mask_DEFAULT :: string where "mask_DEFAULT = ''***''"
definition mask_BEFORE :: string where "mask_BEFORE = ''*** (before)''"
definition mask_AFTER :: string where "mask_AFTER = ''*** (after)''"

record gvk =
  gvk_group :: string
  gvk_version :: string
  gvk_kind :: string

record unredacted_object =
  raw_value :: json
  raw_gvk :: gvk

record redacted_object =
  shown_value :: json
  shown_gvk :: gvk

definition unredacted_new :: "json \<Rightarrow> gvk \<Rightarrow> unredacted_object" where
  "unredacted_new v g = \<lparr>raw_value = v, raw_gvk = g\<rparr>"

definition unredacted_empty :: "gvk \<Rightarrow> unredacted_object" where
  "unredacted_empty g = \<lparr>raw_value = JNull, raw_gvk = g\<rparr>"

definition is_secret :: "unredacted_object \<Rightarrow> bool" where
  "is_secret obj =
     (gvk_group (raw_gvk obj) = [] \<and> gvk_version (raw_gvk obj) = ''v1'' \<and> gvk_kind (raw_gvk obj) = ''Secret'')"

definition secret_data_keys :: "unredacted_object \<Rightarrow> string list option" where
  "secret_data_keys obj =
     (if \<not> is_secret obj then None
      else map_option (map fst) (Option.bind (value_get (raw_value obj) ''data'') as_object))"

fun set_data_key :: "json \<Rightarrow> string \<Rightarrow> string \<Rightarrow> json" where
  "set_data_key (JObj m) key mark =
     (case map_of m ''data'' of
        Some (JObj d) \<Rightarrow> JObj (map_insert ''data'' (JObj (map_insert key (JStr mark) d)) m)
      | _ \<Rightarrow> JObj m)"
| "set_data_key v key mark = v"

definition redact :: "unredacted_object \<Rightarrow> redacted_object" where
  "redact obj =
     (if \<not> is_secret obj then \<lparr>shown_value = raw_value obj, shown_gvk = raw_gvk obj\<rparr>
      else
        let value = raw_value obj in
        \<lparr>shown_value =
           (case Option.bind (value_get value ''data'') as_object of
              None \<Rightarrow> value
            | Some data \<Rightarrow> fold (\<lambda>key v. set_data_key v key mask_DEFAULT) (map fst data) value),
         shown_gvk = raw_gvk obj\<rparr>)"

definition data_entry :: "json \<Rightarrow> string \<Rightarrow> json option" where
  "data_entry v key = Option.bind (value_get v ''data'') (\<lambda>d. value_get d key)"

text \<open>The loop body of \<open>redact_pair\<close>.\<close>

definition redact_pair_key :: "string \<Rightarrow> json \<times> json \<Rightarrow> (json \<times> json) option" where
  "redact_pair_key key = (\<lambda>(current_value, desired_value).
     let current_has = data_entry current_value key \<noteq> None;
         desired_has = data_entry desired_value key \<noteq> None;
         current_val = Option.bind (data_entry current_value key) as_str;
         desired_val = Option.bind (data_entry desired_value key) as_str
     in if current_has \<and> desired_has then
          (if current_val = desired_val
           then Some (set_data_key current_value key mask_DEFAULT, set_data_key desired_value key mask_DEFAULT)
           else Some (set_data_key current_value key mask_BEFORE, set_data_key desired_value key mask_AFTER))
        else if current_has then Some (set_data_key current_value key mask_DEFAULT, desired_value)
        else if desired_has then Some (current_value, set_data_key desired_value key mask_DEFAULT)
        else None)"

fun redact_pair_loop :: "string list \<Rightarrow> json \<times> json \<Rightarrow> (json \<times> json) option" where
  "redact_pair_loop [] vs = Some vs"
| "redact_pair_loop (key # keys) vs = Option.bind (redact_pair_key key vs) (redact_pair_loop keys)"

definition redact_pair ::
    "(string list \<Rightarrow> string list) \<Rightarrow> unredacted_object \<Rightarrow> unredacted_object \<Rightarrow>
     (redacted_object \<times> redacted_object) option" where
  "redact_pair hash_order current desired =
     (if \<not> is_secret current \<and> \<not> is_secret desired
      then Some (\<lparr>shown_value = raw_value current, shown_gvk = raw_gvk current\<rparr>,
                 \<lparr>shown_value = raw_value desired, shown_gvk = raw_gvk desired\<rparr>)
      else
        let opt = (\<lambda>ks. case ks of None \<Rightarrow> [] | Some ks \<Rightarrow> ks);
            all_keys = hash_order (opt (secret_data_keys current) @ opt (secret_data_keys desired))
        in map_option (\<lambda>(current_value, desired_value).
             (\<lparr>shown_value = current_value, shown_gvk = raw_gvk current\<rparr>,
              \<lparr>shown_value = desired_value, shown_gvk = raw_gvk desired\<rparr>))
           (redact_pair_loop all_keys (raw_value current, raw_value desired)))"

section \<open>Masked data\<close>

definition data_of :: "json \<Rightarrow> json_map option" where
  "data_of v = Option.bind (value_get v ''data'') as_object"

text \<open>A value with the entries of its data rewritten.\<close>

definition with_values :: "(string \<Rightarrow> json \<Rightarrow> json) \<Rightarrow> json \<Rightarrow> json" where
  "with_values g v =
     (case (v, data_of v) of
        (JObj m, Some d) \<Rightarrow> JObj (map_insert ''data'' (JObj (map (\<lambda>(k, w). (k, g k w)) d)) m)
      | _ \<Rightarrow> v)"

text \<open>The entries whose keys are in \<open>S\<close> replaced by their masks.\<close>

abbreviation masked :: "string set \<Rightarrow> (string \<Rightarrow> string) \<Rightarrow> json \<Rightarrow> json" where
  "masked S mark \<equiv> with_values (\<lambda>k w. if k \<in> S then JStr (mark k) else w)"

lemma data_of_Some_iff: "data_of v = Some d \<longleftrightarrow> (\<exists>m. v = JObj m \<and> map_of m ''data'' = Some (JObj d))"
  by (cases v) (auto simp: data_of_def value_get_def bind_eq_Some_conv)

lemma with_values_simps:
  "data_of v = None \<Longrightarrow> with_values g v = v"
  "map_of m ''data'' = Some (JObj d) \<Longrightarrow>
     with_values g (JObj m) = JObj (map_insert ''data'' (JObj (map (\<lambda>(k, w). (k, g k w)) d)) m)"
  by (auto simp: with_values_def data_of_def split: json.splits)

lemma map_of_values: "map_of (map (\<lambda>(k, w). (k, g k w)) d) k = map_option (g k) (map_of d k)"
  by (induction d) auto

lemma map_insert_twice [simp]: "map_insert k v (map_insert k w m) = map_insert k v m"
  by (induction m) auto

lemma data_of_with_values: "data_of (with_values g v) = map_option (map (\<lambda>(k, w). (k, g k w))) (data_of v)"
proof (cases "data_of v")
  case (Some d)
  then obtain m where "v = JObj m" "map_of m ''data'' = Some (JObj d)" by (auto simp: data_of_Some_iff)
  then show ?thesis by (simp add: with_values_simps(2) data_of_def)
qed (simp add: with_values_simps)

lemma with_values_compose: "with_values g (with_values h v) = with_values (\<lambda>k w. g k (h k w)) v"
proof (cases "data_of v")
  case (Some d)
  then obtain m where m: "v = JObj m" "map_of m ''data'' = Some (JObj d)" by (auto simp: data_of_Some_iff)
  have "map (\<lambda>(k, w). (k, g k w)) (map (\<lambda>(k, w). (k, h k w)) d) = map (\<lambda>(k, w). (k, g k (h k w))) d"
    by (induction d) auto
  then show ?thesis by (simp add: m with_values_simps(2) del: map_map map_eq_conv)
qed (simp add: with_values_simps)

lemma data_entry_of: "data_entry v key = Option.bind (data_of v) (\<lambda>d. map_of d key)"
  by (simp add: data_entry_def data_of_def value_get_def)

lemma data_entry_with_values: "data_entry (with_values g v) key = map_option (g key) (data_entry v key)"
  by (cases "data_of v") (simp_all add: data_entry_of data_of_with_values map_of_values)


lemma with_values_cong:
  assumes "\<And>k w. data_entry v k \<noteq> None \<Longrightarrow> g k w = h k w"
  shows "with_values g v = with_values h v"
proof (cases "data_of v")
  case (Some d)
  then obtain m where m: "v = JObj m" "map_of m ''data'' = Some (JObj d)" by (auto simp: data_of_Some_iff)
  have "g k w = h k w" if "(k, w) \<in> set d" for k w
  proof (rule assms)
    show "data_entry v k \<noteq> None" using that Some by (auto simp: data_entry_of map_of_eq_None_iff intro: rev_image_eqI)
  qed
  then have "map (\<lambda>(k, w). (k, g k w)) d = map (\<lambda>(k, w). (k, h k w)) d" by auto
  then show ?thesis by (simp add: m with_values_simps(2) del: map_eq_conv)
qed (simp add: with_values_simps)

lemma with_values_id: "with_values (\<lambda>k w. w) v = v"
proof (cases "data_of v")
  case (Some d)
  then obtain m where m: "v = JObj m" "map_of m ''data'' = Some (JObj d)" by (auto simp: data_of_Some_iff)
  have "map (\<lambda>(k, w). (k, w)) d = d" by (induction d) auto
  then show ?thesis using m by (simp add: with_values_simps(2) map_insert_same)
qed (simp add: with_values_simps)

lemma map_insert_values:
  "distinct_keys d \<Longrightarrow> k \<in> fst ` set d \<Longrightarrow>
   map_insert k x (map (\<lambda>(j, w). (j, g j w)) d) = map (\<lambda>(j, w). (j, if j = k then x else g j w)) d"
proof (induction d)
  case (Cons p d)
  obtain j w where p: "p = (j, w)" by (cases p)
  show ?case
  proof (cases "j = k")
    case True
    have "i \<noteq> k" if "(i, u) \<in> set d" for i u
      using Cons.prems(1) True that by (force simp: p distinct_keys_def)
    then have "map (\<lambda>(i, w). (i, g i w)) d = map (\<lambda>(i, w). (i, if i = k then x else g i w)) d" by auto
    then show ?thesis by (simp add: p True)
  next
    case False
    then show ?thesis using Cons by (auto simp: p distinct_keys_def)
  qed
qed simp

definition data_distinct :: "json \<Rightarrow> bool" where
  "data_distinct v = (case data_of v of None \<Rightarrow> True | Some d \<Rightarrow> distinct_keys d)"

lemma set_data_key_masked:
  assumes "data_distinct v" "data_entry v key \<noteq> None"
  shows "set_data_key (masked S mark v) key (mark key) = masked (insert key S) mark v"
proof -
  obtain d where d: "data_of v = Some d" "map_of d key \<noteq> None"
    using assms(2) by (cases "data_of v") (auto simp: data_entry_of)
  then obtain m where m: "v = JObj m" "map_of m ''data'' = Some (JObj d)" by (auto simp: data_of_Some_iff)
  have "key \<in> fst ` set d" using d(2) by (metis map_of_eq_None_iff)
  moreover have "distinct_keys d" using assms(1) d(1) by (simp add: data_distinct_def)
  ultimately have "map_insert key (JStr (mark key)) (map (\<lambda>(k, w). (k, if k \<in> S then JStr (mark k) else w)) d) =
      map (\<lambda>(k, w). (k, if k = key then JStr (mark key) else if k \<in> S then JStr (mark k) else w)) d"
    by (intro map_insert_values)
  also have "\<dots> = map (\<lambda>(k, w). (k, if k \<in> insert key S then JStr (mark k) else w)) d" by auto
  finally show ?thesis by (simp add: m with_values_simps(2))
qed

lemma masked_absent: "data_entry v key = None \<Longrightarrow> masked (insert key S) mark v = masked S mark v"
  by (rule with_values_cong) auto

section \<open>The redactions\<close>

definition current_mark :: "json \<Rightarrow> json \<Rightarrow> string \<Rightarrow> string" where
  "current_mark c d k =
     (if data_entry d k \<noteq> None \<and> Option.bind (data_entry c k) as_str \<noteq> Option.bind (data_entry d k) as_str
      then mask_BEFORE else mask_DEFAULT)"

definition desired_mark :: "json \<Rightarrow> json \<Rightarrow> string \<Rightarrow> string" where
  "desired_mark c d k =
     (if data_entry c k \<noteq> None \<and> Option.bind (data_entry c k) as_str \<noteq> Option.bind (data_entry d k) as_str
      then mask_AFTER else mask_DEFAULT)"

lemma redact_pair_loop_masks:
  assumes "data_distinct c" "data_distinct d"
  shows "distinct keys \<Longrightarrow> set keys \<inter> S = {} \<Longrightarrow>
    (\<And>k. k \<in> set keys \<Longrightarrow> data_entry c k \<noteq> None \<or> data_entry d k \<noteq> None) \<Longrightarrow>
    redact_pair_loop keys (masked S (current_mark c d) c, masked S (desired_mark c d) d) =
      Some (masked (S \<union> set keys) (current_mark c d) c, masked (S \<union> set keys) (desired_mark c d) d)"
proof (induction keys arbitrary: S)
  case (Cons key keys)
  have key: "key \<notin> S" using Cons.prems(2) by simp
  have entry: "data_entry (masked S mark v) key = data_entry v key" for mark v
    using key by (cases "data_entry v key") (simp_all add: data_entry_with_values)
  have "redact_pair_key key (masked S (current_mark c d) c, masked S (desired_mark c d) d) =
      Some (masked (insert key S) (current_mark c d) c, masked (insert key S) (desired_mark c d) d)"
  proof -
    have mc: "set_data_key (masked S (current_mark c d) c) key (current_mark c d key) = masked (insert key S) (current_mark c d) c"
      if "data_entry c key \<noteq> None"
      by (rule set_data_key_masked [OF assms(1) that])
    have md: "set_data_key (masked S (desired_mark c d) d) key (desired_mark c d key) = masked (insert key S) (desired_mark c d) d"
      if "data_entry d key \<noteq> None"
      by (rule set_data_key_masked [OF assms(2) that])
    have body: "redact_pair_key key (masked S (current_mark c d) c, masked S (desired_mark c d) d) =
        Some (if data_entry c key = None then masked S (current_mark c d) c
              else set_data_key (masked S (current_mark c d) c) key (current_mark c d key),
              if data_entry d key = None then masked S (desired_mark c d) d
              else set_data_key (masked S (desired_mark c d) d) key (desired_mark c d key))"
      using Cons.prems(3) [of key] unfolding redact_pair_key_def current_mark_def [of _ _ key] desired_mark_def [of _ _ key]
      by (auto simp: entry Let_def)
    show ?thesis unfolding body
      using mc md masked_absent [of c key S "current_mark c d"] masked_absent [of d key S "desired_mark c d"]
      by (simp only: option.inject prod.inject) (auto simp only: if_True if_False split: if_splits)
  qed
  moreover have "redact_pair_loop keys (masked (insert key S) (current_mark c d) c, masked (insert key S) (desired_mark c d) d) =
      Some (masked (insert key S \<union> set keys) (current_mark c d) c, masked (insert key S \<union> set keys) (desired_mark c d) d)"
    using Cons.prems by (intro Cons.IH) auto
  ultimately show ?case by simp
qed simp

text \<open>The order in which a \<open>HashSet\<close> is walked lists its elements once each.\<close>

definition lists_once :: "(string list \<Rightarrow> string list) \<Rightarrow> bool" where
  "lists_once hash_order \<longleftrightarrow> (\<forall>ks. set (hash_order ks) = set ks \<and> distinct (hash_order ks))"

definition data_keys :: "unredacted_object \<Rightarrow> string set" where
  "data_keys obj = {k. is_secret obj \<and> data_entry (raw_value obj) k \<noteq> None}"

lemma secret_data_keys_set:
  "set (case secret_data_keys obj of None \<Rightarrow> [] | Some ks \<Rightarrow> ks) = data_keys obj"
proof (cases "data_of (raw_value obj)")
  case None
  then show ?thesis by (auto simp: secret_data_keys_def data_keys_def data_entry_of data_of_def)
next
  case (Some d)
  have "fst ` set d = {k. map_of d k \<noteq> None}" by (auto simp: map_of_eq_None_iff)
  with Some show ?thesis
    by (auto simp: secret_data_keys_def data_keys_def data_entry_of simp flip: data_of_def)
qed

lemma redact_pair_masked:
  assumes "lists_once hash_order" "data_distinct (raw_value c)" "data_distinct (raw_value d)"
    and "is_secret c \<or> is_secret d"
  shows "redact_pair hash_order c d =
    Some (\<lparr>shown_value = masked (data_keys c \<union> data_keys d) (current_mark (raw_value c) (raw_value d)) (raw_value c), shown_gvk = raw_gvk c\<rparr>,
          \<lparr>shown_value = masked (data_keys c \<union> data_keys d) (desired_mark (raw_value c) (raw_value d)) (raw_value d), shown_gvk = raw_gvk d\<rparr>)"
proof -
  let ?opt = "\<lambda>ks :: string list option. case ks of None \<Rightarrow> [] | Some ks \<Rightarrow> ks"
  let ?keys = "hash_order (?opt (secret_data_keys c) @ ?opt (secret_data_keys d))"
  have set: "set ?keys = data_keys c \<union> data_keys d" and dist: "distinct ?keys"
    using assms(1) secret_data_keys_set [of c] secret_data_keys_set [of d]
    by (simp_all add: lists_once_def)
  have "data_entry (raw_value c) k \<noteq> None \<or> data_entry (raw_value d) k \<noteq> None" if "k \<in> set ?keys" for k
    using that unfolding set data_keys_def by auto
  from redact_pair_loop_masks [OF assms(2,3) dist _ this, of "{}"]
  have "redact_pair_loop ?keys (raw_value c, raw_value d) =
      Some (masked (data_keys c \<union> data_keys d) (current_mark (raw_value c) (raw_value d)) (raw_value c),
            masked (data_keys c \<union> data_keys d) (desired_mark (raw_value c) (raw_value d)) (raw_value d))"
    by (simp add: set with_values_id)
  then show ?thesis using assms(4) by (auto simp: redact_pair_def Let_def)
qed

lemma fold_set_data_key:
  assumes "data_distinct v"
  shows "(\<And>k. k \<in> set keys \<Longrightarrow> data_entry v k \<noteq> None) \<Longrightarrow>
    fold (\<lambda>key v. set_data_key v key mark0) keys (masked S (\<lambda>_. mark0) v) = masked (S \<union> set keys) (\<lambda>_. mark0) v"
proof (induction keys arbitrary: S)
  case (Cons key keys)
  have "data_entry v key \<noteq> None" using Cons.prems by simp
  from set_data_key_masked [OF assms this, of S "\<lambda>_. mark0"]
  have "fold (\<lambda>key v. set_data_key v key mark0) (key # keys) (masked S (\<lambda>_. mark0) v) =
      fold (\<lambda>key v. set_data_key v key mark0) keys (masked (insert key S) (\<lambda>_. mark0) v)"
    by (simp only: fold_simps)
  also have "\<dots> = masked (insert key S \<union> set keys) (\<lambda>_. mark0) v"
    using Cons.prems by (intro Cons.IH) simp
  finally show ?case by simp
qed simp

lemma redact_masked:
  assumes "data_distinct (raw_value obj)" "is_secret obj"
  shows "redact obj = \<lparr>shown_value = with_values (\<lambda>k w. JStr mask_DEFAULT) (raw_value obj), shown_gvk = raw_gvk obj\<rparr>"
proof (cases "data_of (raw_value obj)")
  case None
  then show ?thesis using assms(2) by (simp add: redact_def with_values_simps(1) Let_def flip: data_of_def)
next
  case (Some d)
  let ?v = "raw_value obj"
  have keys: "k \<in> fst ` set d \<longleftrightarrow> data_entry ?v k \<noteq> None" for k
    using Some by (simp add: data_entry_of map_of_eq_None_iff)
  then have "fold (\<lambda>key v. set_data_key v key mask_DEFAULT) (map fst d) ?v = masked (fst ` set d) (\<lambda>_. mask_DEFAULT) ?v"
    using fold_set_data_key [OF assms(1), of "map fst d" mask_DEFAULT "{}"] by (simp add: with_values_id)
  also have "\<dots> = with_values (\<lambda>k w. JStr mask_DEFAULT) ?v"
    by (rule with_values_cong) (use keys in simp)
  finally show ?thesis using Some assms(2) by (simp add: redact_def Let_def flip: data_of_def)
qed

section \<open>Properties\<close>


definition secret_of :: "(string \<times> json) list \<Rightarrow> unredacted_object" where
  "secret_of d = \<lparr>raw_value = JObj [(''kind'', JStr ''Secret''), (''data'', JObj d)],
     raw_gvk = \<lparr>gvk_group = [], gvk_version = ''v1'', gvk_kind = ''Secret''\<rparr>\<rparr>"

lemma lists_once_remdups: "lists_once remdups"
  by (simp add: lists_once_def)


definition rename_secrets :: "(string \<Rightarrow> string) \<Rightarrow> unredacted_object \<Rightarrow> unredacted_object" where
  "rename_secrets f obj =
     obj\<lparr>raw_value := with_values (\<lambda>k w. case w of JStr s \<Rightarrow> JStr (f s) | _ \<Rightarrow> w) (raw_value obj)\<rparr>"

lemma rename_secrets_simps [simp]:
  "is_secret (rename_secrets f obj) = is_secret obj"
  "raw_gvk (rename_secrets f obj) = raw_gvk obj"
  "data_keys (rename_secrets f obj) = data_keys obj"
  by (auto simp: rename_secrets_def is_secret_def data_keys_def data_entry_with_values)

lemma data_distinct_with_values [simp]: "data_distinct (with_values g v) = data_distinct v"
  by (auto simp: data_distinct_def data_of_with_values distinct_keys_def o_def case_prod_beta split: option.splits)

lemma as_str_rename:
  "Option.bind (data_entry (raw_value (rename_secrets f obj)) k) as_str =
     map_option f (Option.bind (data_entry (raw_value obj) k) as_str)"
  by (cases "data_entry (raw_value obj) k")
    (auto simp: rename_secrets_def data_entry_with_values split: json.splits)

lemma marks_rename:
  assumes "inj f"
  shows "current_mark (raw_value (rename_secrets f c)) (raw_value (rename_secrets f d)) = current_mark (raw_value c) (raw_value d)"
    and "desired_mark (raw_value (rename_secrets f c)) (raw_value (rename_secrets f d)) = desired_mark (raw_value c) (raw_value d)"
proof -
  have eq: "map_option f a = map_option f b \<longleftrightarrow> a = b" for a b
    using option.inj_map [OF assms] by (auto dest: injD)
  have entry: "data_entry (raw_value (rename_secrets f x)) k = None \<longleftrightarrow> data_entry (raw_value x) k = None" for x k
    by (simp add: rename_secrets_def data_entry_with_values)
  show "current_mark (raw_value (rename_secrets f c)) (raw_value (rename_secrets f d)) = current_mark (raw_value c) (raw_value d)"
    "desired_mark (raw_value (rename_secrets f c)) (raw_value (rename_secrets f d)) = desired_mark (raw_value c) (raw_value d)"
    unfolding current_mark_def desired_mark_def as_str_rename eq entry by (rule refl)+
qed

lemma masked_all:
  assumes "\<And>k. data_entry v k \<noteq> None \<Longrightarrow> k \<in> S"
  shows "masked S mark (with_values g v) = masked S mark v"
  unfolding with_values_compose by (rule with_values_cong) (use assms in auto)

text \<open>
  C32. Redaction reveals nothing of the secrets but which are equal: renaming the secret strings of
  both sides by any injective function does not change what is shown.
\<close>

theorem redact_pair_reveals_equality_only:
  assumes "lists_once hash_order" "is_secret c" "is_secret d"
    and "data_distinct (raw_value c)" "data_distinct (raw_value d)" "inj f"
  shows "redact_pair hash_order (rename_secrets f c) (rename_secrets f d) = redact_pair hash_order c d"
proof -
  have secret: "is_secret c \<or> is_secret d" using assms(2) by simp
  have all: "k \<in> data_keys c \<union> data_keys d" if "data_entry (raw_value c) k \<noteq> None" for k
    using that assms(2) by (simp add: data_keys_def)
  have all': "k \<in> data_keys c \<union> data_keys d" if "data_entry (raw_value d) k \<noteq> None" for k
    using that assms(3) by (simp add: data_keys_def)
  have distinct: "data_distinct (raw_value (rename_secrets f c))" "data_distinct (raw_value (rename_secrets f d))"
    using assms(4,5) by (simp_all add: rename_secrets_def)
  have secret': "is_secret (rename_secrets f c) \<or> is_secret (rename_secrets f d)" using secret by simp
  have raw: "raw_value (rename_secrets f x) = with_values (\<lambda>k w. case w of JStr s \<Rightarrow> JStr (f s) | _ \<Rightarrow> w) (raw_value x)" for x
    by (simp add: rename_secrets_def)
  have hidden: "masked (data_keys c \<union> data_keys d) mark (with_values g (raw_value c)) = masked (data_keys c \<union> data_keys d) mark (raw_value c)"
    "masked (data_keys c \<union> data_keys d) mark (with_values g (raw_value d)) = masked (data_keys c \<union> data_keys d) mark (raw_value d)"
    for mark g
    by (rule masked_all, erule all, rule masked_all, erule all')
  show ?thesis
    unfolding redact_pair_masked [OF assms(1) distinct secret'] redact_pair_masked [OF assms(1,4,5) secret]
      marks_rename [OF assms(6)] rename_secrets_simps
    unfolding raw hidden by (rule refl)
qed

theorem redact_pair_reveals_equality_only_witness:
  "redact_pair remdups (rename_secrets (\<lambda>s. CHR ''x'' # s) (secret_of [(''a'', JStr ''1'')]))
     (rename_secrets (\<lambda>s. CHR ''x'' # s) (secret_of [(''a'', JStr ''2'')])) =
   redact_pair remdups (secret_of [(''a'', JStr ''1'')]) (secret_of [(''a'', JStr ''2'')])"
proof -
  have "is_secret (secret_of [(''a'', JStr ''1'')])" "is_secret (secret_of [(''a'', JStr ''2'')])"
    "data_distinct (raw_value (secret_of [(''a'', JStr ''1'')]))" "data_distinct (raw_value (secret_of [(''a'', JStr ''2'')]))"
    by code_simp+
  then show ?thesis
    by (intro redact_pair_reveals_equality_only lists_once_remdups) (simp_all add: inj_def)
qed

text \<open>
  A single secret is shown with every entry of its data masked alike; any other object is shown
  as it is.
\<close>

theorem redact_hides:
  assumes "data_distinct (raw_value obj)"
  shows "shown_value (redact obj) =
    (if is_secret obj then with_values (\<lambda>k w. JStr mask_DEFAULT) (raw_value obj) else raw_value obj)"
  using redact_masked [OF assms] by (simp add: redact_def)

theorem redact_hides_witness:
  "data_entry (shown_value (redact (secret_of [(''a'', JStr ''x'')]))) ''a'' = Some (JStr ''***'')"
proof -
  have "data_distinct (raw_value (secret_of [(''a'', JStr ''x'')]))" "is_secret (secret_of [(''a'', JStr ''x'')])"
    "data_entry (raw_value (secret_of [(''a'', JStr ''x'')])) ''a'' = Some (JStr ''x'')"
    by code_simp+
  then show ?thesis
    using redact_hides [of "secret_of [(''a'', JStr ''x'')]"]
    by (simp add: data_entry_with_values mask_DEFAULT_def)
qed

end
