(* ===== verification/Manifests.thy ===== *)
theory Manifests
  imports Redaction Rust_Order "HOL-Library.Product_Lexorder" "HOL-Library.Option_ord" "HOL-Library.AList"
begin

text \<open>
  Kubernetes manifests as the cluster commands see them: their kind (\<open>k8s/discovery.rs\<close>), the
  install order (\<open>k8s/order.rs\<close>), and the rewritings a diff applies to them (the functions at
  the end of \<open>k8s/diff.rs\<close>). What the \<open>kube\<close> and \<open>k8s_openapi\<close> crates compute is an argument:
  \<open>api_version\<close> of a kind, the parsed form of a custom resource definition, the discovery
  answers of a cluster.
\<close>

section \<open>Kinds\<close>

text \<open>\<open>s.split_once(c)\<close>.\<close>

definition split_once :: "char \<Rightarrow> string \<Rightarrow> (string \<times> string) option" where
  "split_once c s = map_option (\<lambda>i. (take i s, drop (Suc i) s)) (find_char c s)"

definition gvk_of :: "string \<Rightarrow> string \<Rightarrow> string \<Rightarrow> gvk" where
  "gvk_of g v k = \<lparr>gvk_group = g, gvk_version = v, gvk_kind = k\<rparr>"

definition gvk_from_api_version :: "string \<Rightarrow> string \<Rightarrow> gvk option" where
  "gvk_from_api_version api_version kind =
     (let (group, version) =
        (case split_once (CHR ''/'') api_version of Some (g, v) \<Rightarrow> (g, v) | None \<Rightarrow> ([], api_version))
      in Some (gvk_of group version kind))"

definition gvk_from_manifest :: "json \<Rightarrow> gvk option" where
  "gvk_from_manifest manifest =
     Option.bind (Option.bind (value_get manifest ''apiVersion'') as_str) (\<lambda>api_version.
     Option.bind (Option.bind (value_get manifest ''kind'') as_str) (\<lambda>kind.
     gvk_from_api_version api_version kind))"

text \<open>\<open>manifest.pointer("/metadata/<field>").and_then(as_str)\<close>.\<close>

definition metadata_str :: "string \<Rightarrow> json \<Rightarrow> string option" where
  "metadata_str field manifest = Option.bind (value_path manifest [''metadata'', field]) as_str"

section \<open>Install order\<close>

definition ORDER :: "string list" where
  "ORDER =
     [''Namespace'', ''NetworkPolicy'', ''ResourceQuota'', ''LimitRange'', ''PodSecurityPolicy'',
      ''PodDisruptionBudget'', ''ServiceAccount'', ''Secret'', ''ConfigMap'', ''StorageClass'',
      ''PersistentVolume'', ''PersistentVolumeClaim'', ''CustomResourceDefinition'', ''ClusterRole'',
      ''ClusterRoleList'', ''ClusterRoleBinding'', ''ClusterRoleBindingList'', ''Role'', ''RoleList'',
      ''RoleBinding'', ''RoleBindingList'', ''Service'', ''DaemonSet'', ''Pod'',
      ''ReplicationController'', ''ReplicaSet'', ''Deployment'', ''HorizontalPodAutoscaler'',
      ''StatefulSet'', ''Job'', ''CronJob'', ''Ingress'', ''APIService'']"

fun position :: "'a \<Rightarrow> 'a list \<Rightarrow> nat option" where
  "position x [] = None"
| "position x (y # ys) = (if y = x then Some 0 else map_option Suc (position x ys))"

definition kind_position :: "string \<Rightarrow> nat" where
  "kind_position kind = (case position kind ORDER of Some i \<Rightarrow> i | None \<Rightarrow> length ORDER)"

definition or_empty :: "string option \<Rightarrow> string" where
  "or_empty s = (case s of Some t \<Rightarrow> t | None \<Rightarrow> [])"

definition manifest_sort_key :: "json \<Rightarrow> nat \<times> string \<times> string \<times> string \<times> string" where
  "manifest_sort_key manifest =
     (let kind = or_empty (Option.bind (value_get manifest ''kind'') as_str);
          namespace = or_empty (metadata_str ''namespace'' manifest);
          name = or_empty (metadata_str ''name'' manifest);
          generated = or_empty (metadata_str ''generateName'' manifest)
      in (kind_position kind, kind, namespace, name, generated))"

definition compare_manifests :: "json \<Rightarrow> json \<Rightarrow> ordering" where
  "compare_manifests left right = compare_lin (manifest_sort_key left) (manifest_sort_key right)"

section \<open>Discovered resources\<close>

datatype resource_scope = Namespaced | ClusterWide

datatype kube_scope = Scope_Namespaced | Scope_Cluster

record api_resource =
  ar_group :: string
  ar_version :: string
  ar_kind :: string
  ar_plural :: string

record api_capabilities =
  cap_scope :: kube_scope
  cap_operations :: "string list"

definition supports_operation :: "api_capabilities \<Rightarrow> string \<Rightarrow> bool" where
  "supports_operation caps verb = (verb \<in> set (cap_operations caps))"

record discovered_resource =
  dr_api_resource :: api_resource
  dr_scope :: resource_scope
  dr_capabilities :: api_capabilities

text \<open>A \<open>HashMap\<close> is an association list in the unspecified order of its iterators.\<close>

record api_resource_cache =
  pending_crds :: "gvk set"
  resources :: "(gvk \<times> discovered_resource) list"

definition gvk_from_api_resource :: "api_resource \<Rightarrow> gvk" where
  "gvk_from_api_resource ar = gvk_of (ar_group ar) (ar_version ar) (ar_kind ar)"

definition scope_of :: "kube_scope \<Rightarrow> resource_scope" where
  "scope_of s = (case s of Scope_Namespaced \<Rightarrow> Namespaced | Scope_Cluster \<Rightarrow> ClusterWide)"

definition cache_lookup :: "api_resource_cache \<Rightarrow> gvk \<Rightarrow> discovered_resource option" where
  "cache_lookup self g = map_of (resources self) g"

definition is_pending_crd :: "api_resource_cache \<Rightarrow> gvk \<Rightarrow> bool" where
  "is_pending_crd self g = (g \<in> pending_crds self)"

definition cache_iter :: "api_resource_cache \<Rightarrow> (gvk \<times> discovered_resource) list" where
  "cache_iter self = resources self"

text \<open>A completed discovery: per API group, per version of it, the resources and capabilities.\<close>

definition from_discovery ::
  "(api_resource \<times> api_capabilities) list list list \<Rightarrow> api_resource_cache" where
  "from_discovery groups =
     \<lparr>pending_crds = {},
      resources =
        fold (\<lambda>versions. fold (\<lambda>version. fold (\<lambda>(ar, caps).
            AList.update (gvk_from_api_resource ar)
              \<lparr>dr_api_resource = ar, dr_scope = scope_of (cap_scope caps), dr_capabilities = caps\<rparr>)
          version) versions) groups []\<rparr>"

text \<open>
  \<open>build_lazy\<close>: \<open>pinned\<close> is the cluster's answer for one kind; the list holds the required kinds
  in the order in which their tasks finish.
\<close>

definition lazy_result ::
  "(gvk \<Rightarrow> 'e + api_resource \<times> api_capabilities) \<Rightarrow> gvk \<Rightarrow>
   (gvk \<times> discovered_resource) list \<times> (gvk \<times> 'e) list \<Rightarrow>
   (gvk \<times> discovered_resource) list \<times> (gvk \<times> 'e) list" where
  "lazy_result pinned g = (\<lambda>(found, errors).
     case pinned g of
       Inr (ar, caps) \<Rightarrow>
         (AList.update g \<lparr>dr_api_resource = ar, dr_scope = scope_of (cap_scope caps), dr_capabilities = caps\<rparr> found,
          errors)
     | Inl e \<Rightarrow> (found, errors @ [(g, e)]))"

definition build_lazy ::
  "(gvk \<Rightarrow> 'e + api_resource \<times> api_capabilities) \<Rightarrow> gvk list \<Rightarrow> (gvk \<times> 'e) + api_resource_cache" where
  "build_lazy pinned keys =
     (let (found, errors) = fold (lazy_result pinned) keys ([], [])
      in if found = [] \<and> errors \<noteq> [] then Inl (hd errors)
         else Inr \<lparr>pending_crds = {}, resources = found\<rparr>)"

datatype 'e discovery_error = FullDiscovery 'e | ResourceDiscovery gvk 'e

definition build_full ::
  "'e + (api_resource \<times> api_capabilities) list list list \<Rightarrow> 'e discovery_error + api_resource_cache" where
  "build_full full = (case full of Inl e \<Rightarrow> Inl (FullDiscovery e) | Inr groups \<Rightarrow> Inr (from_discovery groups))"

text \<open>The three ways the API is asked: aggregated, full, and one kind at a time.\<close>

record 'e discovery_answers =
  answer_aggregated :: "'e + (api_resource \<times> api_capabilities) list list list"
  answer_full :: "'e + (api_resource \<times> api_capabilities) list list list"
  answer_pinned :: "gvk \<Rightarrow> 'e + api_resource \<times> api_capabilities"

definition cache_build ::
  "'e discovery_answers \<Rightarrow> gvk list \<Rightarrow> bool \<Rightarrow> 'e discovery_error + api_resource_cache" where
  "cache_build answers required_keys need_full_discovery =
     (let fallback =
        (if need_full_discovery then build_full (answer_full answers)
         else (case build_lazy (answer_pinned answers) required_keys of
                 Inl (g, e) \<Rightarrow> Inl (ResourceDiscovery g e)
               | Inr cache \<Rightarrow> Inr cache))
      in case answer_aggregated answers of
           Inr discovery \<Rightarrow>
             (let cache = from_discovery discovery
              in if filter (\<lambda>g. cache_lookup cache g = None) required_keys = [] then Inr cache else fallback)
         | Inl e \<Rightarrow> fallback)"

subsection \<open>Custom resource definitions in the manifests\<close>

record crd_version =
  crdv_name :: string
  crdv_served :: bool

record crd =
  crd_group :: string
  crd_kind :: string
  crd_plural :: string
  crd_scope :: string
  crd_versions :: "crd_version list"

definition crd_resources :: "(json \<Rightarrow> crd option) \<Rightarrow> json \<Rightarrow> (gvk \<times> discovered_resource) list" where
  "crd_resources parse_crd manifest =
     (if Option.bind (value_get manifest ''apiVersion'') as_str \<noteq> Some ''apiextensions.k8s.io/v1'' \<or>
         Option.bind (value_get manifest ''kind'') as_str \<noteq> Some ''CustomResourceDefinition'' then []
      else case parse_crd manifest of
        None \<Rightarrow> []
      | Some c \<Rightarrow>
          (let entries = (\<lambda>scope kscope.
             map (\<lambda>version.
               let g = gvk_of (crd_group c) (crdv_name version) (crd_kind c)
               in (g, \<lparr>dr_api_resource =
                          \<lparr>ar_group = gvk_group g, ar_version = gvk_version g, ar_kind = gvk_kind g, ar_plural = crd_plural c\<rparr>,
                       dr_scope = scope,
                       dr_capabilities = \<lparr>cap_scope = kscope, cap_operations = []\<rparr>\<rparr>))
               (filter crdv_served (crd_versions c)))
           in if crd_scope c = ''Namespaced'' then entries Namespaced Scope_Namespaced
              else if crd_scope c = ''Cluster'' then entries ClusterWide Scope_Cluster
              else []))"

definition from_crds :: "(json \<Rightarrow> crd option) \<Rightarrow> json list \<Rightarrow> api_resource_cache" where
  "from_crds parse_crd manifests =
     \<lparr>pending_crds = {},
      resources = fold (\<lambda>manifest. fold (\<lambda>(g, r). AList.update g r) (crd_resources parse_crd manifest)) manifests []\<rparr>"

definition with_crds :: "(json \<Rightarrow> crd option) \<Rightarrow> api_resource_cache \<Rightarrow> json list \<Rightarrow> api_resource_cache" where
  "with_crds parse_crd self manifests =
     fold (\<lambda>(g, resource) cache.
         if map_of (resources cache) g = None
         then \<lparr>pending_crds = insert g (pending_crds cache),
               resources = AList.update g resource (resources cache)\<rparr>
         else cache)
       (resources (from_crds parse_crd manifests)) self"

section \<open>Rewriting a manifest\<close>

text \<open>\<open>map.entry(k).or_insert(v)\<close>.\<close>

definition entry_or_insert :: "string \<Rightarrow> json \<Rightarrow> json_map \<Rightarrow> json_map" where
  "entry_or_insert k v m = (if contains_key m k then m else map_insert k v m)"

definition normalize_manifest_namespace :: "json \<Rightarrow> string option \<Rightarrow> json" where
  "normalize_manifest_namespace manifest namespace =
     (case namespace of
        None \<Rightarrow> manifest
      | Some ns \<Rightarrow>
          (case manifest of
             JObj obj \<Rightarrow>
               (let obj = entry_or_insert ''metadata'' (JObj []) obj
                in case map_of obj ''metadata'' of
                     Some (JObj meta) \<Rightarrow>
                       JObj (map_insert ''metadata'' (JObj (entry_or_insert ''namespace'' (JStr ns) meta)) obj)
                   | _ \<Rightarrow> JObj obj)
           | _ \<Rightarrow> manifest))"

definition ensure_annotations :: "json \<Rightarrow> json" where
  "ensure_annotations manifest =
     (case manifest of
        JObj obj \<Rightarrow>
          (case map_of obj ''metadata'' of
             Some (JObj metadata) \<Rightarrow>
               JObj (map_insert ''metadata'' (JObj (entry_or_insert ''annotations'' (JObj []) metadata)) obj)
           | _ \<Rightarrow> manifest)
      | _ \<Rightarrow> manifest)"

definition KUBECTL_STRIP_FIELDS :: "string list" where
  "KUBECTL_STRIP_FIELDS = [''managedFields'']"

fun strip_kubectl_fields :: "json \<Rightarrow> json" where
  "strip_kubectl_fields (JObj m) =
     JObj (fold (\<lambda>(k, v) cleaned.
         if k \<in> set KUBECTL_STRIP_FIELDS then cleaned
         else if k = ''metadata'' then
           (case v of
              JObj meta \<Rightarrow>
                map_insert k (JObj (fold (\<lambda>(mk, mv) cleaned_meta.
                    if mk \<notin> set KUBECTL_STRIP_FIELDS then map_insert mk (strip_kubectl_fields mv) cleaned_meta
                    else cleaned_meta) meta [])) cleaned
            | _ \<Rightarrow> map_insert k (strip_kubectl_fields v) cleaned)
         else map_insert k (strip_kubectl_fields v) cleaned) m [])"
| "strip_kubectl_fields (JArr arr) = JArr (map strip_kubectl_fields arr)"
| "strip_kubectl_fields v = v"

function (sequential) filter_to_manifest_fields :: "json \<Rightarrow> json \<Rightarrow> json" where
  "filter_to_manifest_fields (JObj curr_map) (JObj man_map) =
     JObj (fold (\<lambda>(key, man_val) filtered.
         case map_of curr_map key of
           Some curr_val \<Rightarrow> map_insert key (filter_to_manifest_fields curr_val man_val) filtered
         | None \<Rightarrow> filtered) man_map [])"
| "filter_to_manifest_fields (JArr curr_arr) (JArr man_arr) =
     JArr (map (\<lambda>(i, curr_elem).
         if i < length man_arr then filter_to_manifest_fields curr_elem (man_arr ! i) else curr_elem)
       (List.enumerate 0 curr_arr))"
| "filter_to_manifest_fields live _ = live"
  by pat_completeness auto
termination
  by (relation "measure (\<lambda>(_, man). size man)")
    (auto dest: size_json_entry intro: size_json_item [THEN less_le_trans] nth_mem)

end
