(* ===== verification/Kube_Api.thy ===== *)
theory Kube_Api
  imports Manifests
begin

text \<open>
  The Kubernetes API as the cluster commands call it. The cluster is a state of any type
  \<open>'c\<close>; a call reads the state and gives an answer and the next state. The calls are fields of
  \<open>kube_client\<close> (the client type of the \<open>kube\<close> crate, which is not part of the sources); the
  locales state what its documentation promises of them.
\<close>

section \<open>Stateful calls\<close>

type_synonym ('c, 'e, 'a) io = "'c \<Rightarrow> ('e + 'a) \<times> 'c"

definition io_lift :: "'e + 'a \<Rightarrow> ('c, 'e, 'a) io" where
  "io_lift r = (\<lambda>c. (r, c))"

abbreviation io_ok :: "'a \<Rightarrow> ('c, 'e, 'a) io" where
  "io_ok x \<equiv> io_lift (Inr x)"

abbreviation io_err :: "'e \<Rightarrow> ('c, 'e, 'a) io" where
  "io_err e \<equiv> io_lift (Inl e)"

definition io_then :: "('c, 'e, 'a) io \<Rightarrow> ('a \<Rightarrow> ('c, 'e, 'b) io) \<Rightarrow> ('c, 'e, 'b) io" where
  "io_then m f = (\<lambda>c. case m c of (Inl e, d) \<Rightarrow> (Inl e, d) | (Inr x, d) \<Rightarrow> f x d)"

text \<open>\<open>call.await\<close> followed by a \<open>match\<close> on its result.\<close>

definition io_match :: "('c, 'e, 'a) io \<Rightarrow> ('e + 'a \<Rightarrow> ('c, 'f, 'b) io) \<Rightarrow> ('c, 'f, 'b) io" where
  "io_match m f = (\<lambda>c. case m c of (r, d) \<Rightarrow> f r d)"

definition io_map_err :: "('e \<Rightarrow> 'f) \<Rightarrow> ('c, 'e, 'a) io \<Rightarrow> ('c, 'f, 'a) io" where
  "io_map_err g m = (\<lambda>c. case m c of (Inl e, d) \<Rightarrow> (Inl (g e), d) | (Inr x, d) \<Rightarrow> (Inr x, d))"

text \<open>A loop of calls that stops at the first error, collecting the results.\<close>

fun io_each :: "('a \<Rightarrow> ('c, 'e, 'b) io) \<Rightarrow> 'a list \<Rightarrow> ('c, 'e, 'b list) io" where
  "io_each f [] = io_ok []"
| "io_each f (x # xs) = io_then (f x) (\<lambda>y. io_then (io_each f xs) (\<lambda>ys. io_ok (y # ys)))"

subsection \<open>Calls that leave the cluster as it is\<close>

definition unchanging :: "('c, 'e, 'a) io \<Rightarrow> bool" where
  "unchanging m = (\<forall>c. snd (m c) = c)"

named_theorems unchanging_intros \<open>calls that leave the cluster as it is\<close>

lemma unchanging_lift [unchanging_intros, simp]: "unchanging (io_lift r)"
  by (simp add: unchanging_def io_lift_def)

lemma unchanging_then [unchanging_intros]:
  "unchanging m \<Longrightarrow> (\<And>x. unchanging (f x)) \<Longrightarrow> unchanging (io_then m f)"
  by (auto simp: unchanging_def io_then_def split: prod.splits sum.splits) (metis snd_conv)+

lemma unchanging_match [unchanging_intros]:
  "unchanging m \<Longrightarrow> (\<And>r. unchanging (f r)) \<Longrightarrow> unchanging (io_match m f)"
  by (auto simp: unchanging_def io_match_def split: prod.splits) (metis snd_conv)

lemma unchanging_map_err [unchanging_intros]: "unchanging m \<Longrightarrow> unchanging (io_map_err g m)"
  by (auto simp: unchanging_def io_map_err_def split: prod.splits sum.splits) (metis snd_conv)+

lemma unchanging_each [unchanging_intros]: "(\<And>x. unchanging (f x)) \<Longrightarrow> unchanging (io_each f xs)"
  by (induction xs) (auto intro: unchanging_intros)

lemma unchanging_if [unchanging_intros]:
  "(b \<Longrightarrow> unchanging m) \<Longrightarrow> (\<not> b \<Longrightarrow> unchanging n) \<Longrightarrow> unchanging (if b then m else n)"
  by simp

text \<open>The answer of such a call is a function of the state alone.\<close>

definition answer :: "('c, 'e, 'a) io \<Rightarrow> 'c \<Rightarrow> 'e + 'a" where
  "answer m c = fst (m c)"

lemma answer_lift [simp]: "answer (io_lift r) c = r"
  by (simp add: answer_def io_lift_def)

lemma unchanging_run: "unchanging m \<Longrightarrow> m c = (answer m c, c)"
  by (auto simp: unchanging_def answer_def) (metis prod.collapse)

lemma answer_then: "unchanging m \<Longrightarrow> answer (io_then m f) c = and_then (answer m c) (\<lambda>x. answer (f x) c)"
  by (simp add: answer_def [of "io_then m f"] io_then_def unchanging_run [of m] and_then_def)
    (simp add: answer_def split: sum.split)

lemma answer_match: "unchanging m \<Longrightarrow> answer (io_match m f) c = answer (f (answer m c)) c"
  by (simp add: answer_def [of "io_match m f"] io_match_def unchanging_run [of m]) (simp add: answer_def)

lemma answer_map_err: "answer (io_map_err g m) c = (case answer m c of Inl e \<Rightarrow> Inl (g e) | Inr x \<Rightarrow> Inr x)"
  by (auto simp: answer_def io_map_err_def split: prod.splits sum.splits)

lemma answer_each:
  assumes "\<And>x. unchanging (f x)"
  shows "answer (io_each f xs) c = Inr ys \<longleftrightarrow> list_all2 (\<lambda>x y. answer (f x) c = Inr y) xs ys"
proof (induction xs arbitrary: ys)
  case (Cons x xs)
  have u: "unchanging (io_each f xs)" by (rule unchanging_each [OF assms])
  show ?case
    by (auto simp: answer_then [OF assms] answer_then [OF u] and_then_Inr_iff Cons.IH list_all2_Cons1)
qed auto

section \<open>Objects and requests\<close>

datatype kube_error = Kube_Api nat string | Kube_Service string | Kube_Other string

text \<open>
  A \<open>DynamicObject\<close>: the typed metadata the sources read, and the value the object is
  serialised to.
\<close>

record dynamic_object =
  obj_name :: "string option"
  obj_namespace :: "string option"
  obj_uid :: "string option"
  obj_annotations :: "(string \<rightharpoonup> string) option"
  obj_owner_controllers :: "bool option list option"
  obj_managers :: "string option list option"
  obj_value :: json

text \<open>An \<open>Api<DynamicObject>\<close>: the resource, and the namespace unless it is cluster-wide.\<close>

record api_handle =
  api_res :: api_resource
  api_ns :: "string option"

datatype patch_body = Apply_Patch json | Strategic_Patch json | Merge_Patch json

record patch_params =
  pp_dry_run :: bool
  pp_force :: bool
  pp_field_manager :: "string option"

record delete_params =
  dp_dry_run :: bool
  dp_grace_period :: "nat option"

record 'c kube_client =
  api_get_opt :: "api_handle \<Rightarrow> string \<Rightarrow> ('c, kube_error, dynamic_object option) io"
  api_list :: "api_handle \<Rightarrow> string \<Rightarrow> ('c, kube_error, dynamic_object list) io"
  api_patch :: "api_handle \<Rightarrow> string \<Rightarrow> patch_params \<Rightarrow> patch_body \<Rightarrow> ('c, kube_error, dynamic_object) io"
  api_create :: "api_handle \<Rightarrow> bool \<Rightarrow> dynamic_object \<Rightarrow> ('c, kube_error, dynamic_object) io"
  api_delete :: "api_handle \<Rightarrow> string \<Rightarrow> delete_params \<Rightarrow> ('c, kube_error, unit) io"

definition dynamic_api :: "api_resource \<Rightarrow> string option \<Rightarrow> api_handle" where
  "dynamic_api ar namespace = \<lparr>api_res = ar, api_ns = namespace\<rparr>"

text \<open>Reads and dry runs leave the cluster as it is.\<close>

locale dry_runs =
  fixes client :: "'c kube_client"
  assumes get_reads: "unchanging (api_get_opt client h n)"
    and list_reads: "unchanging (api_list client h l)"
    and patch_dry: "pp_dry_run p \<Longrightarrow> unchanging (api_patch client h n p b)"
    and create_dry: "unchanging (api_create client h True obj)"
begin

lemmas calls_unchanging = get_reads list_reads patch_dry create_dry

end

section \<open>Other code\<close>

text \<open>
  The functions of other crates, and the YAML serialiser: \<open>api_version()\<close> of a kind, the
  conversions of \<open>serde_json\<close>, the definition of a custom resource, the texts of values.
\<close>

record externals =
  x_api_version :: "gvk \<Rightarrow> string"
  x_from_value :: "json \<Rightarrow> dynamic_object option"
  x_from_str :: "string \<Rightarrow> json option"
  x_to_yaml :: "json \<Rightarrow> string option"
  x_parse_crd :: "json \<Rightarrow> crd option"
  x_error_text :: "kube_error \<Rightarrow> string"

end
