(* ===== verification/Manifest_Processing.thy ===== *)
theory Manifest_Processing
  imports Manifests
begin

text \<open>
  Turning an evaluated environment into manifests (\<open>crates/rtk-environment/src/export/process.rs\<close>):
  the walk that collects them, the processing steps of an environment's spec, and the
  \<open>--target\<close> expressions. SHA-256 and the regular expressions are other crates': \<open>sha256\<close> gives
  the bytes of a digest, a compiled expression is its pattern and \<open>is_match\<close> its matching.
\<close>

section \<open>Processing steps\<close>

definition ENVIRONMENT_LABEL :: string where
  "ENVIRONMENT_LABEL = ''tanka.dev/environment''"

definition CLUSTER_WIDE_KINDS :: "string list" where
  "CLUSTER_WIDE_KINDS =
     [''APIService'', ''CertificateSigningRequest'', ''ClusterRole'', ''ClusterRoleBinding'',
      ''ComponentStatus'', ''CSIDriver'', ''CSINode'', ''CustomResourceDefinition'',
      ''MutatingWebhookConfiguration'', ''Namespace'', ''Node'', ''NodeMetrics'', ''PersistentVolume'',
      ''PodSecurityPolicy'', ''PriorityClass'', ''RuntimeClass'', ''SelfSubjectAccessReview'',
      ''SelfSubjectRulesReview'', ''StorageClass'', ''SubjectAccessReview'', ''TokenReview'',
      ''ValidatingWebhookConfiguration'', ''VolumeAttachment'']"

record processing =
  pr_namespace :: string
  pr_environment_label :: "string option"
  pr_annotations :: "(string \<times> string) list"
  pr_labels :: "(string \<times> string) list"

text \<open>What \<open>Processing::new\<close> reads of an environment; its hash maps in the order of their iterators.\<close>

record resource_defaults =
  rd_annotations :: "(string \<times> string) list"
  rd_labels :: "(string \<times> string) list"

record environment =
  env_name :: "string option"
  env_namespace :: "string option"
  spec_namespace :: string
  spec_inject_labels :: bool
  spec_resource_defaults :: "resource_defaults option"

definition hex_byte :: "8 word \<Rightarrow> string" where
  "hex_byte b = [''0123456789abcdef'' ! (unat b div 16), ''0123456789abcdef'' ! (unat b mod 16)]"

definition hex_loop :: "8 word list \<Rightarrow> string" where
  "hex_loop digest = fold (\<lambda>byte label. if length label \<ge> 48 then label else label @ hex_byte byte) digest []"

definition environment_label :: "(string \<Rightarrow> 8 word list) \<Rightarrow> string option \<Rightarrow> string option \<Rightarrow> string" where
  "environment_label sha256 name namespace =
     take 48 (hex_loop (sha256 (or_empty name @ '':'' @ or_empty namespace)))"

definition sorted_entries :: "(string \<times> string) list option \<Rightarrow> (string \<times> string) list" where
  "sorted_entries m = sort_key fst (case m of None \<Rightarrow> [] | Some entries \<Rightarrow> entries)"

definition processing_new :: "(string \<Rightarrow> 8 word list) \<Rightarrow> environment \<Rightarrow> bool \<Rightarrow> processing" where
  "processing_new sha256 env configured =
     \<lparr>pr_namespace = (if configured then spec_namespace env else []),
      pr_environment_label =
        (if spec_inject_labels env then Some (environment_label sha256 (env_name env) (env_namespace env)) else None),
      pr_annotations = sorted_entries (map_option rd_annotations (spec_resource_defaults env)),
      pr_labels = sorted_entries (map_option rd_labels (spec_resource_defaults env))\<rparr>"

text \<open>
  A reference to a part of a manifest is written back by the function that changes the part:
  \<open>metadata_mut\<close> and \<open>string_map_mut\<close> create the map they refer to, and change nothing else when
  there is no such map to give.
\<close>

definition metadata_mut :: "(json_map \<Rightarrow> json_map) \<Rightarrow> json \<Rightarrow> json" where
  "metadata_mut f manifest =
     (case manifest of
        JObj m \<Rightarrow>
          (let m = entry_or_insert ''metadata'' (JObj []) m
           in case map_of m ''metadata'' of
                Some (JObj metadata) \<Rightarrow> JObj (map_insert ''metadata'' (JObj (f metadata)) m)
              | _ \<Rightarrow> JObj m)
      | _ \<Rightarrow> manifest)"

definition string_map_mut :: "string \<Rightarrow> (json_map \<Rightarrow> json_map) \<Rightarrow> json_map \<Rightarrow> json_map" where
  "string_map_mut field f metadata =
     (case map_of metadata field of
        Some (JObj m) \<Rightarrow> map_insert field (JObj (f m)) metadata
      | Some JNull \<Rightarrow> map_insert field (JObj (f [])) metadata
      | None \<Rightarrow> map_insert field (JObj (f [])) metadata
      | Some _ \<Rightarrow> metadata)"

definition json_kind :: "json \<Rightarrow> string" where
  "json_kind kind = or_empty (as_str kind)"

definition is_namespaced :: "string \<Rightarrow> json_map \<Rightarrow> bool" where
  "is_namespaced kind metadata =
     (case Option.bind (Option.bind (Option.bind (map_of metadata ''annotations'') as_object)
             (\<lambda>annotations. map_of annotations ''tanka.dev/namespaced'')) as_str of
        Some namespaced \<Rightarrow> namespaced = ''true''
      | None \<Rightarrow> kind \<notin> set CLUSTER_WIDE_KINDS)"

definition has_namespace :: "json_map \<Rightarrow> bool" where
  "has_namespace metadata =
     (case Option.bind (map_of metadata ''namespace'') as_str of Some ns \<Rightarrow> ns \<noteq> [] | None \<Rightarrow> False)"

definition inject_namespace :: "processing \<Rightarrow> json \<Rightarrow> json" where
  "inject_namespace self manifest =
     (case map_option json_kind (value_get manifest ''kind'') of
        None \<Rightarrow> manifest
      | Some kind \<Rightarrow>
          metadata_mut (\<lambda>metadata.
            if is_namespaced kind metadata \<and> \<not> has_namespace metadata \<and> pr_namespace self \<noteq> []
            then map_insert ''namespace'' (JStr (pr_namespace self)) metadata else metadata) manifest)"

definition inject_environment_label :: "processing \<Rightarrow> json \<Rightarrow> json" where
  "inject_environment_label self manifest =
     (case pr_environment_label self of
        None \<Rightarrow> manifest
      | Some label \<Rightarrow>
          metadata_mut (string_map_mut ''labels'' (map_insert ENVIRONMENT_LABEL (JStr label))) manifest)"

definition inject_defaults :: "string \<times> (string \<times> string) list \<Rightarrow> json_map \<Rightarrow> json_map" where
  "inject_defaults = (\<lambda>(field, defaults) metadata.
     if defaults = [] then metadata
     else string_map_mut field (fold (\<lambda>(key, v). entry_or_insert key (JStr v)) defaults) metadata)"

definition inject_resource_defaults :: "processing \<Rightarrow> json \<Rightarrow> json" where
  "inject_resource_defaults self manifest =
     (if pr_annotations self = [] \<and> pr_labels self = [] then manifest
      else metadata_mut
             (fold inject_defaults [(''annotations'', pr_annotations self), (''labels'', pr_labels self)]) manifest)"

definition strip_empty_map :: "string \<Rightarrow> json_map \<Rightarrow> json_map" where
  "strip_empty_map field metadata =
     (let is_empty =
        (case map_of metadata field of
           Some JNull \<Rightarrow> True
         | Some (JObj m) \<Rightarrow> m = []
         | _ \<Rightarrow> False)
      in if is_empty then map_remove field metadata else metadata)"

definition strip_empty_metadata_maps :: "json \<Rightarrow> json" where
  "strip_empty_metadata_maps manifest =
     (case manifest of
        JObj m \<Rightarrow>
          (case map_of m ''metadata'' of
             Some (JObj metadata) \<Rightarrow>
               JObj (map_insert ''metadata'' (JObj (fold strip_empty_map [''annotations'', ''labels''] metadata)) m)
           | _ \<Rightarrow> manifest)
      | _ \<Rightarrow> manifest)"

definition processing_apply :: "processing \<Rightarrow> json \<Rightarrow> json" where
  "processing_apply self manifest =
     strip_empty_metadata_maps
       (inject_resource_defaults self (inject_environment_label self (inject_namespace self manifest)))"

section \<open>Collecting manifests\<close>

datatype walk_error = Invalid_Manifest string string

datatype interrupted = Primitive string | Failed walk_error

text \<open>The position of the last character of a string that is in a list.\<close>

fun rfind_any :: "char list \<Rightarrow> string \<Rightarrow> nat option" where
  "rfind_any cs [] = None"
| "rfind_any cs (x # xs) =
     (case rfind_any cs xs of Some i \<Rightarrow> Some (Suc i) | None \<Rightarrow> (if x \<in> set cs then Some 0 else None))"

definition parent_path :: "string \<Rightarrow> string" where
  "parent_path path =
     (let base = (case rfind_any [CHR ''.'', CHR ''[''] path of
                    None \<Rightarrow> []
                  | Some index \<Rightarrow> (if index = 0 then [] else take index path))
      in if base = [] then ''.'' else base)"

fun go_type_name :: "json \<Rightarrow> string" where
  "go_type_name JNull = ''<nil>''"
| "go_type_name (JBool _) = ''bool''"
| "go_type_name (JNum _) = ''float64''"
| "go_type_name (JStr _) = ''string''"
| "go_type_name (JArr _) = ''[]interface {}''"
| "go_type_name (JObj _) = ''map[string]interface {}''"

definition quoted :: "string \<Rightarrow> string" where
  "quoted s = CHR 34 # s @ [CHR 34]"

definition attribute_defect :: "json_map \<Rightarrow> string \<Rightarrow> string option" where
  "attribute_defect object attribute =
     (case map_of object attribute of
        None \<Rightarrow> Some (''missing attribute '' @ quoted attribute)
      | Some JNull \<Rightarrow> Some (''missing attribute '' @ quoted attribute)
      | Some (JStr text) \<Rightarrow>
          (if text = [] then Some (''attribute '' @ quoted attribute @ '' is empty'') else None)
      | Some other \<Rightarrow>
          Some (''attribute '' @ quoted attribute @ '' is not a string, it is a '' @ go_type_name other))"

definition manifest_defect :: "json_map \<Rightarrow> string option" where
  "manifest_defect object = find_map (attribute_defect object) [''apiVersion'', ''kind'']"

definition is_json_string :: "json option \<Rightarrow> bool" where
  "is_json_string v = (case v of Some (JStr _) \<Rightarrow> True | _ \<Rightarrow> False)"

definition validate_manifest :: "json \<Rightarrow> string \<Rightarrow> walk_error + unit" where
  "validate_manifest manifest path =
     (let metadata = Option.bind (value_get manifest ''metadata'') as_object;
          has_name = (case metadata of
              None \<Rightarrow> False
            | Some m \<Rightarrow> is_json_string (map_of m ''name'') \<or> is_json_string (map_of m ''generateName''));
          problems = (if metadata = None then [''metadata: missing or not an object''] else []) @
                     (if has_name then [] else [''metadata.name: missing or not of string type''])
      in if problems = [] then Inr ()
         else Inl (Invalid_Manifest (if path = [] then ''.'' else path) (join ''; '' problems)))"

definition explain :: "string \<Rightarrow> interrupted + 'a \<Rightarrow> interrupted + 'a" where
  "explain defect r =
     (case r of
        Inl (Primitive path) \<Rightarrow> Inl (Failed (Invalid_Manifest path defect))
      | _ \<Rightarrow> r)"

lemma explain_cong [fundef_cong]: "d = d' \<Longrightarrow> r = r' \<Longrightarrow> explain d r = explain d' r'"
  by simp

lemma set_map_remove_subset: "set (map_remove k m) \<subseteq> set m"
proof (cases "map_of m k")
  case (Some v)
  show ?thesis using mset_map_remove [OF Some] by (metis in_diffD set_mset_mset subsetI)
qed simp

lemma size_map_remove_entry [termination_simp]:
  "(k, v) \<in> set (map_remove f m) \<Longrightarrow> size v < Suc (size_list (size_prod (\<lambda>_. 0) size) m)"
  by (rule size_json_entry, erule subsetD [OF set_map_remove_subset])

lemma enumerate_item: "(i, x) \<in> set (List.enumerate n xs) \<Longrightarrow> x \<in> set xs"
  by (auto simp: in_set_enumerate_eq)

lemma item_size: "(i, x) \<in> set (List.enumerate n xs) \<Longrightarrow> size x < size (JArr xs)"
  by (rule size_json_item) (rule enumerate_item)

text \<open>\<open>walk\<close> and \<open>walk_object\<close>; the manifests collected so far are the state of the walk.\<close>

function (sequential) walk :: "json \<Rightarrow> string \<Rightarrow> json list \<Rightarrow> interrupted + json list"
  and walk_object :: "json_map \<Rightarrow> string \<Rightarrow> json list \<Rightarrow> interrupted + json list" where
  "walk (JArr items) path ms =
     for_each (\<lambda>(index, item). walk item (path @ ''['' @ dec_nat index @ '']'')) (List.enumerate 0 items) ms"
| "walk (JObj object) path ms = walk_object object path ms"
| "walk v path ms = Inl (Primitive (parent_path path))"
| "walk_object object0 path ms =
     (let object = map_remove ''__ksonnet'' object0
      in case manifest_defect object of
           None \<Rightarrow>
             (if Option.bind (map_of object ''kind'') as_str = Some ''List'' then
                (case map_of object ''items'' of
                   Some (JArr items) \<Rightarrow>
                     for_each (\<lambda>(index, item). walk item (path @ ''.items['' @ dec_nat index @ '']''))
                       (List.enumerate 0 items) ms
                 | _ \<Rightarrow> Inr ms)
              else
                (case validate_manifest (JObj object) path of
                   Inl e \<Rightarrow> Inl (Failed e)
                 | Inr u \<Rightarrow> Inr (ms @ [JObj object])))
         | Some defect \<Rightarrow>
             for_each (\<lambda>(field, v) ms.
                 if v = JNull then Inr ms else explain defect (walk v (path @ ''.'' @ field) ms))
               (sort_key fst object) ms)"
  by pat_completeness auto
termination
proof (relation "measure (\<lambda>x. case x of Inl (v, _, _) \<Rightarrow> 2 * size v | Inr (m, _, _) \<Rightarrow> 2 * size (JObj m) - 1)",
    simp_all, goal_cases)
  case (1 items p i v)
  from item_size [OF 1(1) [folded 1(2)]] show ?case by simp
next
  case (2 object0 object items_value items p i v)
  from map_of_SomeD [OF 2(4)] have "2 * size (JArr items) < Suc (2 * size_list (size_prod (\<lambda>x. 0) size) object0) + 1"
    using size_map_remove_entry by fastforce
  with item_size [OF 2(6) [folded 2(7)]] show ?case by simp
next
  case (3 object0 object defect p field v)
  from size_map_remove_entry [OF 3(3) [folded 3(4)]] show ?case by simp
qed

declare walk.simps [simp del] walk_object.simps [simp del]

definition walk_collect :: "json \<Rightarrow> string \<Rightarrow> json list \<Rightarrow> walk_error + json list" where
  "walk_collect v path manifests =
     (case walk v path manifests of
        Inl (Primitive path) \<Rightarrow> Inl (Invalid_Manifest path ''not a Kubernetes object'')
      | Inl (Failed e) \<Rightarrow> Inl e
      | Inr ms \<Rightarrow> Inr ms)"

section \<open>Targets\<close>

record target_matcher =
  tm_pattern :: string
  tm_negate :: bool

type_synonym targets = "target_matcher list"

definition target_compile :: "(string \<Rightarrow> bool) \<Rightarrow> string \<Rightarrow> string + target_matcher" where
  "target_compile regex_ok pattern =
     (let (negate, body) = (case strip_prefix ''!'' pattern of Some rest \<Rightarrow> (True, rest) | None \<Rightarrow> (False, pattern));
          anchored = ''^'' @ body @ ''$''
      in if regex_ok anchored then Inr \<lparr>tm_pattern = anchored, tm_negate = negate\<rparr> else Inl pattern)"

definition targets_compile :: "(string \<Rightarrow> bool) \<Rightarrow> string list \<Rightarrow> string + targets" where
  "targets_compile regex_ok patterns =
     for_each (\<lambda>p ms. and_then (target_compile regex_ok p) (\<lambda>m. Inr (ms @ [m]))) patterns []"

definition keeps_kind_name :: "(string \<Rightarrow> string \<Rightarrow> bool) \<Rightarrow> targets \<Rightarrow> string \<Rightarrow> bool" where
  "keeps_kind_name is_match ts kind_name =
     (if ts = [] then True
      else
        (let matched = list_ex (\<lambda>m. tm_negate m \<or> is_match (tm_pattern m) kind_name) ts;
             excluded = list_ex (\<lambda>m. tm_negate m \<and> is_match (tm_pattern m) kind_name) ts
         in matched \<and> \<not> excluded))"

definition kind_name :: "json \<Rightarrow> string" where
  "kind_name manifest =
     (if \<not> is_object manifest then ''/''
      else or_empty (Option.bind (value_get manifest ''kind'') as_str) @ ''/'' @ or_empty (metadata_str ''name'' manifest))"

definition targets_keeps :: "(string \<Rightarrow> string \<Rightarrow> bool) \<Rightarrow> targets \<Rightarrow> json \<Rightarrow> bool" where
  "targets_keeps is_match ts manifest = keeps_kind_name is_match ts (kind_name manifest)"

definition strip_suffix :: "string \<Rightarrow> string \<Rightarrow> string option" where
  "strip_suffix p s = (if ends_with p s then Some (take (length s - length p) s) else None)"

definition META :: "char list" where
  "META = [CHR ''.'', CHR ''+'', CHR ''*'', CHR ''?'', CHR ''('', CHR '')'', CHR ''['', CHR '']'',
           CHR ''{'', CHR ''}'', CHR ''|'', CHR 92, CHR ''$'']"

definition literal_kind :: "string \<Rightarrow> string option" where
  "literal_kind anchored =
     Option.bind (Option.bind (strip_prefix ''^'' anchored) (strip_suffix ''$'')) (\<lambda>pattern.
       let kind = (case split_once (CHR ''/'') pattern of Some (kind, _) \<Rightarrow> kind | None \<Rightarrow> pattern)
       in if kind = [] \<or> list_ex (\<lambda>c. c \<in> set META) kind \<or> CHR ''^'' \<in> set kind then None else Some kind)"

text \<open>\<open>lower\<close> is \<open>str::to_lowercase\<close>, which maps all of Unicode.\<close>

fun kind_hints_loop :: "(string \<Rightarrow> string) \<Rightarrow> targets \<Rightarrow> string set \<Rightarrow> bool \<Rightarrow> (string set \<times> bool) option" where
  "kind_hints_loop lower [] kinds named_one = Some (kinds, named_one)"
| "kind_hints_loop lower (m # ms) kinds named_one =
     (case literal_kind (tm_pattern m) of
        None \<Rightarrow> None
      | Some kind \<Rightarrow> kind_hints_loop lower ms (insert (lower kind) kinds) True)"

definition kind_hints :: "(string \<Rightarrow> string) \<Rightarrow> targets \<Rightarrow> string set option" where
  "kind_hints lower ts =
     (case kind_hints_loop lower (filter (\<lambda>m. \<not> tm_negate m) ts) {} False of
        None \<Rightarrow> None
      | Some (kinds, named_one) \<Rightarrow> (if named_one then Some kinds else None))"

end
