(* ===== verification/Cluster_Diff.thy ===== *)
theory Cluster_Diff
  imports Kube_Api Manifest_Processing Patch_ThreeWay
begin

text \<open>
  The diff engine (\<open>cmds/rtk/src/k8s/diff.rs\<close>): the strategies, the comparison of one manifest with
  the cluster, the comparison of all of them with the detection of resources to prune. Tasks run
  concurrently and are collected as they finish; the model runs them one by one in an order that
  is a parameter, \<open>sched\<close>. The engine's requests are reads and dry runs, so how the calls of two
  tasks interleave does not matter (theorem \<open>diff_all_reads\<close>). The texts of errors are not modelled, except the
  reason a patch could not be computed, which travels inside another error.
\<close>

section \<open>Strategies and statuses\<close>

datatype diff_strategy = Native | Server | Validate | Subset

fun diff_strategy_display :: "diff_strategy \<Rightarrow> string" where
  "diff_strategy_display Native = ''native''"
| "diff_strategy_display Server = ''server''"
| "diff_strategy_display Validate = ''validate''"
| "diff_strategy_display Subset = ''subset''"

datatype unknown_diff_strategy = Unknown_Diff_Strategy string

definition diff_strategy_named :: "string \<Rightarrow> unknown_diff_strategy + diff_strategy" where
  "diff_strategy_named strategy =
     (if strategy = ''native'' then Inr Native
      else if strategy = ''server'' then Inr Server
      else if strategy = ''validate'' then Inr Validate
      else if strategy = ''subset'' then Inr Subset
      else Inl (Unknown_Diff_Strategy strategy))"

text \<open>\<open>parse_u32\<close> is \<open>str::parse::<u32>\<close>.\<close>

definition trim_end_char :: "char \<Rightarrow> string \<Rightarrow> string" where
  "trim_end_char c s = rev (dropWhile (\<lambda>x. x = c) (rev s))"

definition diff_strategy_from_spec ::
  "(string \<Rightarrow> nat option) \<Rightarrow> string option \<Rightarrow> string \<Rightarrow> string \<Rightarrow> string option \<Rightarrow>
   unknown_diff_strategy + diff_strategy" where
  "diff_strategy_from_spec parse_u32 spec_strategy server_major server_minor apply_strategy =
     (case spec_strategy of
        Some strategy \<Rightarrow> diff_strategy_named strategy
      | None \<Rightarrow>
          (let major = (case parse_u32 server_major of Some n \<Rightarrow> n | None \<Rightarrow> 1);
               minor = (case parse_u32 (trim_end_char (CHR ''+'') server_minor) of Some n \<Rightarrow> n | None \<Rightarrow> 0)
           in Inr (if major < 1 \<or> (major = 1 \<and> minor < 13) then Subset
                   else if apply_strategy = Some ''server'' then Server
                   else Native)))"

datatype cluster_error =
    Missing_Api_Version_Or_Kind
  | Missing_Name
  | Unknown_Resource_Type string string
  | Prune_Requires_Inject_Labels
  | Dry_Run_Patch string string kube_error
  | Dry_Run_Create string string kube_error
  | Server_Validation string string kube_error
  | Namespace_Check string kube_error
  | Fetch_Resource string string kube_error
  | Prune_List string kube_error
  | Manifest_Conversion
  | Yaml_Conversion
  | Unreachable_Reached

datatype diff_status = Unchanged | Modified | Added | Deleted | SoonAdded

definition status_has_changes :: "diff_status \<Rightarrow> bool" where
  "status_has_changes s = (s \<noteq> Unchanged)"

record prune_options =
  po_namespace :: "string option"
  po_targets :: "targets option"

record resource_diff =
  rd_gvk :: gvk
  rd_namespace :: "string option"
  rd_name :: string
  rd_status :: diff_status
  rd_current_yaml :: string
  rd_desired_yaml :: string

definition has_changes :: "resource_diff \<Rightarrow> bool" where
  "has_changes d = status_has_changes (rd_status d)"

definition display_name :: "resource_diff \<Rightarrow> string" where
  "display_name d =
     (let group_prefix = (if gvk_group (rd_gvk d) = [] then [] else gvk_group (rd_gvk d) @ ''.'')
      in group_prefix @ gvk_version (rd_gvk d) @ ''.'' @ gvk_kind (rd_gvk d) @ ''.'' @
         or_empty (rd_namespace d) @ ''.'' @ rd_name d)"

definition display_name_subset :: "externals \<Rightarrow> resource_diff \<Rightarrow> string" where
  "display_name_subset x d =
     replace_chars [CHR ''/''] ''-'' (x_api_version x (rd_gvk d)) @ ''.'' @ gvk_kind (rd_gvk d) @ ''.'' @
     or_empty (rd_namespace d) @ ''.'' @ rd_name d"

section \<open>The engine\<close>

type_synonym resource_key = "gvk \<times> string option \<times> string"

record live_resources =
  live_objects :: "(resource_key \<times> dynamic_object option) list"

definition live_uids :: "live_resources \<Rightarrow> string set" where
  "live_uids live = {uid. \<exists>object \<in> snd ` set (live_objects live). Option.bind object obj_uid = Some uid}"

lemma live_uids_code [code]:
  "live_uids live = set (filter_map (\<lambda>(_, object). Option.bind object obj_uid) (live_objects live))"
  by (force simp: live_uids_def set_filter_map)

text \<open>What the OpenAPI cache knows of a kind (\<open>get_schema\<close> never fails).\<close>

record openapi_data =
  oa_merge_keys :: "string \<rightharpoonup> string list"
  oa_patch_strategies :: "string \<rightharpoonup> patch_strategy list"
  oa_type_refs :: "string \<rightharpoonup> string"

record 'c diff_engine =
  de_live_resources :: "live_resources option"
  de_client :: "'c kube_client"
  de_api_cache :: api_resource_cache
  de_openapi :: "gvk \<Rightarrow> openapi_data"
  de_strategy :: diff_strategy
  de_default_namespace :: string

record manifest_info =
  mi_gvk :: gvk
  mi_name :: string
  mi_namespace :: "string option"
  mi_discovered :: discovered_resource

definition extract_manifest_info ::
  "externals \<Rightarrow> 'c diff_engine \<Rightarrow> json \<Rightarrow> cluster_error + manifest_info" where
  "extract_manifest_info x self manifest =
     (case gvk_from_manifest manifest of
        None \<Rightarrow> Inl Missing_Api_Version_Or_Kind
      | Some g \<Rightarrow>
          (case metadata_str ''name'' manifest of
             None \<Rightarrow> Inl Missing_Name
           | Some name \<Rightarrow>
               (case cache_lookup (de_api_cache self) g of
                  None \<Rightarrow> Inl (Unknown_Resource_Type (x_api_version x g) (gvk_kind g))
                | Some discovered \<Rightarrow>
                    (let namespace = (case dr_scope discovered of
                         Namespaced \<Rightarrow>
                           Some (case metadata_str ''namespace'' manifest of
                                   Some ns \<Rightarrow> ns | None \<Rightarrow> de_default_namespace self)
                       | ClusterWide \<Rightarrow> None)
                     in Inr \<lparr>mi_gvk = g, mi_name = name, mi_namespace = namespace,
                             mi_discovered = discovered\<rparr>))))"

definition namespace_api :: api_handle where
  "namespace_api =
     \<lparr>api_res = \<lparr>ar_group = [], ar_version = ''v1'', ar_kind = ''Namespace'', ar_plural = ''namespaces''\<rparr>,
      api_ns = None\<rparr>"

definition namespace_exists :: "'c diff_engine \<Rightarrow> string \<Rightarrow> ('c, cluster_error, bool) io" where
  "namespace_exists self name =
     io_then (io_map_err (Namespace_Check name) (api_get_opt (de_client self) namespace_api name))
       (\<lambda>found. io_ok (found \<noteq> None))"

definition pending_addition_status ::
  "'c diff_engine \<Rightarrow> gvk \<Rightarrow> string option \<Rightarrow> ('c, cluster_error, diff_status option) io" where
  "pending_addition_status self g namespace =
     (if is_pending_crd (de_api_cache self) g then io_ok (Some Added)
      else case namespace of
        None \<Rightarrow> io_ok None
      | Some ns \<Rightarrow>
          io_then (namespace_exists self ns) (\<lambda>exists.
            io_ok (if \<not> exists then Some SoonAdded else None)))"

subsection \<open>Showing objects\<close>

definition to_yaml :: "externals \<Rightarrow> redacted_object \<Rightarrow> cluster_error + string" where
  "to_yaml x obj = (case x_to_yaml x (shown_value obj) of None \<Rightarrow> Inl Yaml_Conversion | Some y \<Rightarrow> Inr y)"

definition manifest_to_redacted_yaml :: "externals \<Rightarrow> json \<Rightarrow> gvk \<Rightarrow> cluster_error + string" where
  "manifest_to_redacted_yaml x manifest g = to_yaml x (redact (unredacted_new manifest g))"

definition object_to_cleaned_json :: "dynamic_object \<Rightarrow> json" where
  "object_to_cleaned_json obj = strip_kubectl_fields (obj_value obj)"

text \<open>
  Two values are redacted, written out and compared; \<open>remdups\<close> is the set of keys to redact in
  one of its orders (theorem \<open>redact_pair_hides\<close> shows that the order does not matter).
\<close>

definition compare_redacted ::
  "externals \<Rightarrow> gvk \<Rightarrow> string \<Rightarrow> string option \<Rightarrow> json \<Rightarrow> json \<Rightarrow> cluster_error + resource_diff" where
  "compare_redacted x g name namespace current desired =
     (case redact_pair remdups (unredacted_new current g) (unredacted_new desired g) of
        None \<Rightarrow> Inl Unreachable_Reached
      | Some (current_redacted, desired_redacted) \<Rightarrow>
          and_then (to_yaml x current_redacted) (\<lambda>current_yaml.
          and_then (to_yaml x desired_redacted) (\<lambda>desired_yaml.
          Inr \<lparr>rd_gvk = g, rd_namespace = namespace, rd_name = name,
               rd_status = (if current_yaml = desired_yaml then Unchanged else Modified),
               rd_current_yaml = current_yaml, rd_desired_yaml = desired_yaml\<rparr>)))"

definition compute_diff ::
  "externals \<Rightarrow> gvk \<Rightarrow> string \<Rightarrow> string option \<Rightarrow> dynamic_object \<Rightarrow> dynamic_object \<Rightarrow>
   cluster_error + resource_diff" where
  "compute_diff x g name namespace current merged =
     compare_redacted x g name namespace (object_to_cleaned_json current) (object_to_cleaned_json merged)"

definition empty_secret_yaml :: "externals \<Rightarrow> gvk \<Rightarrow> cluster_error + string" where
  "empty_secret_yaml x g =
     (if gvk_group g = [] \<and> gvk_version g = ''v1'' \<and> gvk_kind g = ''Secret'' then
        (case redact_pair remdups (unredacted_empty g) (unredacted_new (JObj []) g) of
           None \<Rightarrow> Inl Unreachable_Reached
         | Some (current_redacted, _) \<Rightarrow> to_yaml x current_redacted)
      else Inr [])"

subsection \<open>The strategies\<close>

definition current_resource ::
  "'c diff_engine \<Rightarrow> gvk \<Rightarrow> string \<Rightarrow> string option \<Rightarrow> discovered_resource \<Rightarrow>
   ('c, cluster_error, dynamic_object option) io" where
  "current_resource self g name namespace discovered =
     (case Option.bind (de_live_resources self) (\<lambda>live. map_of (live_objects live) (g, namespace, name)) of
        Some object \<Rightarrow> io_ok object
      | None \<Rightarrow>
          io_map_err (Fetch_Resource (gvk_kind g) name)
            (api_get_opt (de_client self) (dynamic_api (dr_api_resource discovered) namespace) name))"

definition diff_create ::
  "externals \<Rightarrow> 'c diff_engine \<Rightarrow> gvk \<Rightarrow> string \<Rightarrow> string option \<Rightarrow> json \<Rightarrow> api_handle \<Rightarrow>
   ('c, cluster_error, resource_diff) io" where
  "diff_create x self g name namespace manifest api =
     (case x_from_value x manifest of
        None \<Rightarrow> io_err Manifest_Conversion
      | Some obj \<Rightarrow>
          io_then (io_map_err (Dry_Run_Create (gvk_kind g) name) (api_create (de_client self) api True obj))
            (\<lambda>created. io_lift (
              and_then (to_yaml x (redact (unredacted_new (object_to_cleaned_json created) g))) (\<lambda>desired_yaml.
              and_then (empty_secret_yaml x g) (\<lambda>current_yaml.
              Inr \<lparr>rd_gvk = g, rd_namespace = namespace, rd_name = name, rd_status = Added,
                   rd_current_yaml = current_yaml, rd_desired_yaml = desired_yaml\<rparr>)))))"

definition LAST_APPLIED_CONFIG_ANNOTATION :: string where
  "LAST_APPLIED_CONFIG_ANNOTATION = ''kubectl.kubernetes.io/last-applied-configuration''"

definition get_last_applied_config :: "externals \<Rightarrow> dynamic_object \<Rightarrow> json option" where
  "get_last_applied_config x current =
     Option.bind (obj_annotations current) (\<lambda>annotations.
     Option.bind (annotations LAST_APPLIED_CONFIG_ANNOTATION) (x_from_str x))"

definition patch_error_text :: "value_format \<Rightarrow> diff_error \<Rightarrow> string" where
  "patch_error_text fmt e =
     (case e of
        SchemaLookupFailed s \<Rightarrow> ''Schema lookup failed: '' @ s
      | InvalidPatch s \<Rightarrow> ''Invalid patch structure: '' @ s
      | MergeError s \<Rightarrow> ''Merge error: '' @ s
      | Conflict path modified current \<Rightarrow>
          ''conflict at '' @ path @ '': modified='' @ modified @ '', current='' @ current
      | PreconditionFailed key \<Rightarrow> ''precondition failed: key '' @ debug_str fmt key @ '' was modified'')"

definition dry_run_params :: patch_params where
  "dry_run_params = \<lparr>pp_dry_run = True, pp_force = False, pp_field_manager = None\<rparr>"

definition forced_dry_run_params :: patch_params where
  "forced_dry_run_params = \<lparr>pp_dry_run = True, pp_force = True, pp_field_manager = Some ''tanka''\<rparr>"

definition engine_schema :: "externals \<Rightarrow> 'c diff_engine \<Rightarrow> gvk \<Rightarrow> schema_lookup" where
  "engine_schema x self g =
     (let data = de_openapi self g
      in combined_schema (combined_with_openapi_data (x_api_version x g) (gvk_kind g)
           (oa_merge_keys data) (oa_patch_strategies data) (oa_type_refs data)))"

definition send_patch ::
  "'c diff_engine \<Rightarrow> gvk \<Rightarrow> string \<Rightarrow> api_handle \<Rightarrow> json \<Rightarrow> ('c, cluster_error, dynamic_object) io" where
  "send_patch self g name api patch =
     io_match (api_patch (de_client self) api name dry_run_params (Strategic_Patch patch)) (\<lambda>r.
       case r of
         Inr result \<Rightarrow> io_ok result
       | Inl (Kube_Api code message) \<Rightarrow>
           (if code = 415 then
              io_map_err (Dry_Run_Patch (gvk_kind g) name)
                (api_patch (de_client self) api name dry_run_params (Merge_Patch patch))
            else io_err (Dry_Run_Patch (gvk_kind g) name (Kube_Api code message)))
       | Inl e \<Rightarrow> io_err (Dry_Run_Patch (gvk_kind g) name e))"

definition diff_native ::
  "externals \<Rightarrow> value_format \<Rightarrow> 'c diff_engine \<Rightarrow> gvk \<Rightarrow> string \<Rightarrow> string option \<Rightarrow> json \<Rightarrow>
   discovered_resource \<Rightarrow> ('c, cluster_error, resource_diff) io" where
  "diff_native x fmt self g name namespace manifest discovered =
     (let api = dynamic_api (dr_api_resource discovered) namespace in
      io_then (current_resource self g name namespace discovered) (\<lambda>found.
        case found of
          None \<Rightarrow> diff_create x self g name namespace manifest api
        | Some current \<Rightarrow>
            (case create_three_way_merge_patch fmt (engine_schema x self g) (get_last_applied_config x current)
                    (ensure_annotations manifest) (obj_value current) of
               Inl e \<Rightarrow> io_err (Dry_Run_Patch (gvk_kind g) name (Kube_Service (patch_error_text fmt e)))
             | Inr patch \<Rightarrow>
                 io_then (send_patch self g name api patch) (\<lambda>merged.
                   io_lift (compute_diff x g name namespace current merged)))))"

definition diff_server ::
  "externals \<Rightarrow> 'c diff_engine \<Rightarrow> gvk \<Rightarrow> string \<Rightarrow> string option \<Rightarrow> json \<Rightarrow> discovered_resource \<Rightarrow>
   ('c, cluster_error, resource_diff) io" where
  "diff_server x self g name namespace manifest discovered =
     (let api = dynamic_api (dr_api_resource discovered) namespace in
      io_then (current_resource self g name namespace discovered) (\<lambda>found.
        case found of
          None \<Rightarrow> diff_create x self g name namespace manifest api
        | Some current \<Rightarrow>
            io_then (io_map_err (Dry_Run_Patch (gvk_kind g) name)
                (api_patch (de_client self) api name forced_dry_run_params (Apply_Patch manifest))) (\<lambda>merged.
              io_lift (compute_diff x g name namespace current merged))))"

definition diff_validate ::
  "externals \<Rightarrow> value_format \<Rightarrow> 'c diff_engine \<Rightarrow> gvk \<Rightarrow> string \<Rightarrow> string option \<Rightarrow> json \<Rightarrow>
   discovered_resource \<Rightarrow> ('c, cluster_error, resource_diff) io" where
  "diff_validate x fmt self g name namespace manifest discovered =
     (let api = dynamic_api (dr_api_resource discovered) namespace in
      io_then (io_map_err (Server_Validation (gvk_kind g) name)
          (api_patch (de_client self) api name forced_dry_run_params (Apply_Patch manifest))) (\<lambda>_.
        diff_native x fmt self g name namespace manifest discovered))"

definition diff_subset ::
  "externals \<Rightarrow> 'c diff_engine \<Rightarrow> gvk \<Rightarrow> string \<Rightarrow> string option \<Rightarrow> json \<Rightarrow> discovered_resource \<Rightarrow>
   ('c, cluster_error, resource_diff) io" where
  "diff_subset x self g name namespace manifest discovered =
     io_then (current_resource self g name namespace discovered) (\<lambda>found.
       io_lift (case found of
         None \<Rightarrow>
           and_then (manifest_to_redacted_yaml x manifest g) (\<lambda>desired_yaml.
           and_then (empty_secret_yaml x g) (\<lambda>current_yaml.
           Inr \<lparr>rd_gvk = g, rd_namespace = namespace, rd_name = name, rd_status = Added,
                rd_current_yaml = current_yaml, rd_desired_yaml = desired_yaml\<rparr>))
       | Some current \<Rightarrow>
           compare_redacted x g name namespace (filter_to_manifest_fields (obj_value current) manifest) manifest))"

subsection \<open>One manifest\<close>

definition soon_diff ::
  "externals \<Rightarrow> manifest_info \<Rightarrow> diff_status \<Rightarrow> json \<Rightarrow> cluster_error + resource_diff" where
  "soon_diff x info status manifest =
     and_then (manifest_to_redacted_yaml x manifest (mi_gvk info)) (\<lambda>desired_yaml.
     Inr \<lparr>rd_gvk = mi_gvk info, rd_namespace = mi_namespace info, rd_name = mi_name info, rd_status = status,
          rd_current_yaml = [], rd_desired_yaml = desired_yaml\<rparr>)"

definition diff_manifest ::
  "externals \<Rightarrow> value_format \<Rightarrow> 'c diff_engine \<Rightarrow> json \<Rightarrow> ('c, cluster_error, resource_diff) io" where
  "diff_manifest x fmt self manifest =
     io_then (io_lift (extract_manifest_info x self manifest)) (\<lambda>info.
       let normalized = normalize_manifest_namespace manifest (mi_namespace info) in
       io_then (pending_addition_status self (mi_gvk info) (mi_namespace info)) (\<lambda>pending.
         case pending of
           Some status \<Rightarrow> io_lift (soon_diff x info status normalized)
         | None \<Rightarrow>
             (case de_strategy self of
                Native \<Rightarrow> diff_native x fmt self (mi_gvk info) (mi_name info) (mi_namespace info) normalized (mi_discovered info)
              | Server \<Rightarrow> diff_server x self (mi_gvk info) (mi_name info) (mi_namespace info) normalized (mi_discovered info)
              | Validate \<Rightarrow> diff_validate x fmt self (mi_gvk info) (mi_name info) (mi_namespace info) normalized (mi_discovered info)
              | Subset \<Rightarrow> diff_subset x self (mi_gvk info) (mi_name info) (mi_namespace info) normalized (mi_discovered info))))"

definition cluster_validate_manifest ::
  "externals \<Rightarrow> 'c diff_engine \<Rightarrow> json \<Rightarrow> ('c, cluster_error, unit) io" where
  "cluster_validate_manifest x self manifest =
     io_then (io_lift (extract_manifest_info x self manifest)) (\<lambda>info.
       if is_pending_crd (de_api_cache self) (mi_gvk info) then io_ok ()
       else
         io_then (io_map_err (Server_Validation (gvk_kind (mi_gvk info)) (mi_name info))
             (api_patch (de_client self) (dynamic_api (dr_api_resource (mi_discovered info)) (mi_namespace info))
                (mi_name info) forced_dry_run_params (Apply_Patch (ensure_annotations manifest)))) (\<lambda>_.
           io_ok ()))"

definition diff_manifest_native ::
  "externals \<Rightarrow> value_format \<Rightarrow> 'c diff_engine \<Rightarrow> json \<Rightarrow> ('c, cluster_error, resource_diff) io" where
  "diff_manifest_native x fmt self manifest =
     io_then (io_lift (extract_manifest_info x self manifest)) (\<lambda>info.
       io_then (pending_addition_status self (mi_gvk info) (mi_namespace info)) (\<lambda>pending.
         case pending of
           Some status \<Rightarrow> io_lift (soon_diff x info status manifest)
         | None \<Rightarrow>
             diff_native x fmt self (mi_gvk info) (mi_name info) (mi_namespace info) manifest (mi_discovered info)))"

section \<open>Resources to prune\<close>

definition is_directly_created :: "dynamic_object \<Rightarrow> bool" where
  "is_directly_created resource =
     (if (case obj_owner_controllers resource of
            Some references \<Rightarrow> list_ex (\<lambda>controller. controller = Some True) references
          | None \<Rightarrow> False) then False
      else if (case obj_annotations resource of
                 Some a \<Rightarrow> a ''kubectl.kubernetes.io/last-applied-configuration'' \<noteq> None
               | None \<Rightarrow> False) then True
      else (case obj_managers resource of
              Some managed \<Rightarrow>
                list_ex (\<lambda>f. case f of
                    Some m \<Rightarrow> m \<in> {''tanka'', ''kubectl-client-side-apply'', ''kustomize-controller''}
                  | None \<Rightarrow> False) managed
            | None \<Rightarrow> False))"

definition is_prune_ignored :: "dynamic_object \<Rightarrow> bool" where
  "is_prune_ignored resource =
     (case obj_annotations resource of
        Some annotations \<Rightarrow>
          (case annotations ''tanka.dev/prune-ignore'' of Some v \<Rightarrow> v = ''true'' | None \<Rightarrow> False)
      | None \<Rightarrow> False)"

type_synonym manifest_key = "string \<times> string \<times> string option \<times> string"

definition manifest_key :: "api_resource_cache \<Rightarrow> string \<Rightarrow> json \<Rightarrow> manifest_key option" where
  "manifest_key api_cache default_namespace m =
     Option.bind (Option.bind (value_get m ''apiVersion'') as_str) (\<lambda>api_version.
     Option.bind (Option.bind (value_get m ''kind'') as_str) (\<lambda>kind.
     Option.bind (metadata_str ''name'' m) (\<lambda>name.
     Option.bind (gvk_from_manifest m) (\<lambda>g.
       let namespace = (case map_option dr_scope (cache_lookup api_cache g) of
             Some Namespaced \<Rightarrow>
               Some (case metadata_str ''namespace'' m of Some ns \<Rightarrow> ns | None \<Rightarrow> default_namespace)
           | Some ClusterWide \<Rightarrow> None
           | None \<Rightarrow> metadata_str ''namespace'' m)
       in Some (api_version, kind, namespace, name)))))"

definition build_manifest_keys :: "json list \<Rightarrow> api_resource_cache \<Rightarrow> string \<Rightarrow> manifest_key set" where
  "build_manifest_keys manifests api_cache default_namespace =
     set (filter_map (manifest_key api_cache default_namespace) manifests)"

record prune_candidate =
  pc_diff :: resource_diff
  pc_uid :: "string option"

text \<open>One listed resource: \<open>None\<close> is a \<open>continue\<close> of the loop.\<close>

definition prune_one ::
  "externals \<Rightarrow> (string \<Rightarrow> string \<Rightarrow> bool) \<Rightarrow> gvk \<Rightarrow> manifest_key set \<Rightarrow> targets option \<Rightarrow>
   dynamic_object \<Rightarrow> prune_candidate option" where
  "prune_one x is_match g manifest_keys ts resource =
     (case obj_name resource of
        None \<Rightarrow> None
      | Some name \<Rightarrow>
          (let namespace = obj_namespace resource in
           if (case ts of Some ts \<Rightarrow> \<not> keeps_kind_name is_match ts (gvk_kind g @ ''/'' @ name) | None \<Rightarrow> False) then None
           else if (x_api_version x g, gvk_kind g, namespace, name) \<in> manifest_keys then None
           else if is_prune_ignored resource then None
           else if \<not> is_directly_created resource then None
           else
             (let current_yaml = (case x_to_yaml x (shown_value (redact (unredacted_new (obj_value resource) g))) of
                    Some y \<Rightarrow> y | None \<Rightarrow> [])
              in Some \<lparr>pc_diff = \<lparr>rd_gvk = g, rd_namespace = namespace, rd_name = name, rd_status = Deleted,
                                 rd_current_yaml = current_yaml, rd_desired_yaml = []\<rparr>,
                       pc_uid = obj_uid resource\<rparr>)))"

definition find_deleted_for_type ::
  "externals \<Rightarrow> (string \<Rightarrow> string \<Rightarrow> bool) \<Rightarrow> 'c diff_engine \<Rightarrow> gvk \<Rightarrow> discovered_resource \<Rightarrow>
   manifest_key set \<Rightarrow> string \<Rightarrow> string option \<Rightarrow> targets option \<Rightarrow>
   ('c, cluster_error, prune_candidate list) io" where
  "find_deleted_for_type x is_match self g discovered manifest_keys env_label namespace_filter ts =
     io_then (io_map_err (Prune_List (gvk_kind g))
         (api_list (de_client self) (dynamic_api (dr_api_resource discovered) namespace_filter)
            (''tanka.dev/environment='' @ env_label)))
       (\<lambda>found. io_ok (filter_map (prune_one x is_match g manifest_keys ts) found))"

definition prunes_type ::
  "(string \<Rightarrow> string) \<Rightarrow> string option \<Rightarrow> string set option \<Rightarrow> gvk \<times> discovered_resource \<Rightarrow> bool" where
  "prunes_type lower namespace hints = (\<lambda>(g, discovered).
     supports_operation (dr_capabilities discovered) ''list'' \<and>
     (namespace = None \<or> dr_scope discovered = Namespaced) \<and>
     (case hints of Some hints \<Rightarrow> lower (gvk_kind g) \<in> hints | None \<Rightarrow> True))"

definition nonempty_namespace :: "string option \<Rightarrow> string option" where
  "nonempty_namespace namespace = (case namespace of Some ns \<Rightarrow> if ns = [] then None else Some ns | None \<Rightarrow> None)"

section \<open>All manifests\<close>

datatype diff_task = Diff_Task json | Prune_Task gvk discovered_resource

datatype diff_task_result = Diff_Result resource_diff | Prune_Result "prune_candidate list"

record surroundings =
  env_externals :: externals
  env_format :: value_format
  env_is_match :: "string \<Rightarrow> string \<Rightarrow> bool"
  env_lower :: "string \<Rightarrow> string"

definition spawn_diff_tasks :: "json list \<Rightarrow> diff_task list" where
  "spawn_diff_tasks manifests = map Diff_Task manifests"

definition spawn_prune_tasks ::
  "surroundings \<Rightarrow> 'c diff_engine \<Rightarrow> prune_options \<Rightarrow> diff_task list" where
  "spawn_prune_tasks w self opts =
     map (\<lambda>(g, discovered). Prune_Task g discovered)
       (filter (prunes_type (env_lower w) (nonempty_namespace (po_namespace opts))
                  (Option.bind (po_targets opts) (kind_hints (env_lower w))))
          (cache_iter (de_api_cache self)))"

definition run_task ::
  "surroundings \<Rightarrow> 'c diff_engine \<Rightarrow> bool \<Rightarrow> json list \<Rightarrow> string \<Rightarrow> prune_options \<Rightarrow> diff_task \<Rightarrow>
   ('c, cluster_error, diff_task_result) io" where
  "run_task w self use_native manifests env_label opts task =
     (case task of
        Diff_Task manifest \<Rightarrow>
          io_then (if use_native then diff_manifest_native (env_externals w) (env_format w) self manifest
                   else diff_manifest (env_externals w) (env_format w) self manifest)
            (\<lambda>d. io_ok (Diff_Result d))
      | Prune_Task g discovered \<Rightarrow>
          io_then (find_deleted_for_type (env_externals w) (env_is_match w) self g discovered
                (build_manifest_keys manifests (de_api_cache self) (de_default_namespace self)) env_label
                (nonempty_namespace (po_namespace opts)) (po_targets opts))
            (\<lambda>deleted. io_ok (Prune_Result deleted)))"

definition validate_all_parallel ::
  "surroundings \<Rightarrow> (json list \<Rightarrow> json list) \<Rightarrow> 'c diff_engine \<Rightarrow> json list \<Rightarrow> ('c, cluster_error, unit) io" where
  "validate_all_parallel w sched self manifests =
     io_then (io_each (cluster_validate_manifest (env_externals w) self) (sched manifests)) (\<lambda>_. io_ok ())"

definition fetch_live ::
  "'c diff_engine \<Rightarrow> manifest_info \<Rightarrow> ('c, cluster_error, resource_key \<times> dynamic_object option) io" where
  "fetch_live self info =
     io_then (io_map_err (Fetch_Resource (gvk_kind (mi_gvk info)) (mi_name info))
         (api_get_opt (de_client self) (dynamic_api (dr_api_resource (mi_discovered info)) (mi_namespace info))
            (mi_name info)))
       (\<lambda>resource. io_ok ((mi_gvk info, mi_namespace info, mi_name info), resource))"

definition fetch_live_manifests ::
  "surroundings \<Rightarrow> (manifest_info list \<Rightarrow> manifest_info list) \<Rightarrow> 'c diff_engine \<Rightarrow> json list \<Rightarrow>
   ('c, cluster_error, live_resources) io" where
  "fetch_live_manifests w sched self manifests =
     io_then (io_lift (for_each (\<lambda>m infos. and_then (extract_manifest_info (env_externals w) self m)
                 (\<lambda>info. Inr (infos @ [info]))) manifests [])) (\<lambda>infos.
     io_then (io_each (fetch_live self) (sched infos)) (\<lambda>entries.
     io_ok \<lparr>live_objects = fold (\<lambda>(key, object). AList.update key object) entries []\<rparr>))"

definition diff_key :: "resource_diff \<Rightarrow> string \<times> string \<times> string \<times> string option \<times> string" where
  "diff_key d = (gvk_group (rd_gvk d), gvk_version (rd_gvk d), gvk_kind (rd_gvk d), rd_namespace d, rd_name d)"

definition collect_result ::
  "diff_task_result \<Rightarrow> resource_diff list \<times> prune_candidate list \<Rightarrow> resource_diff list \<times> prune_candidate list" where
  "collect_result r = (\<lambda>(diffs, candidates).
     case r of
       Diff_Result d \<Rightarrow> (diffs @ [d], candidates)
     | Prune_Result deleted \<Rightarrow> (diffs, candidates @ deleted))"

fun drop_seen :: "prune_candidate list \<Rightarrow> string set \<Rightarrow> resource_diff list" where
  "drop_seen [] seen_uids = []"
| "drop_seen (candidate # cs) seen_uids =
     (case pc_uid candidate of
        Some uid \<Rightarrow>
          (if uid \<in> seen_uids then drop_seen cs seen_uids
           else pc_diff candidate # drop_seen cs (insert uid seen_uids))
      | None \<Rightarrow> pc_diff candidate # drop_seen cs seen_uids)"

definition collect_all ::
  "string set \<Rightarrow> resource_diff list \<times> prune_candidate list \<Rightarrow> resource_diff list" where
  "collect_all seen_uids = (\<lambda>(diffs, candidates).
     let candidates = sort_key (\<lambda>c. diff_key (pc_diff c)) candidates
     in sort_key diff_key (diffs @ drop_seen candidates seen_uids))"

text \<open>The orders in which the tasks of each pool finish.\<close>

record schedule =
  sched_validate :: "json list \<Rightarrow> json list"
  sched_fetch :: "manifest_info list \<Rightarrow> manifest_info list"
  sched_tasks :: "diff_task list \<Rightarrow> diff_task list"

definition diff_all_with_prune_options ::
  "surroundings \<Rightarrow> schedule \<Rightarrow> 'c diff_engine \<Rightarrow> json list \<Rightarrow> bool \<Rightarrow> string option \<Rightarrow> bool \<Rightarrow> prune_options \<Rightarrow>
   ('c, cluster_error, resource_diff list) io" where
  "diff_all_with_prune_options w sched self manifests with_prune env_label inject_labels opts =
     (if with_prune \<and> \<not> inject_labels then io_err Prune_Requires_Inject_Labels
      else
        let do_prune = (with_prune \<and> env_label \<noteq> None);
            label = or_empty env_label
        in
        io_then (if de_strategy self = Validate then validate_all_parallel w (sched_validate sched) self manifests
                 else io_ok ()) (\<lambda>_.
        io_then (if do_prune
                 then io_then (fetch_live_manifests w (sched_fetch sched) self manifests) (\<lambda>live. io_ok (Some live))
                 else io_ok None) (\<lambda>live.
          let engine = (case live of Some live \<Rightarrow> self\<lparr>de_live_resources := Some live\<rparr> | None \<Rightarrow> self);
              seen_uids = (case live of Some live \<Rightarrow> live_uids live | None \<Rightarrow> {});
              use_native = (de_strategy self = Validate);
              tasks = spawn_diff_tasks manifests @ (if do_prune then spawn_prune_tasks w self opts else [])
          in io_then (io_each (run_task w engine use_native manifests label opts) (sched_tasks sched tasks))
               (\<lambda>results. io_ok (collect_all seen_uids (fold collect_result results ([], [])))))))"

definition no_prune_options :: prune_options where
  "no_prune_options = \<lparr>po_namespace = None, po_targets = None\<rparr>"

definition diff_all ::
  "surroundings \<Rightarrow> schedule \<Rightarrow> 'c diff_engine \<Rightarrow> json list \<Rightarrow> bool \<Rightarrow> string option \<Rightarrow> bool \<Rightarrow>
   ('c, cluster_error, resource_diff list) io" where
  "diff_all w sched self manifests with_prune env_label inject_labels =
     diff_all_with_prune_options w sched self manifests with_prune env_label inject_labels no_prune_options"

end
