(* ===== verification/Cluster_Diff_Facts.thy ===== *)
theory Cluster_Diff_Facts
  imports Cluster_Diff
begin

text \<open>
  Facts about the diff engine: it only reads the cluster, the order in which its tasks finish does
  not show, and what it proposes to delete.
\<close>

section \<open>A diff only reads\<close>

text \<open>A handler that is a \<open>match\<close> on a value is unchanging if every arm is.\<close>

lemma unchanging_option [unchanging_intros]:
  "unchanging m \<Longrightarrow> (\<And>x. unchanging (f x)) \<Longrightarrow> unchanging (case v of None \<Rightarrow> m | Some x \<Rightarrow> f x)"
  by (simp split: option.split)

lemma unchanging_sum [unchanging_intros]:
  "(\<And>x. unchanging (f x)) \<Longrightarrow> (\<And>x. unchanging (g x)) \<Longrightarrow> unchanging (case v of Inl x \<Rightarrow> f x | Inr x \<Rightarrow> g x)"
  by (simp split: sum.split)

lemma unchanging_kube_error [unchanging_intros]:
  "(\<And>x y. unchanging (f x y)) \<Longrightarrow> (\<And>x. unchanging (g x)) \<Longrightarrow> (\<And>x. unchanging (h x)) \<Longrightarrow>
   unchanging (case v of Kube_Api x y \<Rightarrow> f x y | Kube_Service x \<Rightarrow> g x | Kube_Other x \<Rightarrow> h x)"
  by (simp split: kube_error.split)

lemma unchanging_strategy [unchanging_intros]:
  "unchanging m \<Longrightarrow> unchanging n \<Longrightarrow> unchanging p \<Longrightarrow> unchanging q \<Longrightarrow>
   unchanging (case v of Native \<Rightarrow> m | Server \<Rightarrow> n | Validate \<Rightarrow> p | Subset \<Rightarrow> q)"
  by (simp split: diff_strategy.split)

context dry_runs
begin

lemma engine_calls:
  assumes "de_client self = client"
  shows "unchanging (api_get_opt (de_client self) h n)"
    and "unchanging (api_list (de_client self) h l)"
    and "unchanging (api_patch (de_client self) h n \<lparr>pp_dry_run = True, pp_force = f, pp_field_manager = m\<rparr> b)"
    and "unchanging (api_create (de_client self) h True obj)"
  using assms calls_unchanging by auto

lemma current_resource_reads: "de_client self = client \<Longrightarrow> unchanging (current_resource self g name ns d)"
  unfolding current_resource_def by (auto intro!: unchanging_intros engine_calls)

lemma diff_create_reads: "de_client self = client \<Longrightarrow> unchanging (diff_create x self g name ns m api)"
  unfolding diff_create_def by (auto intro!: unchanging_intros engine_calls)

lemma send_patch_reads: "de_client self = client \<Longrightarrow> unchanging (send_patch self g name api patch)"
  unfolding send_patch_def by (auto intro!: unchanging_intros engine_calls simp: dry_run_params_def)

lemma diff_native_reads: "de_client self = client \<Longrightarrow> unchanging (diff_native x fmt self g name ns m d)"
  unfolding diff_native_def Let_def
  by (auto intro!: unchanging_intros current_resource_reads diff_create_reads send_patch_reads)

lemma diff_server_reads: "de_client self = client \<Longrightarrow> unchanging (diff_server x self g name ns m d)"
  unfolding diff_server_def Let_def
  by (auto intro!: unchanging_intros current_resource_reads diff_create_reads engine_calls
      simp: forced_dry_run_params_def)

lemma diff_validate_reads: "de_client self = client \<Longrightarrow> unchanging (diff_validate x fmt self g name ns m d)"
  unfolding diff_validate_def Let_def
  by (auto intro!: unchanging_intros diff_native_reads engine_calls simp: forced_dry_run_params_def)

lemma diff_subset_reads: "de_client self = client \<Longrightarrow> unchanging (diff_subset x self g name ns m d)"
  unfolding diff_subset_def by (auto intro!: unchanging_intros current_resource_reads)

lemma pending_reads: "de_client self = client \<Longrightarrow> unchanging (pending_addition_status self g ns)"
  unfolding pending_addition_status_def namespace_exists_def by (auto intro!: unchanging_intros engine_calls)

lemma diff_manifest_reads: "de_client self = client \<Longrightarrow> unchanging (diff_manifest x fmt self m)"
  unfolding diff_manifest_def Let_def
  by (auto intro!: unchanging_intros pending_reads diff_native_reads diff_server_reads diff_validate_reads
      diff_subset_reads)

lemma diff_manifest_native_reads: "de_client self = client \<Longrightarrow> unchanging (diff_manifest_native x fmt self m)"
  unfolding diff_manifest_native_def by (auto intro!: unchanging_intros pending_reads diff_native_reads)

lemma validate_reads: "de_client self = client \<Longrightarrow> unchanging (cluster_validate_manifest x self m)"
  unfolding cluster_validate_manifest_def
  by (auto intro!: unchanging_intros engine_calls simp: forced_dry_run_params_def)

lemma find_deleted_reads:
  "de_client self = client \<Longrightarrow> unchanging (find_deleted_for_type x is_match self g d keys label ns ts)"
  unfolding find_deleted_for_type_def by (auto intro!: unchanging_intros engine_calls)

lemma run_task_reads: "de_client self = client \<Longrightarrow> unchanging (run_task w self native ms label opts task)"
  unfolding run_task_def
  by (cases task) (auto intro!: unchanging_intros diff_manifest_reads diff_manifest_native_reads find_deleted_reads)

lemma fetch_live_reads: "de_client self = client \<Longrightarrow> unchanging (fetch_live self info)"
  unfolding fetch_live_def by (auto intro!: unchanging_intros engine_calls)

lemma fetch_reads: "de_client self = client \<Longrightarrow> unchanging (fetch_live_manifests w sched self ms)"
  unfolding fetch_live_manifests_def by (auto intro!: unchanging_intros fetch_live_reads)

lemma validate_all_reads: "de_client self = client \<Longrightarrow> unchanging (validate_all_parallel w sched self ms)"
  unfolding validate_all_parallel_def by (auto intro!: unchanging_intros validate_reads)

lemma diff_all_unchanging:
  assumes "de_client self = client"
  shows "unchanging (diff_all_with_prune_options w sched self ms with_prune env_label inject_labels opts)"
proof -
  have "de_client (case live of Some live \<Rightarrow> self\<lparr>de_live_resources := Some live\<rparr> | None \<Rightarrow> self) = client" for live
    using assms by (simp split: option.split)
  then show ?thesis
    unfolding diff_all_with_prune_options_def Let_def
    by (intro unchanging_intros validate_all_reads fetch_reads run_task_reads assms)
qed

end

section \<open>The order of the tasks\<close>

definition reorders :: "('a list \<Rightarrow> 'a list) \<Rightarrow> bool" where
  "reorders f \<longleftrightarrow> (\<forall>xs. mset (f xs) = mset xs)"

definition reordering :: "schedule \<Rightarrow> bool" where
  "reordering s \<longleftrightarrow> reorders (sched_validate s) \<and> reorders (sched_fetch s) \<and> reorders (sched_tasks s)"

lemma reorders_set: "reorders f \<Longrightarrow> set (f xs) = set xs"
  unfolding reorders_def by (metis set_mset_mset)

lemma answer_each_Inr:
  assumes "\<And>x. unchanging (f x)" and "answer (io_each f xs) c = Inr ys"
  shows "ys = map (\<lambda>x. projr (answer (f x) c)) xs" and "x \<in> set xs \<Longrightarrow> answer (f x) c = Inr (projr (answer (f x) c))"
proof -
  have all: "list_all2 (\<lambda>x y. answer (f x) c = Inr y) xs ys" using assms by (simp add: answer_each)
  then show "ys = map (\<lambda>x. projr (answer (f x) c)) xs" by (induction xs ys rule: list_all2_induct) auto
  show "answer (f x) c = Inr (projr (answer (f x) c))" if "x \<in> set xs"
    using all that by (auto simp: list_all2_conv_all_nth in_set_conv_nth)
qed

lemma answer_each_reordered:
  assumes "\<And>x. unchanging (f x)" and "answer (io_each f xs) c = Inr ys" and "set zs \<subseteq> set xs"
  shows "answer (io_each f zs) c = Inr (map (\<lambda>x. projr (answer (f x) c)) zs)"
  unfolding answer_each [OF assms(1)]
  unfolding list_all2_conv_all_nth length_map
  using answer_each_Inr(2) [OF assms(1,2)] assms(3) by (auto simp only: nth_map dest: nth_mem)

subsection \<open>The live resources\<close>

lemma map_of_updates:
  assumes "\<And>k v. (k, v) \<in> set es \<Longrightarrow> h k = v"
  shows "map_of (fold (\<lambda>(k, v). AList.update k v) es m) k = (if k \<in> fst ` set es then Some (h k) else map_of m k)"
  using assms
proof (induction es arbitrary: m)
  case (Cons e es)
  obtain k' v' where e: "e = (k', v')" by (cases e)
  have "h k' = v'" using Cons.prems [of k' v'] by (simp add: e)
  have "map_of (fold (\<lambda>(k, v). AList.update k v) es (AList.update k' v' m)) k =
      (if k \<in> fst ` set es then Some (h k) else map_of (AList.update k' v' m) k)"
    using Cons.prems by (intro Cons.IH) auto
  then show ?case using \<open>h k' = v'\<close> by (auto simp: e update_conv')
qed simp

lemma distinct_updates: "distinct (map fst m) \<Longrightarrow> distinct (map fst (fold (\<lambda>(k, v). AList.update k v) es m))"
  by (induction es arbitrary: m) (auto simp: distinct_update)

lemma live_uids_map_of:
  assumes "distinct (map fst (live_objects live))"
  shows "live_uids live = {uid. \<exists>k object. map_of (live_objects live) k = Some object \<and> Option.bind object obj_uid = Some uid}"
proof -
  have "live_uids live = {uid. \<exists>object \<in> ran (map_of (live_objects live)). Option.bind object obj_uid = Some uid}"
    unfolding live_uids_def ran_distinct [OF assms] ..
  then show ?thesis by (auto simp: ran_def)
qed

definition live_value :: "'c diff_engine \<Rightarrow> 'c \<Rightarrow> resource_key \<Rightarrow> dynamic_object option" where
  "live_value self c = (\<lambda>(g, namespace, name).
     projr (answer (api_get_opt (de_client self)
       (dynamic_api (dr_api_resource (the (cache_lookup (de_api_cache self) g))) namespace) name) c))"

lemma extract_manifest_info_discovered:
  "extract_manifest_info x self m = Inr info \<Longrightarrow>
   cache_lookup (de_api_cache self) (mi_gvk info) = Some (mi_discovered info)"
  by (auto simp: extract_manifest_info_def Let_def split: option.splits)

lemma extract_all:
  assumes "for_each (\<lambda>m infos. and_then (extract_manifest_info x self m) (\<lambda>info. Inr (infos @ [info]))) ms [] = Inr infos"
  shows "\<forall>info \<in> set infos. cache_lookup (de_api_cache self) (mi_gvk info) = Some (mi_discovered info)"
  by (rule for_each_invariant [OF assms])
    (auto simp: and_then_Inr_iff dest: extract_manifest_info_discovered)

text \<open>Whatever order the fetches finish in, the same objects are known under the same keys.\<close>

lemma fetch_live_map:
  assumes "dry_runs (de_client self)" "reorders sched"
    and "answer (fetch_live_manifests w sched self ms) c = Inr live"
    and "for_each (\<lambda>m infos. and_then (extract_manifest_info (env_externals w) self m)
           (\<lambda>info. Inr (infos @ [info]))) ms [] = Inr infos"
  shows "map_of (live_objects live) k =
      (if k \<in> (\<lambda>i. (mi_gvk i, mi_namespace i, mi_name i)) ` set infos then Some (live_value self c k) else None)"
    and "distinct (map fst (live_objects live))"
    and "answer (io_each (fetch_live self) infos) c = Inr (map (\<lambda>i. projr (answer (fetch_live self i) c)) infos)"
proof -
  have reads: "unchanging (fetch_live self i)" for i by (rule dry_runs.fetch_live_reads [OF assms(1) refl])
  from assms(3) obtain es where es: "answer (io_each (fetch_live self) (sched infos)) c = Inr es"
    and live: "live_objects live = fold (\<lambda>(key, object). AList.update key object) es []"
    by (auto simp: fetch_live_manifests_def assms(4) answer_then and_then_Inr_iff reads unchanging_each)
  show "distinct (map fst (live_objects live))" unfolding live by (rule distinct_updates) simp
  show "answer (io_each (fetch_live self) infos) c = Inr (map (\<lambda>i. projr (answer (fetch_live self i) c)) infos)"
    by (rule answer_each_reordered [OF reads es]) (simp add: reorders_set [OF assms(2)])
  have entry: "projr (answer (fetch_live self i) c) =
      ((mi_gvk i, mi_namespace i, mi_name i), live_value self c (mi_gvk i, mi_namespace i, mi_name i))"
    if "i \<in> set infos" for i
  proof -
    have "i \<in> set (sched infos)" using that by (simp add: reorders_set [OF assms(2)])
    from answer_each_Inr(2) [OF reads es this] obtain y where y: "answer (fetch_live self i) c = Inr y" by blast
    have get: "unchanging (api_get_opt (de_client self) h n)" for h n
      using assms(1) by (rule dry_runs.get_reads)
    have "cache_lookup (de_api_cache self) (mi_gvk i) = Some (mi_discovered i)"
      using extract_all [OF assms(4)] that by blast
    then show ?thesis
      using y by (auto simp: fetch_live_def answer_then [OF unchanging_map_err [OF get]] answer_map_err
          and_then_Inr_iff live_value_def split: sum.splits)
  qed
  have eq: "es = map (\<lambda>i. ((mi_gvk i, mi_namespace i, mi_name i), live_value self c (mi_gvk i, mi_namespace i, mi_name i))) (sched infos)"
    unfolding answer_each_Inr(1) [OF reads es] using entry by (simp add: reorders_set [OF assms(2)])
  have "live_value self c k = v" if "(k, v) \<in> set es" for k v using that by (auto simp: eq)
  from map_of_updates [where m = "[]" and k = k and h = "live_value self c" and es = es, OF this] show "map_of (live_objects live) k =
      (if k \<in> (\<lambda>i. (mi_gvk i, mi_namespace i, mi_name i)) ` set infos then Some (live_value self c k) else None)"
    by (simp add: live eq image_image reorders_set [OF assms(2)])
qed

lemma fetch_live_reordered:
  assumes "dry_runs (de_client self)" "reorders sched" "reorders sched'"
    and "answer (fetch_live_manifests w sched self ms) c = Inr live"
  shows "\<exists>live'. answer (fetch_live_manifests w sched' self ms) c = Inr live' \<and>
    map_of (live_objects live') = map_of (live_objects live) \<and> live_uids live' = live_uids live"
proof -
  have reads: "unchanging (fetch_live self i)" for i by (rule dry_runs.fetch_live_reads [OF assms(1) refl])
  from assms(4) obtain infos where infos: "for_each (\<lambda>m infos. and_then (extract_manifest_info (env_externals w) self m)
           (\<lambda>info. Inr (infos @ [info]))) ms [] = Inr infos"
    by (auto simp: fetch_live_manifests_def answer_then and_then_Inr_iff)
  note a = fetch_live_map [OF assms(1,2,4) infos]
  have "answer (io_each (fetch_live self) (sched' infos)) c = Inr (map (\<lambda>i. projr (answer (fetch_live self i) c)) (sched' infos))"
    by (rule answer_each_reordered [OF reads a(3)]) (simp add: reorders_set [OF assms(3)])
  then obtain live' where live': "answer (fetch_live_manifests w sched' self ms) c = Inr live'"
    by (auto simp: fetch_live_manifests_def infos answer_then reads unchanging_each)
  note b = fetch_live_map [OF assms(1,3) live' infos]
  have m: "map_of (live_objects live') = map_of (live_objects live)" by (rule ext) (simp add: a(1) b(1))
  then show ?thesis using live' by (simp add: live_uids_map_of a(2) b(2))
qed

text \<open>The engine reads its live resources only through \<open>get\<close>.\<close>

lemma run_task_live:
  assumes "map_of (live_objects l) = map_of (live_objects l')"
  shows "run_task w (self\<lparr>de_live_resources := Some l\<rparr>) native ms label opts task =
         run_task w (self\<lparr>de_live_resources := Some l'\<rparr>) native ms label opts task"
proof -
  let ?e = "self\<lparr>de_live_resources := Some l\<rparr>" and ?e' = "self\<lparr>de_live_resources := Some l'\<rparr>"
  have cur: "current_resource ?e g name ns d = current_resource ?e' g name ns d" for g name ns d
    by (simp add: current_resource_def assms cong: option.case_cong)
  have create: "diff_create x ?e g name ns m api = diff_create x ?e' g name ns m api" for x g name ns m api
    by (simp add: diff_create_def cong: option.case_cong)
  have native: "diff_native x fmt ?e g name ns m d = diff_native x fmt ?e' g name ns m d" for x fmt g name ns m d
    by (simp add: diff_native_def cur create send_patch_def engine_schema_def
        cong: option.case_cong sum.case_cong kube_error.case_cong if_cong)
  have server: "diff_server x ?e g name ns m d = diff_server x ?e' g name ns m d" for x g name ns m d
    by (simp add: diff_server_def cur create cong: option.case_cong)
  have subset: "diff_subset x ?e g name ns m d = diff_subset x ?e' g name ns m d" for x g name ns m d
    by (simp add: diff_subset_def cur cong: option.case_cong)
  have pending: "pending_addition_status ?e g ns = pending_addition_status ?e' g ns" for g ns
    by (simp add: pending_addition_status_def namespace_exists_def cong: option.case_cong if_cong)
  have info: "extract_manifest_info x ?e m = extract_manifest_info x ?e' m" for x m
    by (simp add: extract_manifest_info_def cong: option.case_cong resource_scope.case_cong)
  show ?thesis
    by (simp add: run_task_def diff_manifest_def diff_manifest_native_def diff_validate_def native server subset
        pending info find_deleted_for_type_def cong: diff_task.case_cong option.case_cong diff_strategy.case_cong if_cong)
qed

subsection \<open>The results\<close>

definition diffs_of :: "diff_task_result list \<Rightarrow> resource_diff list" where
  "diffs_of rs = filter_map (\<lambda>r. case r of Diff_Result d \<Rightarrow> Some d | Prune_Result _ \<Rightarrow> None) rs"

definition candidates_of :: "diff_task_result list \<Rightarrow> prune_candidate list" where
  "candidates_of rs = concat (map (\<lambda>r. case r of Diff_Result d \<Rightarrow> [] | Prune_Result cs \<Rightarrow> cs) rs)"

lemma fold_collect_result: "fold collect_result rs (ds, cs) = (ds @ diffs_of rs, cs @ candidates_of rs)"
  by (induction rs arbitrary: ds cs)
    (simp_all add: collect_result_def diffs_of_def candidates_of_def split: diff_task_result.split)

lemma mset_filter_map: "mset xs = mset ys \<Longrightarrow> mset (filter_map f xs) = mset (filter_map f ys)"
  by (simp add: filter_map_def List.map_filter_def)

lemma results_reordered:
  assumes "mset rs = mset rs'"
  shows "mset (diffs_of rs) = mset (diffs_of rs')" and "mset (candidates_of rs) = mset (candidates_of rs')"
proof -
  show "mset (diffs_of rs) = mset (diffs_of rs')" unfolding diffs_of_def by (rule mset_filter_map [OF assms])
  show "mset (candidates_of rs) = mset (candidates_of rs')"
    unfolding candidates_of_def mset_concat map_map by (metis assms mset_map sum_mset_sum_list)
qed

lemma sort_key_reordered:
  assumes "mset xs = mset ys" "inj_on f (set xs)"
  shows "sort_key f xs = sort_key f ys"
  by (rule sort_key_inj_key_eq [OF _ assms(2)]) (simp_all add: assms(1))

lemma collect_all_reordered:
  assumes "mset rs = mset rs'" "inj_on (\<lambda>c. diff_key (pc_diff c)) (set (candidates_of rs))"
    and "distinct (map diff_key (collect_all uids (fold collect_result rs ([], []))))"
  shows "collect_all uids (fold collect_result rs' ([], [])) = collect_all uids (fold collect_result rs ([], []))"
proof -
  let ?k = "\<lambda>c. diff_key (pc_diff c)"
  have cs: "sort_key ?k (candidates_of rs') = sort_key ?k (candidates_of rs)"
    by (rule sort_key_reordered [OF results_reordered(2) [OF assms(1)] assms(2), symmetric])
  let ?ds = "\<lambda>rs. diffs_of rs @ drop_seen (sort_key ?k (candidates_of rs)) uids"
  have "inj_on diff_key (set (sort_key diff_key (?ds rs)))"
    using assms(3) by (simp add: collect_all_def fold_collect_result distinct_map)
  then have "inj_on diff_key (set (?ds rs))" by simp
  moreover have "mset (?ds rs) = mset (?ds rs')" using results_reordered(1) [OF assms(1)] by (simp add: cs)
  ultimately have "sort_key diff_key (?ds rs) = sort_key diff_key (?ds rs')" by (intro sort_key_reordered)
  then show ?thesis by (simp add: collect_all_def fold_collect_result)
qed

subsection \<open>The candidates\<close>

text \<open>The API lists an object once, and a name is unique among the objects of a kind and namespace.\<close>

definition lists_once_each :: "'c kube_client \<Rightarrow> 'c \<Rightarrow> bool" where
  "lists_once_each client c \<longleftrightarrow> (\<forall>h l objs. answer (api_list client h l) c = Inr objs \<longrightarrow>
     distinct (map (\<lambda>obj. (obj_namespace obj, obj_name obj)) objs))"

lemma prune_one_SomeD:
  assumes "prune_one x is_match g keys ts r = Some cand"
  shows "obj_name r = Some (rd_name (pc_diff cand))" and "rd_namespace (pc_diff cand) = obj_namespace r"
    and "rd_gvk (pc_diff cand) = g" and "rd_status (pc_diff cand) = Deleted" and "pc_uid cand = obj_uid r"
    and "(x_api_version x g, gvk_kind g, obj_namespace r, rd_name (pc_diff cand)) \<notin> keys"
    and "\<not> is_prune_ignored r" and "is_directly_created r"
    and "ts = Some tms \<Longrightarrow> keeps_kind_name is_match tms (gvk_kind g @ ''/'' @ rd_name (pc_diff cand))"
  using assms by (auto simp: prune_one_def Let_def split: option.splits if_splits)

lemma gvk_eqI: "gvk_group g = gvk_group h \<Longrightarrow> gvk_version g = gvk_version h \<Longrightarrow> gvk_kind g = gvk_kind h \<Longrightarrow> g = (h :: gvk)"
  by simp

lemma diff_key_gvk: "diff_key d = diff_key e \<Longrightarrow> rd_gvk d = rd_gvk e"
  by (simp add: diff_key_def gvk_eqI)

definition type_candidates ::
  "surroundings \<Rightarrow> 'c diff_engine \<Rightarrow> json list \<Rightarrow> string \<Rightarrow> prune_options \<Rightarrow> 'c \<Rightarrow> gvk \<Rightarrow> discovered_resource \<Rightarrow>
   prune_candidate list" where
  "type_candidates w self ms label opts c g d =
     filter_map (prune_one (env_externals w) (env_is_match w) g
          (build_manifest_keys ms (de_api_cache self) (de_default_namespace self)) (po_targets opts))
       (projr (answer (api_list (de_client self) (dynamic_api (dr_api_resource d) (nonempty_namespace (po_namespace opts)))
          (''tanka.dev/environment='' @ label)) c))"

lemma run_prune_task:
  assumes "dry_runs (de_client self)" "answer (run_task w self native ms label opts (Prune_Task g d)) c = Inr r"
  shows "r = Prune_Result (type_candidates w self ms label opts c g d)"
    and "\<exists>objs. answer (api_list (de_client self) (dynamic_api (dr_api_resource d) (nonempty_namespace (po_namespace opts)))
          (''tanka.dev/environment='' @ label)) c = Inr objs"
proof -
  have l: "unchanging (api_list (de_client self) h n)" for h n by (rule dry_runs.list_reads [OF assms(1)])
  from assms(2) show "r = Prune_Result (type_candidates w self ms label opts c g d)"
    "\<exists>objs. answer (api_list (de_client self) (dynamic_api (dr_api_resource d) (nonempty_namespace (po_namespace opts)))
          (''tanka.dev/environment='' @ label)) c = Inr objs"
    by (auto simp: run_task_def find_deleted_for_type_def type_candidates_def answer_then unchanging_map_err
        unchanging_then l and_then_Inr_iff answer_map_err split: sum.splits)
qed

lemma run_diff_task:
  assumes "dry_runs (de_client self)" "answer (run_task w self native ms label opts (Diff_Task m)) c = Inr r"
  shows "\<exists>d. r = Diff_Result d \<and>
    answer (if native then diff_manifest_native (env_externals w) (env_format w) self m
            else diff_manifest (env_externals w) (env_format w) self m) c = Inr d"
proof -
  have u: "unchanging (diff_manifest_native (env_externals w) (env_format w) self m)"
    "unchanging (diff_manifest (env_externals w) (env_format w) self m)"
    by (rule dry_runs.diff_manifest_native_reads [OF assms(1) refl], rule dry_runs.diff_manifest_reads [OF assms(1) refl])
  from assms(2) show ?thesis
    by (cases native) (auto simp: run_task_def answer_then u and_then_Inr_iff)
qed

lemma distinct_filter_map_inj:
  assumes "distinct (map k xs)" "\<And>x y. f x = Some y \<Longrightarrow> k x = h y"
  shows "distinct (map h (filter_map f xs))"
  using assms(1)
proof (induction xs)
  case (Cons x xs)
  have "k x \<notin> h ` set (filter_map f xs)" using Cons.prems assms(2) by (force simp: set_filter_map)
  with Cons assms(2) [of x] show ?case by (auto split: option.split)
qed simp

lemma type_candidates_distinct:
  assumes "lists_once_each (de_client self) c"
    and "answer (api_list (de_client self) (dynamic_api (dr_api_resource d) (nonempty_namespace (po_namespace opts)))
          (''tanka.dev/environment='' @ label)) c = Inr objs"
  shows "distinct (map (\<lambda>cand. diff_key (pc_diff cand)) (type_candidates w self ms label opts c g d))"
proof -
  have "distinct (map (\<lambda>obj. (obj_namespace obj, obj_name obj)) objs)" using assms by (auto simp: lists_once_each_def)
  then have "distinct (map (\<lambda>cand. (rd_namespace (pc_diff cand), Some (rd_name (pc_diff cand))))
      (type_candidates w self ms label opts c g d))"
    unfolding type_candidates_def assms(2) sum.sel
    by (rule distinct_filter_map_inj) (auto dest: prune_one_SomeD)
  then show ?thesis
    by (auto simp: distinct_map inj_on_def diff_key_def)
qed

lemma type_candidates_gvk: "cand \<in> set (type_candidates w self ms label opts c g d) \<Longrightarrow> rd_gvk (pc_diff cand) = g"
  by (auto simp: type_candidates_def set_filter_map dest: prune_one_SomeD)

lemma candidates_of_tasks:
  assumes "dry_runs (de_client self)"
    and "\<And>t. t \<in> set tasks \<Longrightarrow> answer (run_task w self native ms label opts t) c = Inr (r t)"
  shows "cand \<in> set (candidates_of (map r tasks)) \<longleftrightarrow>
    (\<exists>g d. Prune_Task g d \<in> set tasks \<and> cand \<in> set (type_candidates w self ms label opts c g d))"
proof -
  have prune: "r (Prune_Task g d) = Prune_Result (type_candidates w self ms label opts c g d)" if "Prune_Task g d \<in> set tasks" for g d
    by (rule run_prune_task(1) [OF assms(1) assms(2) [OF that]])
  have diff: "\<exists>x. r (Diff_Task m) = Diff_Result x" if "Diff_Task m \<in> set tasks" for m
    using run_diff_task [OF assms(1) assms(2) [OF that]] by blast
  have "cand \<in> set (case r t of Diff_Result x \<Rightarrow> [] | Prune_Result cs \<Rightarrow> cs) \<longleftrightarrow>
      (\<exists>g d. t = Prune_Task g d \<and> cand \<in> set (type_candidates w self ms label opts c g d))" if "t \<in> set tasks" for t
  proof (cases t)
    case (Diff_Task m)
    then show ?thesis using diff [of m] that by auto
  next
    case (Prune_Task g d)
    then show ?thesis using prune [of g d] that by simp
  qed
  then show ?thesis by (fastforce simp: candidates_of_def)
qed

lemma candidates_of_inj:
  assumes "dry_runs (de_client self)" "lists_once_each (de_client self) c" "distinct (map fst (resources (de_api_cache self)))"
    and "\<And>t. t \<in> set tasks \<Longrightarrow> answer (run_task w self native ms label opts t) c = Inr (r t)"
    and "\<And>g d. Prune_Task g d \<in> set tasks \<Longrightarrow> (g, d) \<in> set (resources (de_api_cache self))"
  shows "inj_on (\<lambda>cand. diff_key (pc_diff cand)) (set (candidates_of (map r tasks)))"
proof (rule inj_onI)
  fix a b assume "a \<in> set (candidates_of (map r tasks))" "b \<in> set (candidates_of (map r tasks))"
    and eq: "diff_key (pc_diff a) = diff_key (pc_diff b)"
  then obtain g d h e where a: "Prune_Task g d \<in> set tasks" "a \<in> set (type_candidates w self ms label opts c g d)"
    and b: "Prune_Task h e \<in> set tasks" "b \<in> set (type_candidates w self ms label opts c h e)"
    by (auto simp: candidates_of_tasks [OF assms(1,4)])
  have "g = h" using diff_key_gvk [OF eq] type_candidates_gvk [OF a(2)] type_candidates_gvk [OF b(2)] by simp
  moreover have "(g, d) \<in> set (resources (de_api_cache self))" "(h, e) \<in> set (resources (de_api_cache self))"
    using assms(5) a(1) b(1) by blast+
  ultimately have "d = e" using assms(3) by (metis eq_key_imp_eq_value)
  obtain objs where "answer (api_list (de_client self) (dynamic_api (dr_api_resource d) (nonempty_namespace (po_namespace opts)))
          (''tanka.dev/environment='' @ label)) c = Inr objs"
    using run_prune_task(2) [OF assms(1) assms(4) [OF a(1)]] by blast
  from type_candidates_distinct [OF assms(2) this, of w ms g] show "a = b"
    using a(2) b(2) eq unfolding \<open>g = h\<close> \<open>d = e\<close> by (auto simp: distinct_map dest: inj_onD)
qed

subsection \<open>The whole diff\<close>

definition diff_tasks :: "surroundings \<Rightarrow> 'c diff_engine \<Rightarrow> json list \<Rightarrow> bool \<Rightarrow> prune_options \<Rightarrow> diff_task list" where
  "diff_tasks w self manifests do_prune opts =
     spawn_diff_tasks manifests @ (if do_prune then spawn_prune_tasks w self opts else [])"

definition live_engine :: "'c diff_engine \<Rightarrow> live_resources option \<Rightarrow> 'c diff_engine" where
  "live_engine self live = (case live of Some live \<Rightarrow> self\<lparr>de_live_resources := Some live\<rparr> | None \<Rightarrow> self)"

definition live_seen :: "live_resources option \<Rightarrow> string set" where
  "live_seen live = (case live of Some live \<Rightarrow> live_uids live | None \<Rightarrow> {})"

lemma live_engine_simps [simp]:
  "de_client (live_engine self live) = de_client self"
  "de_api_cache (live_engine self live) = de_api_cache self"
  "de_default_namespace (live_engine self live) = de_default_namespace self"
  by (auto simp: live_engine_def split: option.split)

lemma prune_task_cached: "Prune_Task g d \<in> set (diff_tasks w self ms p opts) \<Longrightarrow> (g, d) \<in> set (resources (de_api_cache self))"
  by (auto simp: diff_tasks_def spawn_diff_tasks_def spawn_prune_tasks_def cache_iter_def split: if_splits)

text \<open>A diff that succeeds is its phases, each of which succeeds.\<close>

lemma diff_all_phases:
  assumes "dry_runs (de_client self)"
  shows "answer (diff_all_with_prune_options w s self ms with_prune env_label inject_labels opts) c = Inr ds \<longleftrightarrow>
    (with_prune \<longrightarrow> inject_labels) \<and>
    (de_strategy self = Validate \<longrightarrow> (\<exists>us. answer (io_each (cluster_validate_manifest (env_externals w) self) (sched_validate s ms)) c = Inr us)) \<and>
    (\<exists>live rs.
      (if with_prune \<and> env_label \<noteq> None
       then \<exists>l. live = Some l \<and> answer (fetch_live_manifests w (sched_fetch s) self ms) c = Inr l
       else live = None) \<and>
      answer (io_each (run_task w (live_engine self live) (de_strategy self = Validate) ms (or_empty env_label) opts)
        (sched_tasks s (diff_tasks w self ms (with_prune \<and> env_label \<noteq> None) opts))) c = Inr rs \<and>
      ds = collect_all (live_seen live) (fold collect_result rs ([], [])))"
proof -
  have v: "unchanging (io_each (cluster_validate_manifest (env_externals w) self) xs)" for xs
    by (intro unchanging_each dry_runs.validate_reads [OF assms]) simp
  have f: "unchanging (fetch_live_manifests w sched self ms)" for sched
    by (rule dry_runs.fetch_reads [OF assms refl])
  have t: "unchanging (io_each (run_task w (live_engine self live) native ms label opts) xs)" for live native label xs
    by (intro unchanging_each dry_runs.run_task_reads [OF assms]) simp
  show ?thesis
    unfolding diff_all_with_prune_options_def validate_all_parallel_def Let_def
      live_engine_def [symmetric] live_seen_def [symmetric] diff_tasks_def [symmetric]
    by (cases "with_prune \<and> env_label \<noteq> None"; cases "de_strategy self = Validate"; cases "with_prune \<and> \<not> inject_labels")
      (auto simp: answer_then v f t unchanging_then and_then_Inr_iff)
qed

lemma diff_all_order:
  assumes "dry_runs (de_client self)" "lists_once_each (de_client self) c" "distinct (map fst (resources (de_api_cache self)))"
    and "reordering s" "reordering s'"
    and "answer (diff_all_with_prune_options w s self ms with_prune env_label inject_labels opts) c = Inr ds"
    and "distinct (map diff_key ds)"
  shows "answer (diff_all_with_prune_options w s' self ms with_prune env_label inject_labels opts) c = Inr ds"
proof -
  let ?p = "with_prune \<and> env_label \<noteq> None"
  let ?native = "de_strategy self = Validate"
  let ?tasks = "diff_tasks w self ms ?p opts"
  note ord = assms(4,5) [unfolded reordering_def]
  from assms(6) obtain live rs where
    validated: "?native \<longrightarrow> (\<exists>us. answer (io_each (cluster_validate_manifest (env_externals w) self) (sched_validate s ms)) c = Inr us)"
    and labels: "with_prune \<longrightarrow> inject_labels"
    and live: "if ?p then \<exists>l. live = Some l \<and> answer (fetch_live_manifests w (sched_fetch s) self ms) c = Inr l else live = None"
    and rs: "answer (io_each (run_task w (live_engine self live) ?native ms (or_empty env_label) opts) (sched_tasks s ?tasks)) c = Inr rs"
    and ds: "ds = collect_all (live_seen live) (fold collect_result rs ([], []))"
    unfolding diff_all_phases [OF assms(1)] by blast
  have validated': "?native \<longrightarrow> (\<exists>us. answer (io_each (cluster_validate_manifest (env_externals w) self) (sched_validate s' ms)) c = Inr us)"
  proof
    assume "?native"
    then obtain us where us: "answer (io_each (cluster_validate_manifest (env_externals w) self) (sched_validate s ms)) c = Inr us"
      using validated by blast
    have "set (sched_validate s' ms) \<subseteq> set (sched_validate s ms)" using ord by (simp add: reorders_set)
    from answer_each_reordered [OF dry_runs.validate_reads [OF assms(1) refl] us this]
    show "\<exists>us. answer (io_each (cluster_validate_manifest (env_externals w) self) (sched_validate s' ms)) c = Inr us" by blast
  qed
  obtain live' where live': "if ?p then \<exists>l. live' = Some l \<and> answer (fetch_live_manifests w (sched_fetch s') self ms) c = Inr l else live' = None"
    and same: "\<And>t. run_task w (live_engine self live') ?native ms (or_empty env_label) opts t =
                    run_task w (live_engine self live) ?native ms (or_empty env_label) opts t"
    and seen: "live_seen live' = live_seen live"
  proof (cases ?p)
    case True
    then obtain l where l: "live = Some l" "answer (fetch_live_manifests w (sched_fetch s) self ms) c = Inr l" using live by auto
    from fetch_live_reordered [OF assms(1) _ _ l(2), of "sched_fetch s'"] ord obtain l' where
      "answer (fetch_live_manifests w (sched_fetch s') self ms) c = Inr l'"
      "map_of (live_objects l') = map_of (live_objects l)" "live_uids l' = live_uids l" by blast
    note l' = this
    have "run_task w (live_engine self (Some l')) ?native ms (or_empty env_label) opts t =
        run_task w (live_engine self live) ?native ms (or_empty env_label) opts t" for t
      unfolding l(1) live_engine_def option.case by (rule run_task_live [OF l'(2)])
    moreover have "live_seen (Some l') = live_seen live" using l(1) l'(3) by (simp add: live_seen_def)
    ultimately show ?thesis using True l'(1) that [of "Some l'"] by simp
  next
    case False
    with live that [of None] show ?thesis by auto
  qed
  let ?run = "run_task w (live_engine self live) ?native ms (or_empty env_label) opts"
  have dry: "dry_runs (de_client (live_engine self live))" using assms(1) by simp
  have reads: "unchanging (?run t)" for t by (rule dry_runs.run_task_reads [OF assms(1)]) simp
  have tasks_set: "set (sched_tasks s xs) = set xs" "set (sched_tasks s' xs) = set xs" for xs
    using ord by (simp_all add: reorders_set)
  let ?r = "\<lambda>t. projr (answer (?run t) c)"
  have rs_eq: "rs = map ?r (sched_tasks s ?tasks)" by (rule answer_each_Inr(1) [OF reads rs])
  have ok: "answer (?run t) c = Inr (?r t)" if "t \<in> set (sched_tasks s ?tasks)" for t
    by (rule answer_each_Inr(2) [OF reads rs that])
  have rs': "answer (io_each ?run (sched_tasks s' ?tasks)) c = Inr (map ?r (sched_tasks s' ?tasks))"
    by (rule answer_each_reordered [OF reads rs]) (simp add: tasks_set)
  have "mset rs = mset (map ?r (sched_tasks s' ?tasks))"
    unfolding rs_eq mset_map using ord by (simp add: reorders_def)
  moreover have "inj_on (\<lambda>cand. diff_key (pc_diff cand)) (set (candidates_of rs))"
    unfolding rs_eq
    by (rule candidates_of_inj [OF dry _ _ ok]) (use assms(2,3) prune_task_cached in \<open>auto simp: tasks_set\<close>)
  ultimately have "collect_all (live_seen live) (fold collect_result (map ?r (sched_tasks s' ?tasks)) ([], [])) = ds"
    using assms(7) unfolding ds by (rule collect_all_reordered)
  moreover have "run_task w (live_engine self live') ?native ms (or_empty env_label) opts = ?run"
    by (rule ext) (rule same)
  ultimately show ?thesis
    unfolding diff_all_phases [OF assms(1)] using labels validated' live' rs' seen
    by (intro conjI exI [of _ live'] exI [of _ "map ?r (sched_tasks s' ?tasks)"]) simp_all
qed

section \<open>What a diff of a manifest says\<close>

text \<open>Every value a call may give has a property.\<close>

definition gives :: "('a \<Rightarrow> bool) \<Rightarrow> ('c, 'e, 'a) io \<Rightarrow> bool" where
  "gives P m \<longleftrightarrow> (\<forall>c x. fst (m c) = Inr x \<longrightarrow> P x)"

named_theorems gives_intros \<open>calls whose values have a property\<close>

lemma gives_lift [gives_intros]: "(\<And>x. r = Inr x \<Longrightarrow> P x) \<Longrightarrow> gives P (io_lift r)"
  by (simp add: gives_def io_lift_def)

lemma gives_then [gives_intros]: "(\<And>x. gives P (f x)) \<Longrightarrow> gives P (io_then m f)"
  by (auto simp: gives_def io_then_def split: prod.splits sum.splits)

lemma gives_if [gives_intros]: "(b \<Longrightarrow> gives P m) \<Longrightarrow> (\<not> b \<Longrightarrow> gives P n) \<Longrightarrow> gives P (if b then m else n)"
  by simp

lemma gives_option [gives_intros]:
  "(v = None \<Longrightarrow> gives P m) \<Longrightarrow> (\<And>x. v = Some x \<Longrightarrow> gives P (f x)) \<Longrightarrow> gives P (case v of None \<Rightarrow> m | Some x \<Rightarrow> f x)"
  by (simp split: option.split)

lemma gives_sum [gives_intros]:
  "(\<And>x. v = Inl x \<Longrightarrow> gives P (f x)) \<Longrightarrow> (\<And>x. v = Inr x \<Longrightarrow> gives P (g x)) \<Longrightarrow> gives P (case v of Inl x \<Rightarrow> f x | Inr x \<Rightarrow> g x)"
  by (simp split: sum.split)

lemma gives_strategy [gives_intros]:
  "gives P m \<Longrightarrow> gives P n \<Longrightarrow> gives P p \<Longrightarrow> gives P q \<Longrightarrow>
   gives P (case v of Native \<Rightarrow> m | Server \<Rightarrow> n | Validate \<Rightarrow> p | Subset \<Rightarrow> q)"
  by (simp split: diff_strategy.split)

lemma gives_answer: "gives P m \<Longrightarrow> answer m c = Inr x \<Longrightarrow> P x"
  by (auto simp: gives_def answer_def)

text \<open>A diff names the resource it is about; it never proposes a deletion.\<close>

definition about :: "gvk \<Rightarrow> string \<Rightarrow> string option \<Rightarrow> resource_diff \<Rightarrow> bool" where
  "about g name namespace d \<longleftrightarrow>
     rd_gvk d = g \<and> rd_name d = name \<and> rd_namespace d = namespace \<and> rd_status d \<noteq> Deleted"

lemma about_compare: "compare_redacted x g name ns v v' = Inr d \<Longrightarrow> about g name ns d"
  by (auto simp: compare_redacted_def about_def and_then_Inr_iff split: option.splits if_splits)

lemma about_create: "gives (about g name ns) (diff_create x self g name ns m api)"
  unfolding diff_create_def by (intro gives_intros) (auto simp: about_def and_then_Inr_iff)

lemma about_native: "gives (about g name ns) (diff_native x fmt self g name ns m d)"
  unfolding diff_native_def Let_def
  by (intro gives_intros about_create) (auto simp: compute_diff_def dest: about_compare)

lemma about_server: "gives (about g name ns) (diff_server x self g name ns m d)"
  unfolding diff_server_def Let_def
  by (intro gives_intros about_create) (auto simp: compute_diff_def dest: about_compare)

lemma about_validate: "gives (about g name ns) (diff_validate x fmt self g name ns m d)"
  unfolding diff_validate_def Let_def by (intro gives_intros about_native)

lemma about_subset: "gives (about g name ns) (diff_subset x self g name ns m d)"
  unfolding diff_subset_def
  by (intro gives_intros) (auto simp: about_def [of _ _ _ "\<lparr>rd_gvk = _, rd_namespace = _, rd_name = _, rd_status = _, rd_current_yaml = _, rd_desired_yaml = _\<rparr>"]
      and_then_Inr_iff dest: about_compare split: option.splits)

definition about_manifest :: "externals \<Rightarrow> 'c diff_engine \<Rightarrow> json \<Rightarrow> resource_diff \<Rightarrow> bool" where
  "about_manifest x self m d \<longleftrightarrow>
     (\<exists>info. extract_manifest_info x self m = Inr info \<and> about (mi_gvk info) (mi_name info) (mi_namespace info) d)"

lemma gives_then_lift: "(\<And>x. r = Inr x \<Longrightarrow> gives P (f x)) \<Longrightarrow> gives P (io_then (io_lift r) f)"
  by (auto simp: gives_def io_then_def io_lift_def split: sum.splits)

lemma gives_then_with: "gives Q m \<Longrightarrow> (\<And>x. Q x \<Longrightarrow> gives P (f x)) \<Longrightarrow> gives P (io_then m f)"
  by (auto simp: gives_def io_then_def split: prod.splits sum.splits) (metis fst_conv)

lemma pending_not_deleted: "gives (\<lambda>s. s \<noteq> Some Deleted) (pending_addition_status self g ns)"
  unfolding pending_addition_status_def by (intro gives_intros) (auto split: if_splits)

lemma about_soon:
  "s \<noteq> Deleted \<Longrightarrow> soon_diff x info s m = Inr d \<Longrightarrow> about (mi_gvk info) (mi_name info) (mi_namespace info) d"
  by (auto simp: soon_diff_def about_def and_then_Inr_iff)

lemma about_diff_manifest: "gives (about_manifest x self m) (diff_manifest x fmt self m)"
  unfolding diff_manifest_def Let_def
proof (rule gives_then_lift)
  fix info assume info: "extract_manifest_info x self m = Inr info"
  let ?P = "about (mi_gvk info) (mi_name info) (mi_namespace info)"
  have "gives ?P (io_then (pending_addition_status self (mi_gvk info) (mi_namespace info)) (\<lambda>pending.
         case pending of
           Some status \<Rightarrow> io_lift (soon_diff x info status (normalize_manifest_namespace m (mi_namespace info)))
         | None \<Rightarrow>
             (case de_strategy self of
                Native \<Rightarrow> diff_native x fmt self (mi_gvk info) (mi_name info) (mi_namespace info) (normalize_manifest_namespace m (mi_namespace info)) (mi_discovered info)
              | Server \<Rightarrow> diff_server x self (mi_gvk info) (mi_name info) (mi_namespace info) (normalize_manifest_namespace m (mi_namespace info)) (mi_discovered info)
              | Validate \<Rightarrow> diff_validate x fmt self (mi_gvk info) (mi_name info) (mi_namespace info) (normalize_manifest_namespace m (mi_namespace info)) (mi_discovered info)
              | Subset \<Rightarrow> diff_subset x self (mi_gvk info) (mi_name info) (mi_namespace info) (normalize_manifest_namespace m (mi_namespace info)) (mi_discovered info))))"
    (is "gives ?P ?run")
    by (rule gives_then_with [OF pending_not_deleted])
      (intro gives_intros about_native about_server about_validate about_subset about_soon, auto)
  then show "gives (about_manifest x self m) ?run"
    using info by (auto simp: gives_def about_manifest_def)
qed

lemma about_diff_manifest_native: "gives (about_manifest x self m) (diff_manifest_native x fmt self m)"
  unfolding diff_manifest_native_def
proof (rule gives_then_lift)
  fix info assume info: "extract_manifest_info x self m = Inr info"
  let ?P = "about (mi_gvk info) (mi_name info) (mi_namespace info)"
  have "gives ?P (io_then (pending_addition_status self (mi_gvk info) (mi_namespace info)) (\<lambda>pending.
         case pending of
           Some status \<Rightarrow> io_lift (soon_diff x info status m)
         | None \<Rightarrow>
             diff_native x fmt self (mi_gvk info) (mi_name info) (mi_namespace info) m (mi_discovered info)))"
    (is "gives ?P ?run")
    by (rule gives_then_with [OF pending_not_deleted])
      (intro gives_intros about_native about_soon, auto)
  then show "gives (about_manifest x self m) ?run"
    using info by (auto simp: gives_def about_manifest_def)
qed

lemma about_task:
  assumes "dry_runs (de_client self)" "answer (run_task w self native ms label opts (Diff_Task m)) c = Inr r"
  shows "\<exists>d. r = Diff_Result d \<and> about_manifest (env_externals w) self m d"
proof -
  obtain d where d: "r = Diff_Result d" "answer (if native then diff_manifest_native (env_externals w) (env_format w) self m
            else diff_manifest (env_externals w) (env_format w) self m) c = Inr d"
    using run_diff_task [OF assms] by blast
  have "about_manifest (env_externals w) self m d"
    using d(2) gives_answer [OF about_diff_manifest] gives_answer [OF about_diff_manifest_native]
    by (cases native) auto
  with d(1) show ?thesis by blast
qed

section \<open>What a diff reports\<close>

lemma drop_seen_mem:
  "d \<in> set (drop_seen cs seen) \<Longrightarrow> \<exists>cand\<in>set cs. pc_diff cand = d \<and> (\<forall>uid. pc_uid cand = Some uid \<longrightarrow> uid \<notin> seen)"
  by (induction cs seen rule: drop_seen.induct) (auto split: option.splits if_splits)

lemma extract_live [simp]: "extract_manifest_info x (live_engine self live) m = extract_manifest_info x self m"
  by (simp add: extract_manifest_info_def live_engine_def cong: option.case_cong resource_scope.case_cong split: option.split)

lemma about_live [simp]: "about_manifest x (live_engine self live) m = about_manifest x self m"
  by (simp add: about_manifest_def fun_eq_iff)

lemma type_candidates_live [simp]: "type_candidates w (live_engine self live) ms label opts c g d = type_candidates w self ms label opts c g d"
  by (simp add: type_candidates_def)

lemma mem_diffs_of: "d \<in> set (diffs_of rs) \<longleftrightarrow> Diff_Result d \<in> set rs"
  by (induction rs) (auto simp: diffs_of_def split: diff_task_result.split)

lemma diff_all_members:
  assumes "dry_runs (de_client self)"
    and "answer (diff_all_with_prune_options w s self ms with_prune env_label inject_labels opts) c = Inr ds"
    and "reordering s" "d \<in> set ds"
  shows "(\<exists>m\<in>set ms. about_manifest (env_externals w) self m d) \<or>
    (\<exists>live g disc cand objs. with_prune \<and> inject_labels \<and> env_label \<noteq> None \<and>
       answer (fetch_live_manifests w (sched_fetch s) self ms) c = Inr live \<and>
       (g, disc) \<in> set (resources (de_api_cache self)) \<and>
       answer (api_list (de_client self) (dynamic_api (dr_api_resource disc) (nonempty_namespace (po_namespace opts)))
          (''tanka.dev/environment='' @ or_empty env_label)) c = Inr objs \<and>
       cand \<in> set (type_candidates w self ms (or_empty env_label) opts c g disc) \<and>
       pc_diff cand = d \<and> (\<forall>uid. pc_uid cand = Some uid \<longrightarrow> uid \<notin> live_uids live))"
proof -
  let ?p = "with_prune \<and> env_label \<noteq> None"
  let ?native = "de_strategy self = Validate"
  let ?tasks = "diff_tasks w self ms ?p opts"
  from assms(2) obtain live rs where labels: "with_prune \<longrightarrow> inject_labels"
    and live: "if ?p then \<exists>l. live = Some l \<and> answer (fetch_live_manifests w (sched_fetch s) self ms) c = Inr l else live = None"
    and rs: "answer (io_each (run_task w (live_engine self live) ?native ms (or_empty env_label) opts) (sched_tasks s ?tasks)) c = Inr rs"
    and ds: "ds = collect_all (live_seen live) (fold collect_result rs ([], []))"
    unfolding diff_all_phases [OF assms(1)] by blast
  let ?run = "run_task w (live_engine self live) ?native ms (or_empty env_label) opts"
  have dry: "dry_runs (de_client (live_engine self live))" using assms(1) by simp
  have reads: "unchanging (?run t)" for t by (rule dry_runs.run_task_reads [OF assms(1)]) simp
  have tasks: "set (sched_tasks s xs) = set xs" for xs using assms(3) by (simp add: reordering_def reorders_set)
  let ?r = "\<lambda>t. projr (answer (?run t) c)"
  have rs_eq: "rs = map ?r (sched_tasks s ?tasks)" by (rule answer_each_Inr(1) [OF reads rs])
  have ok: "answer (?run t) c = Inr (?r t)" if "t \<in> set (sched_tasks s ?tasks)" for t
    by (rule answer_each_Inr(2) [OF reads rs that])
  from assms(4) consider (diff) "d \<in> set (diffs_of rs)" | (prune) "d \<in> set (drop_seen (sort_key (\<lambda>c. diff_key (pc_diff c)) (candidates_of rs)) (live_seen live))"
    unfolding ds by (auto simp: collect_all_def fold_collect_result)
  then show ?thesis
  proof cases
    case diff
    then have "Diff_Result d \<in> set rs" by (simp add: mem_diffs_of)
    then obtain t where t: "t \<in> set (sched_tasks s ?tasks)" "?r t = Diff_Result d" unfolding rs_eq by auto
    show ?thesis
    proof (cases t)
      case (Diff_Task m)
      then have "m \<in> set ms" using t(1) by (auto simp: tasks diff_tasks_def spawn_diff_tasks_def spawn_prune_tasks_def split: if_splits)
      moreover have "about_manifest (env_externals w) self m d"
        using about_task [OF dry ok [OF t(1), unfolded Diff_Task]] t(2) by (auto simp: Diff_Task)
      ultimately show ?thesis by blast
    next
      case (Prune_Task g disc)
      from run_prune_task(1) [OF dry ok [OF t(1), unfolded Prune_Task]] t(2) show ?thesis by (simp add: Prune_Task)
    qed
  next
    case prune
    from drop_seen_mem [OF this] obtain cand where cand: "cand \<in> set (candidates_of rs)" "pc_diff cand = d"
      "\<forall>uid. pc_uid cand = Some uid \<longrightarrow> uid \<notin> live_seen live" by auto
    then obtain g disc where g: "Prune_Task g disc \<in> set (sched_tasks s ?tasks)"
      "cand \<in> set (type_candidates w (live_engine self live) ms (or_empty env_label) opts c g disc)"
      unfolding rs_eq using candidates_of_tasks [where r = ?r, OF dry ok] by blast
    have ?p using g(1) by (auto simp: tasks diff_tasks_def spawn_diff_tasks_def split: if_splits)
    then obtain l where l: "live = Some l" "answer (fetch_live_manifests w (sched_fetch s) self ms) c = Inr l" using live by auto
    have "(g, disc) \<in> set (resources (de_api_cache self))" using g(1) by (auto simp: tasks dest: prune_task_cached)
    moreover from run_prune_task(2) [OF dry ok [OF g(1)]] obtain objs where
      "answer (api_list (de_client self) (dynamic_api (dr_api_resource disc) (nonempty_namespace (po_namespace opts)))
          (''tanka.dev/environment='' @ or_empty env_label)) c = Inr objs" by auto
    ultimately show ?thesis using \<open>?p\<close> labels l cand g(2) by (intro disjI2) (auto simp: live_seen_def)
  qed
qed

lemma results_of_diffs:
  "diffs_of (map (\<lambda>m. Diff_Result (f m)) ms) = map f ms"
  "candidates_of (map (\<lambda>m. Diff_Result (f m)) ms) = []"
  by (induction ms) (simp_all add: diffs_of_def candidates_of_def)

text \<open>Without pruning there is one diff per manifest.\<close>

lemma diff_all_plain:
  assumes "dry_runs (de_client self)" "reordering s"
    and "answer (diff_all w s self ms False env_label inject_labels) c = Inr ds"
  shows "\<exists>f. mset ds = mset (map f ms) \<and> (\<forall>m\<in>set ms. about_manifest (env_externals w) self m (f m))"
proof -
  let ?native = "de_strategy self = Validate"
  let ?run = "run_task w (live_engine self None) ?native ms (or_empty env_label) no_prune_options"
  from assms(3) obtain rs where
    rs: "answer (io_each ?run (sched_tasks s (map Diff_Task ms))) c = Inr rs"
    and ds: "ds = collect_all (live_seen None) (fold collect_result rs ([], []))"
    unfolding diff_all_def diff_all_phases [OF assms(1)] by (auto simp: diff_tasks_def spawn_diff_tasks_def)
  have dry: "dry_runs (de_client (live_engine self None))" using assms(1) by simp
  have reads: "unchanging (?run t)" for t by (rule dry_runs.run_task_reads [OF assms(1)]) simp
  let ?r = "\<lambda>t. projr (answer (?run t) c)"
  have perm: "mset (sched_tasks s (map Diff_Task ms)) = mset (map Diff_Task ms)"
    using assms(2) by (simp add: reordering_def reorders_def)
  have rs_eq: "rs = map ?r (sched_tasks s (map Diff_Task ms))" by (rule answer_each_Inr(1) [OF reads rs])
  have ok: "answer (?run (Diff_Task m)) c = Inr (?r (Diff_Task m))" if "m \<in> set ms" for m
  proof (rule answer_each_Inr(2) [OF reads rs])
    show "Diff_Task m \<in> set (sched_tasks s (map Diff_Task ms))"
      using that assms(2) by (simp add: reordering_def reorders_set)
  qed
  define f where "f m = (case ?r (Diff_Task m) of Diff_Result d \<Rightarrow> d | Prune_Result _ \<Rightarrow> undefined)" for m
  have f: "?r (Diff_Task m) = Diff_Result (f m) \<and> about_manifest (env_externals w) self m (f m)" if "m \<in> set ms" for m
    using about_task [OF dry ok [OF that]] by (auto simp: f_def)
  have "mset rs = mset (map (\<lambda>m. Diff_Result (f m)) ms)"
  proof -
    have "mset rs = mset (map ?r (map Diff_Task ms))" unfolding rs_eq mset_map perm ..
    also have "map ?r (map Diff_Task ms) = map (\<lambda>m. Diff_Result (f m)) ms" using f by simp
    finally show ?thesis .
  qed
  from results_reordered [OF this]
  have "mset (diffs_of rs) = mset (map f ms)" "candidates_of rs = []" by (simp_all add: results_of_diffs)
  then have "mset ds = mset (map f ms)" by (simp add: ds collect_all_def fold_collect_result)
  with f show ?thesis by blast
qed

end
