(* ===== verification/Cluster_Apply.thy ===== *)
theory Cluster_Apply
  imports Cluster_Diff
begin

text \<open>
  The apply engine (\<open>cmds/rtk/src/k8s/apply.rs\<close>) and the commands \<open>apply\<close>, \<open>prune\<close> and \<open>delete\<close>
  from the evaluated manifests on (\<open>cmds/rtk/src/commands\<close>). What is printed is left out; the
  question to the user is a parameter that says whether there is a terminal and what was answered.
\<close>

section \<open>The apply engine\<close>

datatype apply_error =
    Discovery_Timeout string string
  | Apply_Missing_Api_Version_Or_Kind
  | Apply_Missing_Name
  | Apply_Unknown_Resource_Type string string
  | Building_Api_Cache "kube_error discovery_error"
  | Apply_Failed string string kube_error
  | Delete_Failed string string kube_error
  | Apply_Manifest_Conversion

fun is_missing_discovery :: "apply_error \<Rightarrow> bool" where
  "is_missing_discovery (Apply_Unknown_Resource_Type _ _) = True"
| "is_missing_discovery (Building_Api_Cache (ResourceDiscovery _ (Kube_Api code _))) = (code = 404)"
| "is_missing_discovery _ = False"

text \<open>\<open>ae_discovery\<close> is what the cluster answers to discovery in a state.\<close>

record 'c apply_engine =
  ae_client :: "'c kube_client"
  ae_discovery :: "'c \<Rightarrow> kube_error discovery_answers"
  ae_api_cache :: "api_resource_cache option"
  ae_default_namespace :: string
  ae_server_side :: bool
  ae_force :: bool

definition apply_engine_new ::
  "'c kube_client \<Rightarrow> ('c \<Rightarrow> kube_error discovery_answers) \<Rightarrow> string \<Rightarrow> bool \<Rightarrow> bool \<Rightarrow> 'c apply_engine" where
  "apply_engine_new client discovery default_namespace server_side force =
     \<lparr>ae_client = client, ae_discovery = discovery, ae_api_cache = None,
      ae_default_namespace = default_namespace, ae_server_side = server_side, ae_force = force\<rparr>"

definition apply_api_cache :: "'c apply_engine \<Rightarrow> gvk \<Rightarrow> ('c, apply_error, api_resource_cache) io" where
  "apply_api_cache self g =
     (case ae_api_cache self of
        Some cache \<Rightarrow> io_ok cache
      | None \<Rightarrow>
          (\<lambda>c. ((case cache_build (ae_discovery self c) [g] False of
                   Inl e \<Rightarrow> Inl (Building_Api_Cache e) | Inr cache \<Rightarrow> Inr cache), c)))"

definition get_namespace :: "'c apply_engine \<Rightarrow> json \<Rightarrow> discovered_resource \<Rightarrow> string option" where
  "get_namespace self manifest discovered =
     (case dr_scope discovered of
        Namespaced \<Rightarrow>
          Some (case metadata_str ''namespace'' manifest of Some ns \<Rightarrow> ns | None \<Rightarrow> ae_default_namespace self)
      | ClusterWide \<Rightarrow> None)"

definition create_object ::
  "externals \<Rightarrow> 'c apply_engine \<Rightarrow> api_handle \<Rightarrow> string \<Rightarrow> string \<Rightarrow> json \<Rightarrow> ('c, apply_error, unit) io" where
  "create_object x self api kind name manifest =
     (case x_from_value x manifest of
        None \<Rightarrow> io_err Apply_Manifest_Conversion
      | Some obj \<Rightarrow>
          io_then (io_map_err (Apply_Failed kind name) (api_create (ae_client self) api False obj)) (\<lambda>_. io_ok ()))"

definition client_side_apply ::
  "externals \<Rightarrow> 'c apply_engine \<Rightarrow> api_handle \<Rightarrow> string \<Rightarrow> string \<Rightarrow> json \<Rightarrow> ('c, apply_error, unit) io" where
  "client_side_apply x self api kind name manifest =
     (let params = \<lparr>pp_dry_run = False, pp_force = ae_force self, pp_field_manager = None\<rparr>;
          failed = (\<lambda>e. io_err (Apply_Failed kind name e))
      in io_match (api_patch (ae_client self) api name params (Strategic_Patch manifest)) (\<lambda>r.
           case r of
             Inr _ \<Rightarrow> io_ok ()
           | Inl (Kube_Api code message) \<Rightarrow>
               (if code = 415 then
                  io_match (api_patch (ae_client self) api name params (Merge_Patch manifest)) (\<lambda>r.
                    case r of
                      Inr _ \<Rightarrow> io_ok ()
                    | Inl (Kube_Api code message) \<Rightarrow>
                        (if code = 404 then create_object x self api kind name manifest
                         else failed (Kube_Api code message))
                    | Inl e \<Rightarrow> failed e)
                else if code = 404 then create_object x self api kind name manifest
                else failed (Kube_Api code message))
           | Inl e \<Rightarrow> failed e))"

definition apply_manifest :: "externals \<Rightarrow> 'c apply_engine \<Rightarrow> json \<Rightarrow> ('c, apply_error, unit) io" where
  "apply_manifest x self manifest =
     (case gvk_from_manifest manifest of
        None \<Rightarrow> io_err Apply_Missing_Api_Version_Or_Kind
      | Some g \<Rightarrow>
          (case metadata_str ''name'' manifest of
             None \<Rightarrow> io_err Apply_Missing_Name
           | Some name \<Rightarrow>
               io_then (apply_api_cache self g) (\<lambda>api_cache.
                 case cache_lookup api_cache g of
                   None \<Rightarrow> io_err (Apply_Unknown_Resource_Type (x_api_version x g) (gvk_kind g))
                 | Some discovered \<Rightarrow>
                     (let api = dynamic_api (dr_api_resource discovered) (get_namespace self manifest discovered);
                          manifest = ensure_annotations manifest
                      in if ae_server_side self then
                           io_then (io_map_err (Apply_Failed (gvk_kind g) name)
                               (api_patch (ae_client self) api name
                                  \<lparr>pp_dry_run = False, pp_force = ae_force self, pp_field_manager = Some ''tanka''\<rparr>
                                  (Apply_Patch manifest))) (\<lambda>_. io_ok ())
                         else client_side_apply x self api (gvk_kind g) name manifest))))"

subsection \<open>Waiting for a custom resource's API\<close>

text \<open>
  Time is in milliseconds. \<open>spent i\<close> is how long the \<open>i\<close>-th attempt takes, oversleeping
  included, and \<open>meanwhile\<close> what happens to the cluster during a sleep.
\<close>

function wait_loop ::
  "(nat \<Rightarrow> nat) \<Rightarrow> ('c \<Rightarrow> 'c) \<Rightarrow> ('c, apply_error, unit) io \<Rightarrow> apply_error \<Rightarrow> nat \<Rightarrow> nat \<Rightarrow> nat \<Rightarrow>
   ('c, apply_error, unit) io" where
  "wait_loop spent meanwhile attempt timeout deadline i now c =
     (case attempt c of
        (Inl e, c') \<Rightarrow>
          (if is_missing_discovery e then
             (if now + spent i \<ge> deadline then (Inl timeout, c')
              else wait_loop spent meanwhile attempt timeout deadline (Suc i) (now + spent i + 200) (meanwhile c'))
           else (Inl e, c'))
      | (Inr u, c') \<Rightarrow> (Inr u, c'))"
  by pat_completeness auto
termination
  by (relation "measure (\<lambda>(_, _, _, _, deadline, _, now, _). deadline - now)") auto

declare wait_loop.simps [simp del]

definition apply_when_discovered ::
  "externals \<Rightarrow> (nat \<Rightarrow> nat) \<Rightarrow> ('c \<Rightarrow> 'c) \<Rightarrow> 'c apply_engine \<Rightarrow> json \<Rightarrow> ('c, apply_error, unit) io" where
  "apply_when_discovered x spent meanwhile self manifest =
     wait_loop spent meanwhile (apply_manifest x self manifest)
       (Discovery_Timeout (or_empty (Option.bind (value_get manifest ''kind'') as_str))
          (or_empty (metadata_str ''name'' manifest)))
       30000 0 0"

subsection \<open>Deleting\<close>

text \<open>The result is the error of a resource that was not found, if it was not.\<close>

definition delete_resource_with_options ::
  "externals \<Rightarrow> 'c apply_engine \<Rightarrow> gvk \<Rightarrow> string \<Rightarrow> string option \<Rightarrow> string option \<Rightarrow> bool \<Rightarrow>
   ('c, apply_error, kube_error option) io" where
  "delete_resource_with_options x self g name namespace dry_run force =
     io_then (apply_api_cache self g) (\<lambda>api_cache.
       case cache_lookup api_cache g of
         None \<Rightarrow> io_err (Apply_Unknown_Resource_Type (x_api_version x g) (gvk_kind g))
       | Some discovered \<Rightarrow>
           (let ns = (case dr_scope discovered of
                  Namespaced \<Rightarrow> Some (case namespace of Some n \<Rightarrow> n | None \<Rightarrow> ae_default_namespace self)
                | ClusterWide \<Rightarrow> None);
                api = dynamic_api (dr_api_resource discovered) ns
            in if dry_run = Some ''client'' then io_ok None
               else
                 io_match (api_delete (ae_client self) api name
                     \<lparr>dp_dry_run = (dry_run = Some ''server''), dp_grace_period = (if force then Some 0 else None)\<rparr>) (\<lambda>r.
                   case r of
                     Inr _ \<Rightarrow> io_ok None
                   | Inl (Kube_Api code message) \<Rightarrow>
                       (if code = 404 then io_ok (Some (Kube_Api code message))
                        else io_err (Delete_Failed (gvk_kind g) name (Kube_Api code message)))
                   | Inl e \<Rightarrow> io_err (Delete_Failed (gvk_kind g) name e))))"

definition delete_resource ::
  "externals \<Rightarrow> 'c apply_engine \<Rightarrow> gvk \<Rightarrow> string \<Rightarrow> string option \<Rightarrow> ('c, apply_error, unit) io" where
  "delete_resource x self g name namespace =
     io_then (delete_resource_with_options x self g name namespace None False) (\<lambda>_. io_ok ())"

section \<open>Settings of the commands\<close>

datatype apply_strategy = Client_Side | Server_Side

fun apply_strategy_display :: "apply_strategy \<Rightarrow> string" where
  "apply_strategy_display Client_Side = ''client''"
| "apply_strategy_display Server_Side = ''server''"

datatype auto_approve = Never | Always | If_No_Changes

datatype command_error =
    Diff_Strategy_Unknown unknown_diff_strategy
  | Apply_Strategy_Unknown string
  | Dry_Run_Invalid
  | Inject_Labels_Off
  | Creating_Diff_Engine "kube_error discovery_error"
  | Computing_Diffs cluster_error
  | No_Terminal
  | Applying string string apply_error
  | Deleting string string apply_error
  | Aborted_By_User
  | Manifest_Incomplete string
  | Delete_Error apply_error

definition apply_strategy_named :: "string \<Rightarrow> command_error + apply_strategy" where
  "apply_strategy_named strategy =
     (if strategy = ''client'' then Inr Client_Side
      else if strategy = ''server'' then Inr Server_Side
      else Inl (Apply_Strategy_Unknown strategy))"

record environment_spec =
  es_namespace :: string
  es_diff_strategy :: "string option"
  es_apply_strategy :: "string option"
  es_inject_labels :: bool

definition apply_strategy_resolve ::
  "apply_strategy option \<Rightarrow> environment_spec option \<Rightarrow> command_error + apply_strategy" where
  "apply_strategy_resolve flag spec =
     (case flag of
        Some strategy \<Rightarrow> Inr strategy
      | None \<Rightarrow>
          (case Option.bind spec es_apply_strategy of
             Some requested \<Rightarrow> apply_strategy_named requested
           | None \<Rightarrow> Inr Client_Side))"

datatype apply_diff_strategy = ADS_Native | ADS_Server | ADS_Validate | ADS_Subset | ADS_None

definition apply_diff_strategy_named :: "string \<Rightarrow> unknown_diff_strategy + apply_diff_strategy" where
  "apply_diff_strategy_named strategy =
     (if strategy = ''none'' then Inr ADS_None
      else and_then (diff_strategy_named strategy) (\<lambda>s. Inr (case s of
             Native \<Rightarrow> ADS_Native | Server \<Rightarrow> ADS_Server | Validate \<Rightarrow> ADS_Validate | Subset \<Rightarrow> ADS_Subset)))"

fun apply_diff_strategy_strategy :: "apply_diff_strategy \<Rightarrow> diff_strategy option" where
  "apply_diff_strategy_strategy ADS_Native = Some Native"
| "apply_diff_strategy_strategy ADS_Server = Some Server"
| "apply_diff_strategy_strategy ADS_Validate = Some Validate"
| "apply_diff_strategy_strategy ADS_Subset = Some Subset"
| "apply_diff_strategy_strategy ADS_None = None"

definition validate_dry_run :: "string option \<Rightarrow> command_error + unit" where
  "validate_dry_run dry_run =
     (case dry_run of
        None \<Rightarrow> Inr ()
      | Some v \<Rightarrow> if v \<in> {[], ''none'', ''client'', ''server''} then Inr () else Inl Dry_Run_Invalid)"

definition is_dry_run_set :: "string option \<Rightarrow> bool" where
  "is_dry_run_set dry_run = (case dry_run of None \<Rightarrow> False | Some d \<Rightarrow> d \<noteq> ''none'' \<and> d \<noteq> [])"

text \<open>What a connection knows of its cluster, and the answers of whoever sits at the terminal.\<close>

record 'c connection =
  cn_client :: "'c kube_client"
  cn_discovery :: "'c \<Rightarrow> kube_error discovery_answers"
  cn_openapi :: "gvk \<Rightarrow> openapi_data"
  cn_server_major :: string
  cn_server_minor :: string
  cn_default_namespace :: string

datatype user = No_Tty | Answers string

definition trim_lower :: "(string \<Rightarrow> string) \<Rightarrow> (string \<Rightarrow> string) \<Rightarrow> string \<Rightarrow> string" where
  "trim_lower trim lower s = lower (trim s)"

definition prompt_confirmation :: "(string \<Rightarrow> string) \<Rightarrow> (string \<Rightarrow> string) \<Rightarrow> string \<Rightarrow> bool" where
  "prompt_confirmation trim lower input =
     (let input = trim_lower trim lower input in input = ''y'' \<or> input = ''yes'')"

record command_world =
  cw_surroundings :: surroundings
  cw_schedule :: schedule
  cw_parse_u32 :: "string \<Rightarrow> nat option"
  cw_hash_order :: "gvk list \<Rightarrow> gvk list"
  cw_trim :: "string \<Rightarrow> string"
  cw_user :: user

text \<open>\<open>DiffEngine::new\<close> after \<open>setup_diff_engine\<close>'s choice of strategy and namespace.\<close>

definition diff_engine_new ::
  "command_world \<Rightarrow> 'c connection \<Rightarrow> diff_strategy \<Rightarrow> string \<Rightarrow> json list \<Rightarrow> bool \<Rightarrow>
   ('c, command_error, 'c diff_engine) io" where
  "diff_engine_new w conn strategy default_namespace manifests with_prune =
     (\<lambda>c. (case cache_build (cn_discovery conn c) (cw_hash_order w (filter_map gvk_from_manifest manifests)) with_prune of
             Inl e \<Rightarrow> Inl (Creating_Diff_Engine e)
           | Inr cache \<Rightarrow>
               Inr \<lparr>de_live_resources = None, de_client = cn_client conn,
                    de_api_cache = with_crds (x_parse_crd (env_externals (cw_surroundings w))) cache manifests,
                    de_openapi = cn_openapi conn, de_strategy = strategy,
                    de_default_namespace = default_namespace\<rparr>, c))"

definition setup_diff_engine ::
  "command_world \<Rightarrow> 'c connection \<Rightarrow> environment_spec option \<Rightarrow> json list \<Rightarrow> bool \<Rightarrow> diff_strategy option \<Rightarrow>
   string option \<Rightarrow> ('c, command_error, 'c diff_engine) io" where
  "setup_diff_engine w conn spec manifests with_prune override apply_strategy =
     io_then (io_lift (case override of
           Some strategy \<Rightarrow> Inr strategy
         | None \<Rightarrow>
             (case spec of
                None \<Rightarrow> Inr Native
              | Some spec \<Rightarrow>
                  (case diff_strategy_from_spec (cw_parse_u32 w) (es_diff_strategy spec) (cn_server_major conn)
                          (cn_server_minor conn) apply_strategy of
                     Inl e \<Rightarrow> Inl (Diff_Strategy_Unknown e) | Inr s \<Rightarrow> Inr s)))) (\<lambda>strategy.
       let default_namespace = (case spec of Some spec \<Rightarrow> es_namespace spec | None \<Rightarrow> cn_default_namespace conn)
       in diff_engine_new w conn strategy default_namespace manifests with_prune)"

section \<open>Applying an environment\<close>

record apply_opts =
  ao_diff_strategy :: "diff_strategy option"
  ao_apply_strategy :: "apply_strategy option"
  ao_auto_approve :: auto_approve
  ao_dry_run :: "string option"
  ao_force :: bool

definition should_proceed :: "command_world \<Rightarrow> auto_approve \<Rightarrow> bool \<Rightarrow> command_error + bool" where
  "should_proceed w approve changes =
     (case approve of
        Always \<Rightarrow> Inr True
      | If_No_Changes \<Rightarrow> Inr (\<not> changes)
      | Never \<Rightarrow>
          (case cw_user w of
             No_Tty \<Rightarrow> Inl No_Terminal
           | Answers input \<Rightarrow> Inr (prompt_confirmation (cw_trim w) (env_lower (cw_surroundings w)) input)))"

definition apply_key :: "resource_diff \<Rightarrow> nat \<times> string \<times> string option \<times> string" where
  "apply_key d = (kind_position (gvk_kind (rd_gvk d)), gvk_kind (rd_gvk d), rd_namespace d, rd_name d)"

definition changes_to_apply :: "resource_diff list \<Rightarrow> resource_diff list" where
  "changes_to_apply diffs = sort_key apply_key (filter (\<lambda>d. has_changes d \<and> rd_status d \<noteq> Deleted) diffs)"

definition find_manifest :: "json list \<Rightarrow> resource_diff \<Rightarrow> json option" where
  "find_manifest manifests d =
     List.find (\<lambda>m. or_empty (metadata_str ''name'' m) = rd_name d \<and>
                    or_empty (Option.bind (value_get m ''kind'') as_str) = gvk_kind (rd_gvk d)) manifests"

definition apply_change ::
  "externals \<Rightarrow> (nat \<Rightarrow> nat) \<Rightarrow> ('c \<Rightarrow> 'c) \<Rightarrow> 'c apply_engine \<Rightarrow> api_resource_cache \<Rightarrow> json list \<Rightarrow> resource_diff \<Rightarrow>
   ('c, command_error, unit) io" where
  "apply_change x spent meanwhile self declared_resources manifests d =
     (case find_manifest manifests d of
        None \<Rightarrow> io_ok ()
      | Some manifest \<Rightarrow>
          io_map_err (Applying (gvk_kind (rd_gvk d)) (rd_name d))
            (if cache_lookup declared_resources (rd_gvk d) \<noteq> None
             then apply_when_discovered x spent meanwhile self manifest
             else apply_manifest x self manifest))"

definition apply_changes ::
  "externals \<Rightarrow> (nat \<Rightarrow> nat) \<Rightarrow> ('c \<Rightarrow> 'c) \<Rightarrow> 'c apply_engine \<Rightarrow> json list \<Rightarrow> resource_diff list \<Rightarrow>
   ('c, command_error, unit) io" where
  "apply_changes x spent meanwhile self manifests diffs =
     io_then (io_each (apply_change x spent meanwhile self (from_crds (x_parse_crd x) manifests) manifests)
                (changes_to_apply diffs)) (\<lambda>_. io_ok ())"

definition apply_environment ::
  "command_world \<Rightarrow> (nat \<Rightarrow> nat) \<Rightarrow> ('c \<Rightarrow> 'c) \<Rightarrow> 'c connection \<Rightarrow> environment_spec option \<Rightarrow> json list \<Rightarrow>
   apply_opts \<Rightarrow> ('c, command_error, resource_diff list) io" where
  "apply_environment w spent meanwhile conn spec manifests opts =
     io_then (io_lift (apply_strategy_resolve (ao_apply_strategy opts) spec)) (\<lambda>apply_strategy.
       if manifests = [] then io_ok []
       else
         io_then (setup_diff_engine w conn spec manifests False (ao_diff_strategy opts)
             (Some (apply_strategy_display apply_strategy))) (\<lambda>diff_engine.
         io_then (io_map_err Computing_Diffs
             (diff_all (cw_surroundings w) (cw_schedule w) diff_engine manifests False None False)) (\<lambda>diffs.
           let changes = list_ex has_changes diffs in
           if \<not> changes then io_ok diffs
           else if is_dry_run_set (ao_dry_run opts) then io_ok diffs
           else io_then (io_lift (should_proceed w (ao_auto_approve opts) changes)) (\<lambda>should_apply.
             if \<not> should_apply then io_ok diffs
             else
               let engine = apply_engine_new (cn_client conn) (cn_discovery conn) (de_default_namespace diff_engine)
                              (apply_strategy = Server_Side) (ao_force opts)
               in io_then (apply_changes (env_externals (cw_surroundings w)) spent meanwhile engine manifests diffs)
                    (\<lambda>_. io_ok diffs)))))"

section \<open>Pruning an environment\<close>

record prune_opts =
  pn_diff_strategy :: "diff_strategy option"
  pn_auto_approve :: auto_approve
  pn_dry_run :: "string option"
  pn_force :: bool
  pn_namespace :: "string option"

definition prune_delete :: "externals \<Rightarrow> 'c apply_engine \<Rightarrow> resource_diff \<Rightarrow> ('c, command_error, resource_diff) io" where
  "prune_delete x self d =
     io_then (io_map_err (Deleting (gvk_kind (rd_gvk d)) (rd_name d))
         (delete_resource x self (rd_gvk d) (rd_name d) (rd_namespace d))) (\<lambda>_. io_ok d)"

definition prune_environment ::
  "command_world \<Rightarrow> 'c connection \<Rightarrow> environment_spec option \<Rightarrow> string option \<Rightarrow> targets \<Rightarrow> json list \<Rightarrow>
   prune_opts \<Rightarrow> ('c, command_error, resource_diff list) io" where
  "prune_environment w conn spec env_label ts manifests opts =
     (if \<not> (case spec of Some spec \<Rightarrow> es_inject_labels spec | None \<Rightarrow> False) then io_err Inject_Labels_Off
      else
        io_then (setup_diff_engine w conn spec manifests True (pn_diff_strategy opts) None) (\<lambda>diff_engine.
        io_then (io_map_err Computing_Diffs
            (diff_all_with_prune_options (cw_surroundings w) (cw_schedule w) diff_engine manifests True env_label True
               \<lparr>po_namespace = pn_namespace opts, po_targets = Some ts\<rparr>)) (\<lambda>diffs.
          let to_delete = filter (\<lambda>d. rd_status d = Deleted) diffs in
          if to_delete = [] then io_ok []
          else if is_dry_run_set (pn_dry_run opts) then io_ok to_delete
          else io_then (io_lift (should_proceed w (pn_auto_approve opts) (to_delete \<noteq> []))) (\<lambda>should_prune.
            if \<not> should_prune then io_ok []
            else io_each (prune_delete (env_externals (cw_surroundings w))
                   (apply_engine_new (cn_client conn) (cn_discovery conn) (de_default_namespace diff_engine) False (pn_force opts)))
                   to_delete))))"

section \<open>Deleting an environment\<close>

record delete_args =
  da_auto_approve :: "auto_approve option"
  da_dry_run :: "string option"
  da_force :: bool

definition delete_one ::
  "externals \<Rightarrow> 'c apply_engine \<Rightarrow> string option \<Rightarrow> bool \<Rightarrow> json \<Rightarrow> ('c, command_error, unit) io" where
  "delete_one x self dry_run force manifest =
     (case gvk_from_manifest manifest of
        None \<Rightarrow> io_err (Manifest_Incomplete ''apiVersion or kind'')
      | Some g \<Rightarrow>
          (case metadata_str ''name'' manifest of
             None \<Rightarrow> io_err (Manifest_Incomplete ''metadata.name'')
           | Some name \<Rightarrow>
               io_then (io_map_err Delete_Error
                   (delete_resource_with_options x self g name (metadata_str ''namespace'' manifest) dry_run force))
                 (\<lambda>_. io_ok ())))"

text \<open>\<open>deletion_diff\<close>: what is shown before the question; the manifest is written as it is.\<close>

definition deletion_diff :: "externals \<Rightarrow> json \<Rightarrow> command_error + resource_diff" where
  "deletion_diff x manifest =
     (case gvk_from_manifest manifest of
        None \<Rightarrow> Inl (Manifest_Incomplete ''apiVersion or kind'')
      | Some g \<Rightarrow>
          (case metadata_str ''name'' manifest of
             None \<Rightarrow> Inl (Manifest_Incomplete ''metadata.name'')
           | Some name \<Rightarrow>
               (case x_to_yaml x manifest of
                  None \<Rightarrow> Inl (Manifest_Incomplete ''yaml'')
                | Some yaml \<Rightarrow>
                    Inr \<lparr>rd_gvk = g, rd_namespace = metadata_str ''namespace'' manifest, rd_name = name,
                         rd_status = Deleted, rd_current_yaml = yaml, rd_desired_yaml = []\<rparr>)))"

definition confirm_delete :: "command_world \<Rightarrow> command_error + unit" where
  "confirm_delete w =
     (let answer = (case cw_user w of No_Tty \<Rightarrow> [] | Answers input \<Rightarrow> input)
      in if cw_trim w answer \<noteq> ''yes'' then Inl Aborted_By_User else Inr ())"

definition sort_manifests :: "json list \<Rightarrow> json list" where
  "sort_manifests manifests = sort_key manifest_sort_key manifests"

definition delete_environment ::
  "command_world \<Rightarrow> 'c connection \<Rightarrow> environment_spec option \<Rightarrow> json list \<Rightarrow> delete_args \<Rightarrow>
   ('c, command_error, unit) io" where
  "delete_environment w conn spec manifests0 args =
     (let dry_run = (case da_dry_run args of Some v \<Rightarrow> (if v = [] then None else Some v) | None \<Rightarrow> None);
          manifests = sort_manifests manifests0;
          default_namespace = (case spec of Some spec \<Rightarrow> es_namespace spec | None \<Rightarrow> cn_default_namespace conn)
      in io_then (if dry_run = None
                  then io_then (io_lift (for_each (\<lambda>m u. and_then (deletion_diff (env_externals (cw_surroundings w)) m) (\<lambda>_. Inr u))
                                           manifests ())) (\<lambda>_.
                         if (case da_auto_approve args of Some a \<Rightarrow> a | None \<Rightarrow> Never) \<noteq> Always
                         then io_lift (confirm_delete w) else io_ok ())
                  else io_ok ()) (\<lambda>_.
         io_then (io_each (delete_one (env_externals (cw_surroundings w))
             (apply_engine_new (cn_client conn) (cn_discovery conn) default_namespace False (da_force args)) dry_run (da_force args))
             (rev manifests)) (\<lambda>_. io_ok ())))"

definition delete_run ::
  "command_world \<Rightarrow> 'c connection \<Rightarrow> environment_spec option \<Rightarrow> json list \<Rightarrow> delete_args \<Rightarrow>
   ('c, command_error, unit) io" where
  "delete_run w conn spec manifests args =
     io_then (io_lift (validate_dry_run (da_dry_run args))) (\<lambda>_. delete_environment w conn spec manifests args)"

end
