(* ===== verification/Mock_Cluster.thy ===== *)
theory Mock_Cluster
  imports Kube_Api Manifest_Processing Patch_Merge
begin

text \<open>
  The mock API server of the integration tests (\<open>crates/k8s-mock/src\<close>): the handlers of
  \<open>http.rs\<close> for resources and the helpers they use. The store is the shared map of resources; a
  handler gives the status and body of its answer and the next store, or \<open>None\<close> where it would
  panic. Logging of exchanges is left out. \<open>subtype\<close> stands for the header parser: the MIME subtype
  of a content type.
\<close>

section \<open>Helpers\<close>

definition merge_json_with_type :: "json \<Rightarrow> json \<Rightarrow> merge_type \<Rightarrow> json option" where
  "merge_json_with_type base patch mt =
     (let named = (\<lambda>f. case Option.bind (value_get patch f) as_str of
            Some s \<Rightarrow> s
          | None \<Rightarrow> or_empty (Option.bind (value_get base f) as_str));
          schema = builtin_schema (builtin_with_merge_type (named ''apiVersion'') (named ''kind'') mt)
      in case apply_strategic_patch schema base patch [] of
           Inr merged \<Rightarrow> Some merged
         | Inl (DiffFailed _) \<Rightarrow> Some patch
         | Inl Panic \<Rightarrow> None)"

fun strip_strategic_merge_directives :: "json \<Rightarrow> json" where
  "strip_strategic_merge_directives (JObj m) =
     JObj (map (\<lambda>(key, v). (key, strip_strategic_merge_directives v)) (filter (\<lambda>(key, _). \<not> starts_with ''$'' key) m))"
| "strip_strategic_merge_directives (JArr arr) = JArr (map strip_strategic_merge_directives arr)"
| "strip_strategic_merge_directives other = other"

definition strip_empty_field :: "string \<Rightarrow> json_map \<Rightarrow> json_map" where
  "strip_empty_field f metadata =
     (case map_of metadata f of
        Some (JObj m) \<Rightarrow> if m = [] then map_remove f metadata else metadata
      | _ \<Rightarrow> metadata)"

definition strip_empty_metadata_fields :: "json \<Rightarrow> json" where
  "strip_empty_metadata_fields v =
     (case v of
        JObj m \<Rightarrow>
          (let rest = map_remove ''metadata'' m
           in case map_of m ''metadata'' of
                Some (JObj metadata) \<Rightarrow>
                  JObj (map_insert ''metadata''
                    (JObj (strip_empty_field ''labels'' (strip_empty_field ''annotations'' metadata))) rest)
              | _ \<Rightarrow> JObj rest)
      | _ \<Rightarrow> v)"

section \<open>Paths\<close>

definition trim_end_slashes :: "string \<Rightarrow> string" where
  "trim_end_slashes s = rev (dropWhile (\<lambda>c. c = CHR ''/'') (rev s))"

definition nth_opt :: "'a list \<Rightarrow> nat \<Rightarrow> 'a option" where
  "nth_opt xs i = (if i < length xs then Some (xs ! i) else None)"

definition parse_resource_path :: "string \<Rightarrow> string \<times> string option" where
  "parse_resource_path path =
     (let segments = split_on (CHR ''/'') (trim_end_slashes path);
          whole = (trim_end_slashes path, None);
          split_at = (\<lambda>collection_len.
            if length segments < collection_len then whole
            else (''/'' @ join ''/'' (drop 1 (take collection_len segments)), nth_opt segments collection_len))
      in if length segments < 3 then whole
         else if nth_opt segments 1 = Some ''api'' then
           (if nth_opt segments 3 = Some ''namespaces'' \<and> length segments \<ge> 6 then split_at 6 else split_at 4)
         else if nth_opt segments 1 = Some ''apis'' then
           (if nth_opt segments 4 = Some ''namespaces'' \<and> length segments \<ge> 7 then split_at 7 else split_at 5)
         else whole)"

text \<open>\<open>s.find(pattern)\<close>.\<close>

fun find_str :: "string \<Rightarrow> string \<Rightarrow> nat option" where
  "find_str p [] = (if p = [] then Some 0 else None)"
| "find_str p (c # s) = (if starts_with p (c # s) then Some 0 else map_option Suc (find_str p s))"

definition contains_str :: "string \<Rightarrow> string \<Rightarrow> bool" where
  "contains_str p s = (find_str p s \<noteq> None)"

definition extract_cluster_wide_path :: "string \<Rightarrow> string option" where
  "extract_cluster_wide_path path =
     (case find_str ''/namespaces/'' path of
        None \<Rightarrow> None
      | Some ns_idx \<Rightarrow>
          (let after_ns = drop (ns_idx + length ''/namespaces/'') path
           in case find_char (CHR ''/'') after_ns of
                None \<Rightarrow> None
              | Some slash_idx \<Rightarrow> Some (take ns_idx path @ drop slash_idx after_ns)))"

definition supports_strategic_merge_patch :: "string \<Rightarrow> bool" where
  "supports_strategic_merge_patch path =
     (if starts_with ''/api/'' path then True
      else case strip_prefix ''/apis/'' path of
        None \<Rightarrow> False
      | Some rest \<Rightarrow>
          hd (split_on (CHR ''/'') rest) \<in>
            {''apps'', ''batch'', ''autoscaling'', ''policy'', ''rbac.authorization.k8s.io'',
             ''networking.k8s.io'', ''storage.k8s.io'', ''admissionregistration.k8s.io'',
             ''coordination.k8s.io'', ''discovery.k8s.io'', ''flowcontrol.apiserver.k8s.io'',
             ''node.k8s.io'', ''scheduling.k8s.io'', ''certificates.k8s.io'', ''authentication.k8s.io'',
             ''authorization.k8s.io'', ''events.k8s.io'', ''apiextensions.k8s.io'',
             ''apiregistration.k8s.io''})"

section \<open>Requests\<close>

record http_request =
  rq_path :: string
  rq_query :: string
  rq_content_type :: "string option"
  rq_body :: json

type_synonym shared_resources = "((string \<times> string) \<times> json) list"

type_synonym handler = "http_request \<Rightarrow> shared_resources \<Rightarrow> (nat \<times> json) option \<times> shared_resources"

definition is_dry_run :: "http_request \<Rightarrow> bool" where
  "is_dry_run req = contains_str ''dryRun'' (rq_query req)"

definition is_strategic_merge_patch :: "http_request \<Rightarrow> bool" where
  "is_strategic_merge_patch req =
     (case rq_content_type req of Some ct \<Rightarrow> contains_str ''strategic-merge-patch'' ct | None \<Rightarrow> False)"

definition is_server_side_apply_patch :: "http_request \<Rightarrow> bool" where
  "is_server_side_apply_patch req =
     (case rq_content_type req of Some ct \<Rightarrow> contains_str ''apply-patch'' ct | None \<Rightarrow> False)"

definition merge_type_from_content_type :: "(string \<Rightarrow> string option) \<Rightarrow> http_request \<Rightarrow> merge_type" where
  "merge_type_from_content_type subtype req =
     (case Option.bind (rq_content_type req) subtype of
        Some t \<Rightarrow> (if t = ''apply-patch'' then ServerSideApply else StrategicMergePatch)
      | None \<Rightarrow> StrategicMergePatch)"

definition status_body :: "string \<Rightarrow> string \<Rightarrow> nat \<Rightarrow> json" where
  "status_body message reason code =
     JObj [(''kind'', JStr ''Status''), (''apiVersion'', JStr ''v1''), (''metadata'', JObj []),
           (''status'', JStr ''Failure''), (''message'', JStr message), (''reason'', JStr reason),
           (''code'', JNum (PosInt (of_nat code)))]"

text \<open>\<open>as u16\<close> of the code in the configured failure.\<close>

definition write_failure_response :: "json \<Rightarrow> nat \<times> json" where
  "write_failure_response status =
     ((case value_get status ''code'' of
         Some (JNum (PosInt n)) \<Rightarrow> unat (ucast n :: 16 word)
       | _ \<Rightarrow> 500), status)"

definition unsupported_media_type :: json where
  "unsupported_media_type =
     status_body ''the body of the request was in an unknown format - accepted media types include: application/json-patch+json, application/merge-patch+json, application/apply-patch+yaml''
       ''UnsupportedMediaType'' 415"

definition not_found :: "string \<Rightarrow> string \<Rightarrow> json" where
  "not_found api_path name = status_body (api_path @ '' '' @ quoted name @ '' not found'') ''NotFound'' 404"

definition respond_patch :: "(string \<Rightarrow> string option) \<Rightarrow> json option \<Rightarrow> handler" where
  "respond_patch subtype fail_writes req store =
     (let dry = is_dry_run req in
      if \<not> dry \<and> fail_writes \<noteq> None then (Some (write_failure_response (the fail_writes)), store)
      else
        let (api_path, name_opt) = parse_resource_path (rq_path req);
            name = or_empty name_opt
        in if is_strategic_merge_patch req \<and> \<not> supports_strategic_merge_patch (rq_path req)
           then (Some (415, unsupported_media_type), store)
           else
             let merge_type = merge_type_from_content_type subtype req;
                 patch = rq_body req;
                 persist = (\<lambda>merged.
                   let result = strip_empty_metadata_fields (strip_strategic_merge_directives merged)
                   in (Some (200, result), if \<not> dry then AList.update (api_path, name) result store else store))
             in case map_of store (api_path, name) of
                  Some existing \<Rightarrow>
                    (case merge_json_with_type existing patch merge_type of
                       Some merged \<Rightarrow> persist merged
                     | None \<Rightarrow> (None, store))
                | None \<Rightarrow>
                    (if is_server_side_apply_patch req then persist patch
                     else (Some (404, not_found api_path name), store)))"

definition respond_post :: "json option \<Rightarrow> handler" where
  "respond_post fail_writes req store =
     (let dry = is_dry_run req in
      if \<not> dry \<and> fail_writes \<noteq> None then (Some (write_failure_response (the fail_writes)), store)
      else
        let body = strip_empty_metadata_fields (rq_body req);
            name = or_empty (metadata_str ''name'' body)
        in (Some (200, body), if \<not> dry \<and> name \<noteq> [] then AList.update (rq_path req, name) body store else store))"

definition with_deletion_timestamp :: "json \<Rightarrow> json" where
  "with_deletion_timestamp resource =
     (case resource of
        JObj obj \<Rightarrow>
          (case map_of obj ''metadata'' of
             Some (JObj metadata) \<Rightarrow>
               JObj (map_insert ''metadata''
                 (JObj (map_insert ''deletionTimestamp'' (JStr ''2024-01-01T00:00:00Z'') metadata)) obj)
           | _ \<Rightarrow> resource)
      | _ \<Rightarrow> resource)"

definition respond_delete :: "json option \<Rightarrow> handler" where
  "respond_delete fail_writes req store =
     (let dry = is_dry_run req in
      if \<not> dry \<and> fail_writes \<noteq> None then (Some (write_failure_response (the fail_writes)), store)
      else
        let (api_path, name_opt) = parse_resource_path (rq_path req);
            name = or_empty name_opt
        in if name = [] then (Some (400, status_body ''name is required'' ''BadRequest'' 400), store)
           else case map_of store (api_path, name) of
             Some resource \<Rightarrow> (Some (200, with_deletion_timestamp resource), AList.delete (api_path, name) store)
           | None \<Rightarrow> (Some (404, not_found api_path name), store))"

definition list_body :: "json list \<Rightarrow> json" where
  "list_body items =
     JObj [(''kind'', JStr ''List''), (''apiVersion'', JStr ''v1''),
           (''metadata'', JObj [(''resourceVersion'', JStr ''1'')]), (''items'', JArr items)]"

definition respond_get :: handler where
  "respond_get req store =
     (let path_str = rq_path req;
          (api_path, name) = parse_resource_path path_str;
          items = map snd (filter (\<lambda>((res_api_path, _), _). res_api_path = path_str) store);
          cluster_items = map snd (filter (\<lambda>((res_api_path, _), _).
            case extract_cluster_wide_path res_api_path of Some p \<Rightarrow> p = path_str | None \<Rightarrow> False) store)
      in case Option.bind name (\<lambda>name. map_of store (api_path, name)) of
           Some resource \<Rightarrow> (Some (200, resource), store)
         | None \<Rightarrow>
             (if items \<noteq> [] then (Some (200, list_body items), store)
              else if cluster_items \<noteq> [] then (Some (200, list_body cluster_items), store)
              else if name \<noteq> None then (Some (404, status_body ''not found'' ''NotFound'' 404), store)
              else (Some (200, list_body []), store)))"

section \<open>The mock server behind a client\<close>

text \<open>
  The requests the \<open>kube\<close> crate documents for the calls of a client: paths by group, version,
  namespace and plural, the content type of a patch, \<open>dryRun=All\<close>. \<open>conv\<close> reads an object from its
  JSON.
\<close>

definition resource_path :: "api_handle \<Rightarrow> string option \<Rightarrow> string" where
  "resource_path h name =
     (if ar_group (api_res h) = [] then ''/api/'' else ''/apis/'' @ ar_group (api_res h) @ ''/'') @ ar_version (api_res h) @
     (case api_ns h of Some ns \<Rightarrow> ''/namespaces/'' @ ns | None \<Rightarrow> []) @ ''/'' @ ar_plural (api_res h) @
     (case name of Some n \<Rightarrow> ''/'' @ n | None \<Rightarrow> [])"

definition dry_query :: "bool \<Rightarrow> string" where
  "dry_query dry = (if dry then ''dryRun=All'' else [])"

definition patch_request :: "api_handle \<Rightarrow> string \<Rightarrow> bool \<Rightarrow> patch_body \<Rightarrow> http_request" where
  "patch_request h n dry b =
     (let (ct, body) = (case b of
          Apply_Patch v \<Rightarrow> (''application/apply-patch+yaml'', v)
        | Strategic_Patch v \<Rightarrow> (''application/strategic-merge-patch+json'', v)
        | Merge_Patch v \<Rightarrow> (''application/merge-patch+json'', v))
      in \<lparr>rq_path = resource_path h (Some n), rq_query = dry_query dry, rq_content_type = Some ct, rq_body = body\<rparr>)"

definition plain_request :: "api_handle \<Rightarrow> string option \<Rightarrow> bool \<Rightarrow> json \<Rightarrow> http_request" where
  "plain_request h n dry b =
     \<lparr>rq_path = resource_path h n, rq_query = dry_query dry, rq_content_type = None, rq_body = b\<rparr>"

definition read_response :: "(json \<Rightarrow> 'a option) \<Rightarrow> (nat \<times> json) option \<Rightarrow> kube_error + 'a" where
  "read_response conv response =
     (case response of
        None \<Rightarrow> Inl (Kube_Other ''connection closed'')
      | Some (code, body) \<Rightarrow>
          (if code \<noteq> 200 then Inl (Kube_Api code (or_empty (Option.bind (value_get body ''message'') as_str)))
           else (case conv body of None \<Rightarrow> Inl (Kube_Other ''unexpected body'') | Some obj \<Rightarrow> Inr obj)))"

definition send :: "handler \<Rightarrow> (json \<Rightarrow> 'a option) \<Rightarrow> http_request \<Rightarrow> (shared_resources, kube_error, 'a) io" where
  "send handler conv req = (\<lambda>store. case handler req store of (response, store') \<Rightarrow> (read_response conv response, store'))"

definition read_items :: "(json \<Rightarrow> dynamic_object option) \<Rightarrow> json \<Rightarrow> dynamic_object list option" where
  "read_items conv body = Option.bind (Option.bind (value_get body ''items'') as_array) (\<lambda>items. those (map conv items))"

definition mock_client ::
  "(json \<Rightarrow> dynamic_object option) \<Rightarrow> (string \<Rightarrow> string option) \<Rightarrow> json option \<Rightarrow> shared_resources kube_client" where
  "mock_client conv subtype fail_writes =
     \<lparr>api_get_opt = (\<lambda>h n. io_match (send respond_get conv (plain_request h (Some n) False JNull)) (\<lambda>r.
          case r of
            Inr obj \<Rightarrow> io_ok (Some obj)
          | Inl (Kube_Api code message) \<Rightarrow> (if code = 404 then io_ok None else io_err (Kube_Api code message))
          | Inl e \<Rightarrow> io_err e)),
      api_list = (\<lambda>h l. send respond_get (read_items conv) (plain_request h None False JNull)),
      api_patch = (\<lambda>h n p b. send (respond_patch subtype fail_writes) conv (patch_request h n (pp_dry_run p) b)),
      api_create = (\<lambda>h dry obj. send (respond_post fail_writes) conv (plain_request h None dry (obj_value obj))),
      api_delete = (\<lambda>h n p. send (respond_delete fail_writes) (\<lambda>_. Some ()) (plain_request h (Some n) (dp_dry_run p) JNull))\<rparr>"

lemma dry_query_contains: "contains_str ''dryRun'' (dry_query dry) = dry"
  by (cases dry) (simp_all add: contains_str_def dry_query_def)

lemma send_unchanging: "(\<And>store. snd (handler req store) = store) \<Longrightarrow> unchanging (send handler conv req)"
  by (simp add: unchanging_def send_def split: prod.split) (metis snd_conv)

lemma get_keeps: "snd (respond_get req store) = store"
  by (simp add: respond_get_def Let_def split: prod.split option.split)

lemma patch_keeps: "is_dry_run req \<Longrightarrow> snd (respond_patch subtype fail_writes req store) = store"
  by (simp add: respond_patch_def Let_def split: prod.split option.split)

lemma post_keeps: "is_dry_run req \<Longrightarrow> snd (respond_post fail_writes req store) = store"
  by (simp add: respond_post_def Let_def)

lemma patch_request_dry [simp]: "is_dry_run (patch_request h n dry b) = dry"
  by (simp add: patch_request_def is_dry_run_def dry_query_contains split: patch_body.split)

lemma plain_request_dry [simp]: "is_dry_run (plain_request h n dry b) = dry"
  by (simp add: plain_request_def is_dry_run_def dry_query_contains)

interpretation mock: dry_runs "mock_client conv subtype fail_writes" for conv subtype fail_writes
proof unfold_locales
  show "unchanging (api_get_opt (mock_client conv subtype fail_writes) h n)" for h n
    by (auto simp: mock_client_def intro!: unchanging_intros send_unchanging get_keeps split: sum.split kube_error.split)
  show "unchanging (api_list (mock_client conv subtype fail_writes) h l)" for h l
    by (simp add: mock_client_def send_unchanging get_keeps)
  show "unchanging (api_patch (mock_client conv subtype fail_writes) h n p b)" if "pp_dry_run p" for h n p b
    using that by (simp add: mock_client_def send_unchanging patch_keeps)
  show "unchanging (api_create (mock_client conv subtype fail_writes) h True obj)" for h obj
    by (simp add: mock_client_def send_unchanging post_keeps)
qed

end
