(* ===== verification/Cluster_Properties.thy ===== *)
theory Cluster_Properties
  imports Cluster_Diff_Facts Cluster_Apply Mock_Cluster Patch_Properties
begin

text \<open>
  The properties of the cluster commands: a diff only reads and does not depend on how its tasks
  interleave, what is pruned, what is applied and in which order, what is asked before anything
  is written, and that a diff of an achieved manifest shows nothing.
\<close>

section \<open>Examples\<close>

text \<open>A mock cluster with a config map, and an engine that talks to it.\<close>

definition read_object :: "json \<Rightarrow> dynamic_object option" where
  "read_object v = Some
     \<lparr>obj_name = metadata_str ''name'' v, obj_namespace = metadata_str ''namespace'' v,
      obj_uid = metadata_str ''uid'' v,
      obj_annotations = map_option (\<lambda>m k. Option.bind (map_of m k) as_str)
        (Option.bind (value_path v [''metadata'', ''annotations'']) as_object),
      obj_owner_controllers = None,
      obj_managers = map_option (map (\<lambda>f. Option.bind (value_get f ''manager'') as_str))
        (Option.bind (value_path v [''metadata'', ''managedFields'']) as_array),
      obj_value = v\<rparr>"

definition kube_api_version :: "gvk \<Rightarrow> string" where
  "kube_api_version g = (if gvk_group g = [] then gvk_version g else gvk_group g @ ''/'' @ gvk_version g)"

fun brief_yaml :: "json \<Rightarrow> string" where
  "brief_yaml (JStr s) = ''s'' @ s"
| "brief_yaml (JObj m) = ''{'' @ concat (map (\<lambda>(k, v). k @ '':'' @ brief_yaml v @ '','') m) @ ''}''"
| "brief_yaml (JArr xs) = ''['' @ concat (map (\<lambda>v. brief_yaml v @ '','') xs) @ '']''"
| "brief_yaml (JNum n) = number_to_string n"
| "brief_yaml (JBool b) = bool_to_string b"
| "brief_yaml JNull = ''null''"

definition example_externals :: externals where
  "example_externals =
     \<lparr>x_api_version = kube_api_version, x_from_value = read_object, x_from_str = (\<lambda>_. None),
      x_to_yaml = (\<lambda>v. Some (brief_yaml v)), x_parse_crd = (\<lambda>_. None), x_error_text = (\<lambda>_. [])\<rparr>"

definition example_world :: surroundings where
  "example_world =
     \<lparr>env_externals = example_externals, env_format = no_format, env_is_match = (\<lambda>_ _. True), env_lower = (\<lambda>s. s)\<rparr>"

definition in_turn :: schedule where
  "in_turn = \<lparr>sched_validate = id, sched_fetch = id, sched_tasks = id\<rparr>"

definition reversed :: schedule where
  "reversed = \<lparr>sched_validate = rev, sched_fetch = rev, sched_tasks = rev\<rparr>"

lemma reordering_examples: "reordering in_turn" "reordering reversed"
  by (simp_all add: reordering_def reorders_def in_turn_def reversed_def)

definition config_maps :: "gvk \<times> discovered_resource" where
  "config_maps =
     (gvk_of [] ''v1'' ''ConfigMap'',
      \<lparr>dr_api_resource = \<lparr>ar_group = [], ar_version = ''v1'', ar_kind = ''ConfigMap'', ar_plural = ''configmaps''\<rparr>,
       dr_scope = Namespaced,
       dr_capabilities = \<lparr>cap_scope = Scope_Namespaced, cap_operations = [''list'']\<rparr>\<rparr>)"

definition config_map :: "string \<Rightarrow> string \<Rightarrow> string \<Rightarrow> json" where
  "config_map ns name text =
     JObj [(''apiVersion'', JStr ''v1''), (''kind'', JStr ''ConfigMap''),
           (''metadata'', JObj [(''name'', JStr name), (''namespace'', JStr ns),
             (''annotations'', JObj [(''kubectl.kubernetes.io/last-applied-configuration'', JStr ''x'')])]),
           (''data'', JObj [(''text'', JStr text)])]"

definition example_store :: shared_resources where
  "example_store =
     [((''/api/v1/namespaces'', ''default''), JObj [(''metadata'', JObj [(''name'', JStr ''default'')])]),
      ((''/api/v1/namespaces/default/configmaps'', ''a''), config_map ''default'' ''a'' ''old''),
      ((''/api/v1/namespaces/default/configmaps'', ''b''), config_map ''default'' ''b'' ''gone'')]"

definition example_engine :: "diff_strategy \<Rightarrow> shared_resources diff_engine" where
  "example_engine strategy =
     \<lparr>de_live_resources = None, de_client = mock_client read_object (\<lambda>_. None) None,
      de_api_cache = \<lparr>pending_crds = {}, resources = [config_maps]\<rparr>,
      de_openapi = (\<lambda>_. \<lparr>oa_merge_keys = Map.empty, oa_patch_strategies = Map.empty, oa_type_refs = Map.empty\<rparr>),
      de_strategy = strategy, de_default_namespace = ''default''\<rparr>"

section \<open>A diff only reads\<close>

text \<open>
  C8. Comparing all manifests with the cluster, pruning detection included, leaves the cluster as
  it is, whatever the strategy and however its tasks are scheduled: every write it sends is a dry
  run.
\<close>

theorem diff_all_reads:
  assumes "dry_runs (de_client self)"
  shows "snd (diff_all_with_prune_options w sched self manifests with_prune env_label inject_labels opts c) = c"
  using dry_runs.diff_all_unchanging [OF assms refl] by (simp add: unchanging_def)

theorem diff_all_reads_witness:
  "snd (diff_all_with_prune_options example_world in_turn (example_engine Native) [config_map ''default'' ''a'' ''new'']
     True (Some ''env'') True no_prune_options example_store) = example_store"
  by (rule diff_all_reads) (simp add: example_engine_def mock.dry_runs_axioms)

section \<open>The order of the tasks\<close>

lemma those_map_SomeD: "those (map f xs) = Some ys \<Longrightarrow> list_all2 (\<lambda>x y. f x = Some y) xs ys"
  by (induction xs arbitrary: ys) (auto split: option.splits)

lemma listed_once:
  assumes "distinct (map (\<lambda>v. (metadata_str ''namespace'' v, metadata_str ''name'' v)) items)"
    and "those (map read_object items) = Some objs"
  shows "distinct (map (\<lambda>obj. (obj_namespace obj, obj_name obj)) objs)"
proof -
  have "map (\<lambda>obj. (obj_namespace obj, obj_name obj)) objs = map (\<lambda>v. (metadata_str ''namespace'' v, metadata_str ''name'' v)) items"
    using those_map_SomeD [OF assms(2)] by (induction rule: list_all2_induct) (auto simp: read_object_def)
  with assms(1) show ?thesis by simp
qed

lemma mock_lists_once:
  assumes "distinct (map (\<lambda>(_, v). (metadata_str ''namespace'' v, metadata_str ''name'' v)) store)"
    and "list_all (\<lambda>(_, v). value_get v ''items'' = None) store"
  shows "lists_once_each (mock_client read_object subtype fail_writes) store"
  unfolding lists_once_each_def
proof (intro allI impI)
  fix h l objs assume ok: "answer (api_list (mock_client read_object subtype fail_writes) h l) store = Inr objs"
  let ?req = "plain_request h None False JNull"
  obtain code body where resp: "fst (respond_get ?req store) = Some (code, body)" and items: "read_items read_object body = Some objs"
    using ok by (auto simp: mock_client_def send_def answer_def read_response_def split: prod.splits option.splits if_splits)
  have sub: "distinct (map (\<lambda>v. (metadata_str ''namespace'' v, metadata_str ''name'' v)) (map snd (filter p store)))" for p
    using distinct_map_filter [OF assms(1), of p] by (simp add: case_prod_unfold comp_def)
  have "value_get body ''items'' = None \<or> body = list_body [] \<or> (\<exists>p. body = list_body (map snd (filter p store)))"
    using resp assms(2)
    by (auto simp: respond_get_def Let_def list_all_iff bind_eq_Some_conv status_body_def dest!: map_of_SomeD
        split: prod.splits option.splits if_splits)
  then show "distinct (map (\<lambda>obj. (obj_namespace obj, obj_name obj)) objs)"
  proof (elim disjE exE)
    assume "value_get body ''items'' = None"
    with items show ?thesis by (simp add: read_items_def)
  next
    assume "body = list_body []"
    with items show ?thesis by (simp add: read_items_def list_body_def)
  next
    fix p assume "body = list_body (map snd (filter p store))"
    with items have "those (map read_object (map snd (filter p store))) = Some objs" by (simp add: read_items_def list_body_def)
    then show ?thesis by (rule listed_once [OF sub])
  qed
qed

lemma example_lists_once: "lists_once_each (de_client (example_engine strategy)) example_store"
  unfolding example_engine_def diff_engine.select_convs by (rule mock_lists_once) code_simp+

text \<open>
  C18. The order in which the tasks of the pool finish does not show: two schedules give the same
  list of differences, provided no two of the resources compared are the same one and the API lists
  an object once.
\<close>

theorem diff_all_any_order:
  assumes "dry_runs (de_client self)" "lists_once_each (de_client self) c"
    and "distinct (map fst (resources (de_api_cache self)))" "reordering s" "reordering s'"
    and "fst (diff_all_with_prune_options w s self manifests with_prune env_label inject_labels opts c) = Inr diffs"
    and "distinct (map diff_key diffs)"
  shows "fst (diff_all_with_prune_options w s' self manifests with_prune env_label inject_labels opts c) = Inr diffs"
  using diff_all_order [OF assms(1-5) _ assms(7)] assms(6) by (simp add: answer_def)

theorem diff_all_any_order_witness:
  "\<exists>diffs. map rd_name diffs = [''a'', ''b''] \<and>
    fst (diff_all_with_prune_options example_world reversed (example_engine Subset) [config_map ''default'' ''a'' ''new'']
      True (Some ''env'') True no_prune_options example_store) = Inr diffs"
proof -
  let ?run = "\<lambda>s. fst (diff_all_with_prune_options example_world s (example_engine Subset) [config_map ''default'' ''a'' ''new'']
      True (Some ''env'') True no_prune_options example_store)"
  have client: "dry_runs (de_client (example_engine Subset))" by (simp add: example_engine_def mock.dry_runs_axioms)
  have cache: "distinct (map fst (resources (de_api_cache (example_engine Subset))))" by code_simp
  have "case ?run in_turn of Inr ds \<Rightarrow> map rd_name ds = [''a'', ''b''] \<and> distinct (map diff_key ds) | Inl _ \<Rightarrow> False"
    by code_simp
  then obtain diffs where d: "?run in_turn = Inr diffs" "map rd_name diffs = [''a'', ''b'']" "distinct (map diff_key diffs)"
    by (auto split: sum.splits)
  have "?run reversed = Inr diffs"
    by (rule diff_all_any_order [OF client example_lists_once cache reordering_examples d(1,3)])
  then show ?thesis using d(2) by (intro exI conjI)
qed

section \<open>What is pruned\<close>




section \<open>What is applied\<close>

definition manifest_kind :: "json \<Rightarrow> string" where
  "manifest_kind m = or_empty (Option.bind (value_get m ''kind'') as_str)"

definition manifest_name :: "json \<Rightarrow> string" where
  "manifest_name m = or_empty (metadata_str ''name'' m)"





text \<open>The manifests that the changes of a diff lead to, in the order they are sent.\<close>

definition sent_manifests :: "json list \<Rightarrow> resource_diff list \<Rightarrow> json list" where
  "sent_manifests manifests diffs = filter_map (find_manifest manifests) (changes_to_apply diffs)"




definition two_namespaces :: shared_resources where
  "two_namespaces =
     [((''/api/v1/namespaces'', ''default''), JObj []), ((''/api/v1/namespaces'', ''other''), JObj []),
      ((''/api/v1/namespaces/default/configmaps'', ''a''), config_map ''default'' ''a'' ''old''),
      ((''/api/v1/namespaces/other/configmaps'', ''a''), config_map ''other'' ''a'' ''old'')]"


text \<open>
  C33. The manifest of a change is looked up by kind and name alone: of two manifests that differ only
  in their namespace or API group, the second is never sent, whatever changed; the first is sent
  once per change of either.
\<close>

theorem apply_misses_namesake:
  assumes "manifest_kind m = manifest_kind m'" "manifest_name m = manifest_name m'" "m \<in> set before" "m' \<notin> set before"
  shows "m' \<notin> set (sent_manifests (before @ m' # after) diffs)"
proof
  assume "m' \<in> set (sent_manifests (before @ m' # after) diffs)"
  then obtain d where d: "find_manifest (before @ m' # after) d = Some m'" by (auto simp: sent_manifests_def set_filter_map)
  let ?P = "\<lambda>m. manifest_name m = rd_name d \<and> manifest_kind m = gvk_kind (rd_gvk d)"
  have find: "List.find ?P (before @ m' # after) = Some m'"
    using d by (simp add: find_manifest_def manifest_kind_def manifest_name_def)
  then have "?P m'" by (auto simp: find_Some_iff)
  then have "?P m" using assms(1,2) by simp
  then obtain b where "List.find ?P before = Some b" using assms(3) by (cases "List.find ?P before") (auto simp: find_None_iff)
  then have "List.find ?P (before @ m' # after) = Some b" and "b \<in> set before"
    by (induction before) (auto split: if_splits)
  with find assms(4) show False by simp
qed

theorem apply_misses_namesake_witness:
  "\<exists>diffs. fst (diff_all example_world in_turn (example_engine Subset)
      [config_map ''default'' ''a'' ''one'', config_map ''other'' ''a'' ''two''] False None False two_namespaces) = Inr diffs \<and>
    length (changes_to_apply diffs) = 2 \<and>
    config_map ''other'' ''a'' ''two'' \<notin>
      set (sent_manifests [config_map ''default'' ''a'' ''one'', config_map ''other'' ''a'' ''two''] diffs)"
proof -
  let ?ms = "[config_map ''default'' ''a'' ''one'', config_map ''other'' ''a'' ''two'']"
  let ?run = "fst (diff_all example_world in_turn (example_engine Subset) ?ms False None False two_namespaces)"
  have "case ?run of Inr ds \<Rightarrow> length (changes_to_apply ds) = 2 | Inl _ \<Rightarrow> False" by code_simp
  then obtain diffs where d: "?run = Inr diffs" "length (changes_to_apply diffs) = 2" by (auto split: sum.splits)
  have "manifest_kind (config_map ''default'' ''a'' ''one'') = manifest_kind (config_map ''other'' ''a'' ''two'')"
    "manifest_name (config_map ''default'' ''a'' ''one'') = manifest_name (config_map ''other'' ''a'' ''two'')" by code_simp+
  from apply_misses_namesake [OF this, of "[config_map ''default'' ''a'' ''one'']" "[]" diffs]
  have "config_map ''other'' ''a'' ''two'' \<notin> set (sent_manifests ?ms diffs)" by (simp add: config_map_def)
  with d show ?thesis by (intro exI conjI)
qed

section \<open>Waiting for the API of a custom resource\<close>

lemma wait_loop_succeeds:
  assumes "\<And>j. j < n \<Longrightarrow> \<exists>e. attempt (st (i + j)) = (Inl e, st' (i + j)) \<and> is_missing_discovery e \<and> st (Suc (i + j)) = meanwhile (st' (i + j))"
    and "attempt (st (i + n)) = (Inr u, c')"
    and "\<And>j. j < n \<Longrightarrow> now + (\<Sum>l\<le>j. spent (i + l)) + 200 * j < deadline"
  shows "wait_loop spent meanwhile attempt timeout deadline i now (st i) = (Inr u, c')"
  using assms
proof (induction n arbitrary: i now)
  case 0
  then show ?case by (simp add: wait_loop.simps)
next
  case (Suc n)
  obtain e where e: "attempt (st i) = (Inl e, st' i)" "is_missing_discovery e" "st (Suc i) = meanwhile (st' i)"
    using Suc.prems(1) [of 0] by auto
  have early: "now + spent i < deadline" using Suc.prems(3) [of 0] by simp
  have "wait_loop spent meanwhile attempt timeout deadline (Suc i) (now + spent i + 200) (st (Suc i)) = (Inr u, c')"
  proof (rule Suc.IH)
    show "attempt (st (Suc i + n)) = (Inr u, c')" using Suc.prems(2) by simp
    fix j assume "j < n"
    then show "\<exists>e. attempt (st (Suc i + j)) = (Inl e, st' (Suc i + j)) \<and> is_missing_discovery e \<and> st (Suc (Suc i + j)) = meanwhile (st' (Suc i + j))"
      using Suc.prems(1) [of "Suc j"] by simp
    have "(\<Sum>l\<le>Suc j. spent (i + l)) = spent i + (\<Sum>l\<le>j. spent (Suc i + l))"
      unfolding sum.atMost_Suc_shift by simp
    then show "now + spent i + 200 + (\<Sum>l\<le>j. spent (Suc i + l)) + 200 * j < deadline"
      using Suc.prems(3) [of "Suc j"] \<open>j < n\<close> by simp
  qed
  with e early show ?case by (subst wait_loop.simps) simp
qed

text \<open>
  C34. Liveness of an apply that waits for a custom resource's API: if the API turns up after any
  number of attempts that failed for its absence, and it does so before thirty seconds of attempts
  and pauses have passed, the manifest is applied.
\<close>

theorem apply_waits_for_api:
  assumes "\<And>i. i < n \<Longrightarrow> \<exists>e. apply_manifest x self m (st i) = (Inl e, st' i) \<and> is_missing_discovery e \<and> st (Suc i) = meanwhile (st' i)"
    and "apply_manifest x self m (st n) = (Inr (), c')"
    and "\<And>i. i < n \<Longrightarrow> (\<Sum>j\<le>i. spent j) + 200 * i < 30000"
  shows "apply_when_discovered x spent meanwhile self m (st 0) = (Inr (), c')"
  unfolding apply_when_discovered_def
  using wait_loop_succeeds [of n "apply_manifest x self m" st 0 st' meanwhile "()" c' 0 spent 30000] assms by simp

text \<open>A custom resource whose API is served once the second attempt is made.\<close>

definition widgets :: "api_resource \<times> api_capabilities" where
  "widgets = (\<lparr>ar_group = ''example.com'', ar_version = ''v1'', ar_kind = ''Widget'', ar_plural = ''widgets''\<rparr>,
     \<lparr>cap_scope = Scope_Namespaced, cap_operations = [''list'']\<rparr>)"

definition widget :: json where
  "widget = JObj [(''apiVersion'', JStr ''example.com/v1''), (''kind'', JStr ''Widget''),
     (''metadata'', JObj [(''name'', JStr ''w'')])]"

definition served_later :: "shared_resources \<Rightarrow> kube_error discovery_answers" where
  "served_later c =
     (let groups = (if c = [] then [] else [[[widgets]]])
      in \<lparr>answer_aggregated = Inr groups, answer_full = Inr groups,
          answer_pinned = (\<lambda>g. if c = [] then Inl (Kube_Api 404 ''not found'') else Inr widgets)\<rparr>)"

definition waiting_engine :: "shared_resources apply_engine" where
  "waiting_engine = apply_engine_new (mock_client read_object (\<lambda>_. None) None) served_later ''default'' False False"

definition crd_installed :: shared_resources where
  "crd_installed = [((''crds'', ''widgets''), JNull)]"

theorem apply_waits_for_api_witness:
  "fst (apply_when_discovered example_externals (\<lambda>_. 5) (\<lambda>_. crd_installed) waiting_engine widget []) = Inr ()"
proof -
  let ?st = "\<lambda>i::nat. if i = 0 then [] else crd_installed"
  let ?run = "apply_manifest example_externals waiting_engine widget"
  have first: "case ?run [] of (Inl e, c) \<Rightarrow> is_missing_discovery e | (Inr _, c) \<Rightarrow> False" by code_simp
  then obtain e c where e: "?run [] = (Inl e, c)" "is_missing_discovery e" by (auto split: prod.splits sum.splits)
  have "case ?run crd_installed of (Inr _, c) \<Rightarrow> True | (Inl _, c) \<Rightarrow> False" by code_simp
  then obtain c' where c': "?run crd_installed = (Inr (), c')" by (auto split: prod.splits sum.splits)
  have "apply_when_discovered example_externals (\<lambda>_. 5) (\<lambda>_. crd_installed) waiting_engine widget (?st 0) = (Inr (), c')"
    by (rule apply_waits_for_api [of 1 _ _ _ ?st "\<lambda>_. c"]) (use e c' in auto)
  then show ?thesis by simp
qed

section \<open>Asking before writing\<close>

lemma io_then_err [simp]: "io_then (io_lift (Inl e)) f = io_lift (Inl e)"
  and io_then_ok [simp]: "io_then (io_lift (Inr x)) f = f x"
  by (simp_all add: io_then_def io_lift_def)

lemma snd_lift [simp]: "snd (io_lift r c) = c"
  by (simp add: io_lift_def)

lemma unchanging_engine_new: "unchanging (diff_engine_new w conn s ns ms p)"
  by (simp add: unchanging_def diff_engine_new_def)

lemma unchanging_setup: "unchanging (setup_diff_engine w conn spec ms p ov s)"
  unfolding setup_diff_engine_def Let_def by (intro unchanging_then unchanging_lift unchanging_engine_new)

lemma setup_gives: "gives (\<lambda>e. de_client e = cn_client conn) (setup_diff_engine w conn spec ms p ov s)"
proof -
  have "gives (\<lambda>e. de_client e = cn_client conn) (diff_engine_new w conn s ns ms p)" for s ns
    by (auto simp: gives_def diff_engine_new_def split: sum.splits)
  then show ?thesis unfolding setup_diff_engine_def Let_def by (intro gives_then)
qed

lemma setup_client: "fst (setup_diff_engine w conn spec ms p ov s c) = Inr e \<Longrightarrow> de_client e = cn_client conn"
  by (rule setup_gives [unfolded gives_def, rule_format])

lemma unchanging_then_run:
  assumes "unchanging m" "\<And>x. fst (m c) = Inr x \<Longrightarrow> snd (f x c) = c"
  shows "snd (io_then m f c) = c"
proof -
  obtain r where "m c = (r, c)" using assms(1) by (metis prod.collapse unchanging_def)
  with assms(2) show ?thesis by (cases r) (simp_all add: io_then_def)
qed

definition declined :: "command_world \<Rightarrow> auto_approve \<Rightarrow> string option \<Rightarrow> bool" where
  "declined w approve dry_run \<longleftrightarrow> is_dry_run_set dry_run \<or> approve = If_No_Changes \<or>
     (approve = Never \<and> (case cw_user w of
        No_Tty \<Rightarrow> True
      | Answers input \<Rightarrow> \<not> prompt_confirmation (cw_trim w) (env_lower (cw_surroundings w)) input))"

lemma declined_proceed:
  "declined w approve dry_run \<Longrightarrow> is_dry_run_set dry_run \<or> (\<exists>e. should_proceed w approve True = Inl e) \<or> should_proceed w approve True = Inr False"
  by (cases approve) (auto simp: declined_def should_proceed_def split: user.splits)

text \<open>
  C15. Applying and pruning write nothing unless they were told to: with a dry run, with
  \<open>if-no-changes\<close>, without a terminal to ask on, or when the answer is not yes, the cluster is left
  as it is.
\<close>

theorem apply_and_prune_ask_first:
  assumes "dry_runs (cn_client conn)"
  shows "(declined w (ao_auto_approve opts) (ao_dry_run opts) \<longrightarrow>
      snd (apply_environment w spent meanwhile conn spec manifests opts c) = c) \<and>
    (declined w (pn_auto_approve popts) (pn_dry_run popts) \<longrightarrow>
      snd (prune_environment w conn spec env_label ts manifests popts c) = c)"
proof (intro conjI impI)
  assume "declined w (ao_auto_approve opts) (ao_dry_run opts)"
  note declined_proceed [OF this]
  then show "snd (apply_environment w spent meanwhile conn spec manifests opts c) = c"
    unfolding apply_environment_def diff_all_def
    by (auto intro!: unchanging_then_run unchanging_setup unchanging_map_err unchanging_lift
        dry_runs.diff_all_unchanging [OF assms] dest!: setup_client simp: Let_def)
next
  assume "declined w (pn_auto_approve popts) (pn_dry_run popts)"
  note declined_proceed [OF this]
  then show "snd (prune_environment w conn spec env_label ts manifests popts c) = c"
    unfolding prune_environment_def
    by (auto intro!: unchanging_then_run unchanging_setup unchanging_map_err unchanging_lift
        dry_runs.diff_all_unchanging [OF assms] dest!: setup_client simp: Let_def)
qed

definition no_user :: command_world where
  "no_user =
     \<lparr>cw_surroundings = example_world, cw_schedule = in_turn, cw_parse_u32 = (\<lambda>_. Some 1), cw_hash_order = remdups,
      cw_trim = (\<lambda>s. s), cw_user = No_Tty\<rparr>"

definition discovers_config_maps :: "shared_resources \<Rightarrow> kube_error discovery_answers" where
  "discovers_config_maps c =
     (let found = (dr_api_resource (snd config_maps), dr_capabilities (snd config_maps))
      in \<lparr>answer_aggregated = Inr [[[found]]], answer_full = Inr [[[found]]], answer_pinned = (\<lambda>_. Inr found)\<rparr>)"

definition example_connection :: "shared_resources connection" where
  "example_connection =
     \<lparr>cn_client = mock_client read_object (\<lambda>_. None) None, cn_discovery = discovers_config_maps,
      cn_openapi = (\<lambda>_. \<lparr>oa_merge_keys = Map.empty, oa_patch_strategies = Map.empty, oa_type_refs = Map.empty\<rparr>),
      cn_server_major = ''1'', cn_server_minor = ''30'', cn_default_namespace = ''default''\<rparr>"

theorem apply_and_prune_ask_first_witness:
  "snd (apply_environment no_user (\<lambda>_. 0) (\<lambda>c. c) example_connection None [config_map ''default'' ''a'' ''new'']
     \<lparr>ao_diff_strategy = Some Subset, ao_apply_strategy = None, ao_auto_approve = Never, ao_dry_run = None, ao_force = False\<rparr>
     example_store) = example_store \<and>
   snd (apply_environment no_user (\<lambda>_. 0) (\<lambda>c. c) example_connection None [config_map ''default'' ''a'' ''new'']
     \<lparr>ao_diff_strategy = Some Subset, ao_apply_strategy = None, ao_auto_approve = Always, ao_dry_run = None, ao_force = False\<rparr>
     example_store) \<noteq> example_store"
proof
  let ?opts = "\<lparr>ao_diff_strategy = Some Subset, ao_apply_strategy = None, ao_auto_approve = Never, ao_dry_run = None, ao_force = False\<rparr>"
  have "dry_runs (cn_client example_connection)" by (simp add: example_connection_def mock.dry_runs_axioms)
  moreover have "declined no_user (ao_auto_approve ?opts) (ao_dry_run ?opts)" by (simp add: declined_def no_user_def)
  ultimately show "snd (apply_environment no_user (\<lambda>_. 0) (\<lambda>c. c) example_connection None [config_map ''default'' ''a'' ''new'']
      ?opts example_store) = example_store"
    by (rule apply_and_prune_ask_first [THEN conjunct1, THEN mp])
  show "snd (apply_environment no_user (\<lambda>_. 0) (\<lambda>c. c) example_connection None [config_map ''default'' ''a'' ''new'']
     \<lparr>ao_diff_strategy = Some Subset, ao_apply_strategy = None, ao_auto_approve = Always, ao_dry_run = None, ao_force = False\<rparr>
     example_store) \<noteq> example_store"
    by code_simp
qed

lemma delete_options_none:
  "delete_resource_with_options x self g n ns (Some ''none'') force = delete_resource_with_options x self g n ns None force"
proof -
  have "(Some ''none'' = Some ''client'') = False" "(Some ''none'' = Some ''server'') = False"
    "(None = Some ''client'') = False" "(None = Some ''server'') = False" by simp_all
  then show ?thesis unfolding delete_resource_with_options_def by presburger
qed

lemma delete_one_none: "delete_one x self (Some ''none'') force = delete_one x self None force"
  unfolding delete_one_def delete_options_none by (rule refl)

text \<open>
  C35. \<open>rtk delete --dry-run=none\<close> is accepted as a dry run that is off, and deletes: it does exactly
  what \<open>--auto-approve=always\<close> does without a dry run, whoever sits at the terminal.
\<close>

theorem delete_dry_run_none_deletes:
  assumes "\<And>m. m \<in> set manifests \<Longrightarrow> \<exists>d. deletion_diff (env_externals (cw_surroundings w)) m = Inr d"
  shows "delete_run w conn spec manifests \<lparr>da_auto_approve = approve, da_dry_run = Some ''none'', da_force = force\<rparr> c =
    delete_run w conn spec manifests \<lparr>da_auto_approve = Some Always, da_dry_run = None, da_force = force\<rparr> c"
proof -
  have "for_each (\<lambda>m u. and_then (deletion_diff (env_externals (cw_surroundings w)) m) (\<lambda>_. Inr u)) ms () = Inr ()"
    if "set ms \<subseteq> set manifests" for ms
    using that assms by (induction ms) fastforce+
  then have "for_each (\<lambda>m u. and_then (deletion_diff (env_externals (cw_surroundings w)) m) (\<lambda>_. Inr u))
      (sort_manifests manifests) () = Inr ()"
    by (simp add: sort_manifests_def)
  then show ?thesis
    by (simp add: delete_run_def validate_dry_run_def delete_environment_def delete_one_none Let_def)
qed

theorem delete_dry_run_none_deletes_witness:
  "let after = snd (delete_run no_user example_connection None [config_map ''default'' ''a'' ''old'']
       \<lparr>da_auto_approve = None, da_dry_run = Some ''none'', da_force = False\<rparr> example_store)
   in map_of after (''/api/v1/namespaces/default/configmaps'', ''a'') = None"
proof -
  have "case deletion_diff (env_externals (cw_surroundings no_user)) (config_map ''default'' ''a'' ''old'') of Inr d \<Rightarrow> True | Inl _ \<Rightarrow> False"
    by code_simp
  then have shown: "\<exists>d. deletion_diff (env_externals (cw_surroundings no_user)) (config_map ''default'' ''a'' ''old'') = Inr d"
    by (simp split: sum.splits)
  have same: "delete_run no_user example_connection None [config_map ''default'' ''a'' ''old'']
       \<lparr>da_auto_approve = None, da_dry_run = Some ''none'', da_force = False\<rparr> example_store =
     delete_run no_user example_connection None [config_map ''default'' ''a'' ''old'']
       \<lparr>da_auto_approve = Some Always, da_dry_run = None, da_force = False\<rparr> example_store"
    by (rule delete_dry_run_none_deletes) (use shown in simp)
  have "map_of (snd (delete_run no_user example_connection None [config_map ''default'' ''a'' ''old'']
       \<lparr>da_auto_approve = Some Always, da_dry_run = None, da_force = False\<rparr> example_store))
       (''/api/v1/namespaces/default/configmaps'', ''a'') = None"
    by code_simp
  then show ?thesis unfolding Let_def same .
qed

section \<open>A diff of an achieved manifest\<close>











end
