(* ===== verification/Yaml_Text.thy ===== *)
theory Yaml_Text
  imports Prelude
begin

text \<open>
  Unicode text for the YAML writer (\<open>crates/rtk-yaml\<close>). A Rust \<open>char\<close> is its code point, a
  number from 0 to \<open>0x10FFFF\<close>, a \<open>&str\<close> the list of its code points; \<open>utf8\<close> gives the bytes where the code reads bytes. Character
  classes, trimming, searching and number parsing are those of Rust's standard library.
\<close>

type_synonym utext = "int list"

definition lit :: "string \<Rightarrow> utext" where
  "lit s = map of_char s"

lemma lit_Nil [simp]: "lit [] = []"
  and lit_Cons [simp]: "lit (c # s) = of_char c # lit s"
  by (simp_all add: lit_def)

section \<open>Characters\<close>

text \<open>\<open>char::is_control\<close>: the general category Cc.\<close>

definition is_control :: "int \<Rightarrow> bool" where
  "is_control c \<longleftrightarrow> c < 0x20 \<or> (0x7F \<le> c \<and> c < 0xA0)"

text \<open>\<open>char::is_whitespace\<close>: the property White_Space.\<close>

definition is_whitespace :: "int \<Rightarrow> bool" where
  "is_whitespace c \<longleftrightarrow>
     c = 0x20 \<or> (9 \<le> c \<and> c \<le> 13) \<or> c = 0x85 \<or> c = 0xA0 \<or> c = 0x1680 \<or> (0x2000 \<le> c \<and> c \<le> 0x200A) \<or>
     c = 0x2028 \<or> c = 0x2029 \<or> c = 0x202F \<or> c = 0x205F \<or> c = 0x3000"

definition is_ascii_whitespace :: "int \<Rightarrow> bool" where
  "is_ascii_whitespace b \<longleftrightarrow> b = 9 \<or> b = 10 \<or> b = 12 \<or> b = 13 \<or> b = 32"

definition is_ascii_digit :: "int \<Rightarrow> bool" where
  "is_ascii_digit c \<longleftrightarrow> 48 \<le> c \<and> c \<le> 57"

definition is_ascii_alphabetic :: "int \<Rightarrow> bool" where
  "is_ascii_alphabetic c \<longleftrightarrow> (65 \<le> c \<and> c \<le> 90) \<or> (97 \<le> c \<and> c \<le> 122)"

definition lower_ascii :: "int \<Rightarrow> int" where
  "lower_ascii c = (if 65 \<le> c \<and> c \<le> 90 then c + 32 else c)"

text \<open>\<open>char::to_digit\<close>, for a radix of at most 16.\<close>

definition digit_value :: "int \<Rightarrow> int option" where
  "digit_value c =
     (if is_ascii_digit c then Some (c - 48)
      else if 97 \<le> c \<and> c \<le> 102 then Some (c - 87)
      else if 65 \<le> c \<and> c \<le> 70 then Some (c - 55)
      else None)"

definition is_digit_of :: "int \<Rightarrow> int \<Rightarrow> bool" where
  "is_digit_of radix c = (case digit_value c of Some d \<Rightarrow> d < radix | None \<Rightarrow> False)"

section \<open>Strings\<close>

definition utf8_char :: "int \<Rightarrow> int list" where
  "utf8_char c =
     (if c < 0x80 then [c]
      else if c < 0x800 then [0xC0 + c div 64, 0x80 + c mod 64]
      else if c < 0x10000 then [0xE0 + c div 4096, 0x80 + c div 64 mod 64, 0x80 + c mod 64]
      else [0xF0 + c div 262144, 0x80 + c div 4096 mod 64, 0x80 + c div 64 mod 64, 0x80 + c mod 64])"

definition utf8 :: "utext \<Rightarrow> int list" where
  "utf8 s = concat (map utf8_char s)"

definition trim_start :: "utext \<Rightarrow> utext" where
  "trim_start s = dropWhile is_whitespace s"

definition trim_end :: "utext \<Rightarrow> utext" where
  "trim_end s = rev (dropWhile is_whitespace (rev s))"

definition trim :: "utext \<Rightarrow> utext" where
  "trim s = trim_end (trim_start s)"

text \<open>\<open>str::contains\<close> and \<open>str::split_once\<close>, at the first occurrence.\<close>

fun has_prefix :: "'a list \<Rightarrow> 'a list \<Rightarrow> bool" where
  "has_prefix [] s = True"
| "has_prefix (p # ps) [] = False"
| "has_prefix (p # ps) (c # s) = (p = c \<and> has_prefix ps s)"

fun split_once :: "'a list \<Rightarrow> 'a list \<Rightarrow> ('a list \<times> 'a list) option" where
  "split_once pat [] = (if pat = [] then Some ([], []) else None)"
| "split_once pat (c # s) =
     (if has_prefix pat (c # s) then Some ([], drop (length pat) (c # s))
      else map_option (\<lambda>(a, b). (c # a, b)) (split_once pat s))"

definition has_substring :: "'a list \<Rightarrow> 'a list \<Rightarrow> bool" where
  "has_substring pat s \<longleftrightarrow> split_once pat s \<noteq> None"

definition eq_ignore_ascii_case :: "utext \<Rightarrow> utext \<Rightarrow> bool" where
  "eq_ignore_ascii_case a b \<longleftrightarrow> map lower_ascii a = map lower_ascii b"

fun split_char :: "'a \<Rightarrow> 'a list \<Rightarrow> 'a list list" where
  "split_char sep [] = [[]]"
| "split_char sep (c # s) =
     (if c = sep then [] # split_char sep s
      else case split_char sep s of [] \<Rightarrow> [[c]] | l # ls \<Rightarrow> (c # l) # ls)"

text \<open>
  \<open>str::lines\<close>: a line feed ends a line and takes a carriage return before it along; no line
  follows a final line feed.
\<close>

definition text_lines :: "utext \<Rightarrow> utext list" where
  "text_lines s =
     (let ls = split_char 10 s;
          cut = (\<lambda>l. if l \<noteq> [] \<and> List.last l = 13 then butlast l else l)
      in map cut (butlast ls) @ (if List.last ls = [] then [] else [List.last ls]))"

section \<open>Numbers\<close>

text \<open>\<open>str::parse::<i64>\<close> succeeds.\<close>

definition digits_value :: "utext \<Rightarrow> int" where
  "digits_value ds = foldl (\<lambda>n d. 10 * n + (d - 48)) 0 ds"

definition parses_as_i64 :: "utext \<Rightarrow> bool" where
  "parses_as_i64 s =
     (let (negative, ds) = (case s of c # r \<Rightarrow> if c = 45 then (True, r) else if c = 43 then (False, r) else (False, s)
                            | [] \<Rightarrow> (False, []))
      in ds \<noteq> [] \<and> list_all is_ascii_digit ds \<and>
         (if negative then digits_value ds \<le> 2 ^ 63 else digits_value ds < 2 ^ 63))"

text \<open>
  The grammar of \<open>str::parse::<f64>\<close> without its words: digits, an optional point and fraction, an
  optional exponent. The digits and the power of ten they are multiplied with.
\<close>

definition float_exponent :: "utext \<Rightarrow> int option" where
  "float_exponent s =
     (case s of
        [] \<Rightarrow> Some 0
      | e # r \<Rightarrow>
          (if e = 101 \<or> e = 69 then
             (let (negative, ds) = (case r of c # r' \<Rightarrow> if c = 45 then (True, r') else if c = 43 then (False, r') else (False, r)
                                    | [] \<Rightarrow> (False, []))
              in if ds \<noteq> [] \<and> list_all is_ascii_digit ds
                 then Some (if negative then - digits_value ds else digits_value ds) else None)
           else None))"

definition float_number :: "utext \<Rightarrow> (utext \<times> int) option" where
  "float_number s =
     (let whole = takeWhile is_ascii_digit s;
          after = dropWhile is_ascii_digit s;
          (fraction, rest) =
            (case after of
               c # r \<Rightarrow> if c = 46 then (takeWhile is_ascii_digit r, dropWhile is_ascii_digit r) else ([], after)
             | [] \<Rightarrow> ([], []))
      in if whole = [] \<and> fraction = [] then None
         else map_option (\<lambda>e. (whole @ fraction, e - int (length fraction))) (float_exponent rest))"

definition unsigned_part :: "utext \<Rightarrow> utext" where
  "unsigned_part s = (case s of c # r \<Rightarrow> if c = 45 \<or> c = 43 then r else s | [] \<Rightarrow> [])"

text \<open>
  The nearest double of \<open>m * 10 ^ e\<close> is finite: the number is below the midpoint of the largest
  double and \<open>2 ^ 1024\<close>, a tie being rounded to the even \<open>2 ^ 1024\<close>.
\<close>

definition finite_double :: "int \<Rightarrow> int \<Rightarrow> bool" where
  "finite_double m e =
     (let limit = 2 ^ 1024 - 2 ^ 970
      in if e \<ge> 0 then m = 0 \<or> m * 10 ^ nat e < limit else m < limit * 10 ^ nat (- e))"

text \<open>\<open>str::parse::<f64>\<close> gives a finite number; infinities and NaN are words.\<close>

definition parses_as_finite :: "utext \<Rightarrow> bool" where
  "parses_as_finite s =
     (case float_number (unsigned_part s) of Some (ds, e) \<Rightarrow> finite_double (digits_value ds) e | None \<Rightarrow> False)"

section \<open>Lemmas\<close>

lemma has_prefix_iff: "has_prefix p s \<longleftrightarrow> (\<exists>r. s = p @ r)"
  by (induction p s rule: has_prefix.induct) auto

lemma split_once_SomeD: "split_once pat s = Some (a, b) \<Longrightarrow> s = a @ pat @ b"
proof (induction pat s arbitrary: a rule: split_once.induct)
  case (2 pat c s)
  show ?case
  proof (cases "has_prefix pat (c # s)")
    case True
    with 2(2) have "a = []" "b = drop (length pat) (c # s)" by simp_all
    moreover from True obtain r where r: "c # s = pat @ r" by (auto simp: has_prefix_iff)
    ultimately show ?thesis unfolding r by simp
  next
    case False
    with 2 show ?thesis by auto
  qed
qed (auto split: if_splits)

lemma split_once_None_iff: "split_once pat s = None \<longleftrightarrow> (\<nexists>a b. s = a @ pat @ b)"
proof
  assume "split_once pat s = None"
  then show "\<nexists>a b. s = a @ pat @ b"
  proof (induction s)
    case (Cons c s)
    then show ?case by (auto simp: has_prefix_iff Cons_eq_append_conv split: if_splits)
  qed (auto split: if_splits)
next
  assume "\<nexists>a b. s = a @ pat @ b"
  then show "split_once pat s = None" by (metis split_once_SomeD not_None_eq prod.collapse)
qed

lemma has_substring_iff: "has_substring pat s \<longleftrightarrow> (\<exists>a b. s = a @ pat @ b)"
  using split_once_None_iff [of pat s] by (auto simp: has_substring_def)

lemma split_char_not_Nil [simp]: "split_char sep s \<noteq> []"
  by (induction s) (auto split: list.splits)

end
