(* ===== verification/Yaml_Quoting.thy ===== *)
theory Yaml_Quoting
  imports Yaml_Text
begin

text \<open>
  When a YAML scalar may be written plain: \<open>crates/rtk-yaml/src/ser_quoting.rs\<close> and the predicates
  at the end of \<open>ser.rs\<close>. The guards stand in the order of the code.
\<close>

definition parse_yaml11_bool :: "utext \<Rightarrow> bool option" where
  "parse_yaml11_bool s =
     (let w = map lower_ascii (trim s)
      in if w \<in> {lit ''true'', lit ''yes'', lit ''y'', lit ''on''} then Some True
         else if w \<in> {lit ''false'', lit ''no'', lit ''n'', lit ''off''} then Some False
         else None)"

definition parses_as_integer :: "utext \<Rightarrow> bool" where
  "parses_as_integer s =
     (let unsigned = unsigned_part (trim s);
          (radix, digits) =
            (if has_prefix (lit ''0x'') unsigned then (16, drop 2 unsigned)
             else if has_prefix (lit ''0o'') unsigned then (8, drop 2 unsigned)
             else if has_prefix (lit ''0b'') unsigned then (2, drop 2 unsigned)
             else if length (utf8 unsigned) > 1 \<and> has_prefix (lit ''0'') unsigned then (8, unsigned)
             else (10, unsigned))
      in digits \<noteq> [] \<and> list_all (is_digit_of radix) (filter (\<lambda>c. c \<noteq> of_char CHR ''_'') digits))"

definition parses_as_finite_float :: "utext \<Rightarrow> bool" where
  "parses_as_finite_float s = parses_as_finite (filter (\<lambda>c. c \<noteq> of_char CHR ''_'') s)"

text \<open>The first bytes that start another kind of node.\<close>

definition is_indicator :: "int \<Rightarrow> bool" where
  "is_indicator b \<longleftrightarrow> b \<in> set (lit ''[]{}#&*!|>'') \<or> b = 39 \<or> b = 34 \<or> b \<in> set (lit ''%@`'')"

definition starts_other_node :: "utext \<Rightarrow> bool" where
  "starts_other_node s =
     (let bytes = utf8 s in is_ascii_whitespace (bytes ! 0) \<or> is_indicator (bytes ! 0))"

text \<open>A dash, question mark or colon alone or before white space.\<close>

definition is_lone_indicator :: "utext \<Rightarrow> bool" where
  "is_lone_indicator s =
     (let bytes = utf8 s
      in bytes ! 0 \<in> set (lit ''-?:'') \<and> (length bytes = 1 \<or> is_ascii_whitespace (bytes ! 1)))"

definition reads_as_mapping :: "utext \<Rightarrow> bool" where
  "reads_as_mapping s \<longleftrightarrow>
     has_substring (lit '': '') s \<or> (trim s \<noteq> [] \<and> List.last (trim s) = of_char CHR '':'')"

definition contains_any_or_is_control :: "utext \<Rightarrow> utext \<Rightarrow> bool" where
  "contains_any_or_is_control s values = list_ex (\<lambda>x. list_ex (\<lambda>v. x = v \<or> is_control x) values) s"

definition contains_control_or_non_bmp :: "utext \<Rightarrow> bool" where
  "contains_control_or_non_bmp s = list_ex (\<lambda>c. is_control c \<or> c \<ge> 0x10000) s"

definition all_digits :: "int list \<Rightarrow> nat \<Rightarrow> nat \<Rightarrow> bool" where
  "all_digits bytes from to = list_all is_ascii_digit (drop from (take to bytes))"

definition looks_like_timestamp :: "utext \<Rightarrow> bool" where
  "looks_like_timestamp s =
     (let bytes = utf8 s; dash = of_char CHR ''-''; colon = of_char CHR '':''
      in if length bytes = 10 then
           bytes ! 4 = dash \<and> bytes ! 7 = dash \<and>
           all_digits bytes 0 4 \<and> all_digits bytes 5 7 \<and> all_digits bytes 8 10
         else if length bytes = 5 then
           bytes ! 2 = colon \<and> all_digits bytes 0 2 \<and> all_digits bytes 3 5
         else if length bytes < 20 then False
         else if \<not> (bytes ! 4 = dash \<and> bytes ! 7 = dash \<and> bytes ! 10 = of_char CHR ''T'' \<and>
                    bytes ! 13 = colon \<and> bytes ! 16 = colon \<and>
                    all_digits bytes 0 4 \<and> all_digits bytes 5 7 \<and> all_digits bytes 8 10 \<and>
                    all_digits bytes 11 13 \<and> all_digits bytes 14 16 \<and> all_digits bytes 17 19) then False
         else bytes ! 19 = of_char CHR ''Z'' \<or> bytes ! 19 = of_char CHR ''+'' \<or> bytes ! 19 = dash)"

definition is_plain_safe :: "utext \<Rightarrow> bool" where
  "is_plain_safe s =
     (if s = [] then False
      else if s = lit ''~'' \<or> eq_ignore_ascii_case s (lit ''null'') \<or> eq_ignore_ascii_case s (lit ''true'') \<or>
              eq_ignore_ascii_case s (lit ''false'') then False
      else if starts_other_node s then False
      else if is_lone_indicator s then False
      else if reads_as_mapping s then False
      else if has_substring (lit '' #'') s then False
      else \<not> contains_any_or_is_control s (lit '',''))"

definition is_plain_value_safe :: "utext \<Rightarrow> bool" where
  "is_plain_value_safe s =
     (if s = [] then False
      else if s = lit ''~'' \<or> eq_ignore_ascii_case s (lit ''null'') then False
      else if looks_like_timestamp s then False
      else if parses_as_integer s then False
      else if parses_as_finite_float s then False
      else if parse_yaml11_bool s \<noteq> None then False
      else if starts_other_node s then False
      else if is_lone_indicator s then False
      else if reads_as_mapping s then False
      else if has_substring (lit '' #'') s then False
      else \<not> contains_any_or_is_control s (lit '',[]{}''))"

definition is_plain_block_value_safe :: "utext \<Rightarrow> bool" where
  "is_plain_block_value_safe s =
     (if s = [] then False
      else if s = lit ''~'' \<or> eq_ignore_ascii_case s (lit ''null'') then False
      else if looks_like_timestamp s then False
      else if parses_as_integer s then False
      else if parses_as_finite_float s then False
      else if parse_yaml11_bool s \<noteq> None then False
      else if length (utf8 s) = 1 \<and> utf8 s ! 0 \<in> set (lit '',[]{}'') then False
      else if is_ascii_whitespace (List.last (utf8 s)) then False
      else if starts_other_node s then False
      else if is_lone_indicator s then False
      else if reads_as_mapping s then False
      else if has_substring (lit '' #'') s then False
      else \<not> contains_control_or_non_bmp s)"

section \<open>Keys and multi-line strings\<close>

definition has_trailing_whitespace :: "utext \<Rightarrow> bool" where
  "has_trailing_whitespace s = list_ex (\<lambda>l. l \<noteq> [] \<and> (List.last l = 32 \<or> List.last l = 9)) (text_lines s)"

definition has_chars_needing_escape :: "utext \<Rightarrow> bool" where
  "has_chars_needing_escape s =
     list_ex (\<lambda>c. c = 0xFEFF \<or> c = 0x85 \<or> c = 0x2028 \<or> c = 0x2029 \<or> c \<ge> 0x10000 \<or>
                  (is_control c \<and> c \<noteq> 10 \<and> c \<noteq> 9)) s"

definition looks_like_number :: "utext \<Rightarrow> bool" where
  "looks_like_number s \<longleftrightarrow> s \<noteq> [] \<and> (parses_as_i64 s \<or> parses_as_finite s)"

text \<open>Only ASCII letters lower to the letters of these words, so the ASCII case mapping decides.\<close>

definition looks_like_ambiguous_boolean :: "utext \<Rightarrow> bool" where
  "looks_like_ambiguous_boolean s \<longleftrightarrow>
     map lower_ascii s \<in> {lit ''y'', lit ''n'', lit ''yes'', lit ''no'', lit ''on'', lit ''off'', lit ''true'', lit ''false''}"

end
