(* ===== verification/Yaml_Scalars.thy ===== *)
theory Yaml_Scalars
  imports Yaml_Quoting
begin

text \<open>
  The texts of scalars, \<open>crates/rtk-yaml/src/ser.rs\<close>: quoted strings in both styles, on one line
  and wrapped, plain strings wrapped, keys, and numbers in Go's scientific notation. A function
  returns what the code writes; the writer of \<open>Yaml_Writer\<close> appends it. The loops over
  characters are recursions on what is left of the string: \<open>i > 0\<close> is that the position is not the
  first, \<open>i < chars.len() - 1\<close> that something is left.
\<close>

section \<open>Escapes\<close>

definition hex_digit :: "int \<Rightarrow> int" where
  "hex_digit d = (if d < 10 then 48 + d else 55 + d)"

text \<open>\<open>{:0wX}\<close> of a number below \<open>16 ^ w\<close>.\<close>

fun hex_pad :: "nat \<Rightarrow> int \<Rightarrow> utext" where
  "hex_pad 0 n = []"
| "hex_pad (Suc w) n = hex_pad w (n div 16) @ [hex_digit (n mod 16)]"

definition named_escapes :: "(int \<times> utext) list" where
  "named_escapes =
     [(92, [92, 92]), (34, [92, 34]), (0, [92, 48]), (7, [92, 97]), (8, [92, 98]), (9, [92, 116]),
      (10, [92, 110]), (11, [92, 118]), (12, [92, 102]), (13, [92, 114]), (27, [92, 101]),
      (0xFEFF, 92 # lit ''uFEFF''), (0x85, [92, 78]), (0x2028, [92, 76]), (0x2029, [92, 80])]"

definition escape_char :: "int \<Rightarrow> utext" where
  "escape_char c =
     (case map_of named_escapes c of
        Some e \<Rightarrow> e
      | None \<Rightarrow>
          if c \<le> 0xFF \<and> (is_control c \<or> (0x7F \<le> c \<and> c \<le> 0x9F)) then 92 # 120 # hex_pad 2 c
          else if c \<le> 0xFFFF \<and> (is_control c \<or> (0x7F \<le> c \<and> c \<le> 0x9F)) then 92 # 117 # hex_pad 4 c
          else if c \<ge> 0x10000 then 92 # 85 # hex_pad 8 c
          else [c])"

definition escaped :: "utext \<Rightarrow> utext" where
  "escaped s = concat (map escape_char s)"

text \<open>\<open>escaped_double_quoted_length\<close> counts without building the text.\<close>

definition escaped_char_length :: "int \<Rightarrow> nat" where
  "escaped_char_length c =
     (if c \<in> {92, 34, 0, 7, 8, 9, 10, 11, 12, 13, 27} then 2
      else if c \<in> {0x85, 0x2028, 0x2029} then 2
      else if c = 0xFEFF then 6
      else if c \<ge> 0x10000 then 10
      else if c \<le> 0xFF \<and> (is_control c \<or> (0x7F \<le> c \<and> c \<le> 0x9F)) then 4
      else if c \<le> 0xFFFF \<and> (is_control c \<or> (0x7F \<le> c \<and> c \<le> 0x9F)) then 6
      else 1)"

definition escaped_double_quoted_length :: "utext \<Rightarrow> nat" where
  "escaped_double_quoted_length s = sum_list (map escaped_char_length s)"

definition needs_escaping :: "utext \<Rightarrow> bool" where
  "needs_escaping s =
     list_ex (\<lambda>c. is_control c \<or>
       c \<in> {10, 13, 9, 0, 7, 8, 11, 12, 27, 0xFEFF, 0x85, 0x2028, 0x2029} \<or> c \<ge> 0x10000) s"

definition looks_like_other_type :: "utext \<Rightarrow> bool" where
  "looks_like_other_type s \<longleftrightarrow>
     s = [] \<or> s = lit ''~'' \<or>
     list_ex (\<lambda>w. eq_ignore_ascii_case s (lit w)) [''null'', ''true'', ''false'', ''yes'', ''no'', ''on'', ''off''] \<or>
     parses_as_i64 s \<or> parses_as_finite s \<or> looks_like_timestamp s"

definition use_single_quotes :: "bool \<Rightarrow> utext \<Rightarrow> bool" where
  "use_single_quotes prefer_double_quotes s \<longleftrightarrow>
     \<not> needs_escaping s \<and> \<not> looks_like_other_type s \<and> \<not> prefer_double_quotes"

definition double_single_quotes :: "utext \<Rightarrow> utext" where
  "double_single_quotes s = concat (map (\<lambda>c. if c = 39 then [39, 39] else [c]) s)"

definition write_quoted :: "bool \<Rightarrow> utext \<Rightarrow> utext" where
  "write_quoted prefer_double_quotes s =
     (if use_single_quotes prefer_double_quotes s then [39] @ double_single_quotes s @ [39]
      else [34] @ escaped s @ [34])"

section \<open>Wrapping\<close>

definition next_is_space :: "utext \<Rightarrow> bool" where
  "next_is_space rest \<longleftrightarrow> rest \<noteq> [] \<and> hd rest = 32"

fun wrap_single :: "nat \<Rightarrow> nat \<Rightarrow> bool \<Rightarrow> nat \<Rightarrow> bool \<Rightarrow> utext \<Rightarrow> utext" where
  "wrap_single indent wrap_col first column spaces [] = []"
| "wrap_single indent wrap_col first column spaces (ch # rest) =
     (if ch = 32 then
        (if \<not> spaces \<and> column > wrap_col \<and> \<not> first \<and> rest \<noteq> [] \<and> \<not> next_is_space rest
         then 10 # replicate indent 32 @ wrap_single indent wrap_col False indent True rest
         else 32 # wrap_single indent wrap_col False (column + 1) True rest)
      else if ch = 39 then 39 # 39 # wrap_single indent wrap_col False (column + 2) False rest
      else ch # wrap_single indent wrap_col False (column + 1) False rest)"

fun wrap_double :: "nat \<Rightarrow> nat \<Rightarrow> bool \<Rightarrow> nat \<Rightarrow> bool \<Rightarrow> utext \<Rightarrow> utext" where
  "wrap_double indent wrap_col first column spaces [] = []"
| "wrap_double indent wrap_col first column spaces (ch # rest) =
     (if ch = 32 then
        (if \<not> spaces \<and> column > wrap_col \<and> \<not> first \<and> rest \<noteq> []
         then 10 # replicate indent 32 @
           (if next_is_space rest then 92 # wrap_double indent wrap_col False (indent + 1) True rest
            else wrap_double indent wrap_col False indent True rest)
         else 32 # wrap_double indent wrap_col False (column + 1) True rest)
      else ch # wrap_double indent wrap_col False (column + 1) False rest)"

definition write_quoted_with_wrap :: "bool \<Rightarrow> utext \<Rightarrow> nat \<Rightarrow> nat \<Rightarrow> nat \<Rightarrow> utext" where
  "write_quoted_with_wrap prefer_double_quotes s continuation_indent wrap_col first_line_offset =
     (if use_single_quotes prefer_double_quotes s
      then [39] @ wrap_single continuation_indent wrap_col True (first_line_offset + 1) False s @ [39]
      else [34] @ wrap_double continuation_indent wrap_col True (first_line_offset + 1) False (escaped s) @ [34])"

function wrap_plain :: "nat \<Rightarrow> nat \<Rightarrow> nat \<Rightarrow> bool \<Rightarrow> utext \<Rightarrow> utext" where
  "wrap_plain indent wrap_col column spaces [] = []"
| "wrap_plain indent wrap_col column spaces (c # rest) =
     (if c = 32 then
        (if \<not> spaces \<and> column > wrap_col \<and> \<not> next_is_space rest
         then 10 # replicate indent 32 @ wrap_plain indent wrap_col indent spaces (dropWhile (\<lambda>d. d = 32) rest)
         else c # wrap_plain indent wrap_col (column + 1) True rest)
      else c # wrap_plain indent wrap_col (column + 1) False rest)"
  by pat_completeness auto
termination
  by (relation "measure (\<lambda>(_, _, _, _, s). length s)") (auto intro: le_imp_less_Suc length_dropWhile_le)

definition write_plain_with_wrap :: "utext \<Rightarrow> nat \<Rightarrow> nat \<Rightarrow> nat \<Rightarrow> utext" where
  "write_plain_with_wrap s continuation_indent wrap_col first_line_offset =
     wrap_plain continuation_indent wrap_col first_line_offset False s"

section \<open>Keys\<close>

text \<open>\<open>scalar_key_to_string\<close> of a string, and the quotes \<open>serialize_key\<close> adds.\<close>

definition key_escape_char :: "int \<Rightarrow> utext" where
  "key_escape_char c =
     (if c = 92 then [92, 92] else if c = 34 then [92, 34] else if c = 10 then [92, 110]
      else if c = 13 then [92, 114] else if c = 9 then [92, 116]
      else if is_control c then 92 # 117 # hex_pad 4 c
      else [c])"

definition scalar_key_to_string :: "utext \<Rightarrow> utext" where
  "scalar_key_to_string v =
     (if is_plain_safe v then v
      else if \<not> list_ex (\<lambda>c. is_control c \<or>
                 c \<in> {10, 13, 9, 0, 7, 8, 11, 12, 27, 0xFEFF, 0x85, 0x2028, 0x2029}) v \<and>
              \<not> (v = [] \<or> v = lit ''~'' \<or> eq_ignore_ascii_case v (lit ''null'') \<or>
                 eq_ignore_ascii_case v (lit ''true'') \<or> eq_ignore_ascii_case v (lit ''false''))
      then [39] @ double_single_quotes v @ [39]
      else [34] @ concat (map key_escape_char v) @ [34])"

definition key_should_quote :: "bool \<Rightarrow> bool \<Rightarrow> utext \<Rightarrow> bool" where
  "key_should_quote quote_numeric_strings quote_ambiguous_keys t \<longleftrightarrow>
     (quote_numeric_strings \<and> looks_like_number t) \<or> (quote_ambiguous_keys \<and> looks_like_ambiguous_boolean t)"

definition key_text :: "bool \<Rightarrow> bool \<Rightarrow> utext \<Rightarrow> utext" where
  "key_text quote_numeric_strings quote_ambiguous_keys t =
     (if key_should_quote quote_numeric_strings quote_ambiguous_keys t then [34] @ t @ [34] else t)"

section \<open>Raw scalars\<close>

definition validate_raw_plain_scalar :: "utext \<Rightarrow> string + unit" where
  "validate_raw_plain_scalar value =
     (if value = [] then Inl ''raw scalar must not be empty''
      else if trim value \<noteq> value then Inl ''raw scalar must not have leading or trailing whitespace''
      else if value = lit ''---'' \<or> value = lit ''...'' then Inl ''raw scalar must not be a YAML document marker''
      else if list_ex (\<lambda>c. is_control c \<or> c \<in> {0x85, 0x2028, 0x2029} \<or> c \<in> set (lit ''[]{},'')) value
      then Inl ''raw scalar contains characters unsafe in a flow scalar''
      else if has_substring (lit '': '') value \<or> has_substring (lit '' #'') value \<or>
              List.last value = of_char CHR '':''
      then Inl ''raw scalar contains YAML mapping or comment syntax''
      else
        (let bytes = utf8 value; first = bytes ! 0
         in if first \<in> set (lit ''#&*!|>'') \<or> first = 39 \<or> first = 34 \<or> first \<in> set (lit ''%@`'')
            then Inl ''raw scalar begins with a YAML indicator''
            else if first \<in> set (lit ''-?:'') \<and> (length bytes = 1 \<or> is_ascii_whitespace (bytes ! 1))
            then Inl ''raw scalar begins with a reserved YAML indicator''
            else Inr ()))"

section \<open>Go's scientific notation\<close>

text \<open>
  \<open>write_go_scientific\<close> rearranges the shortest decimal text of a non-zero number, which the
  formatting library gives.
\<close>

definition strip_minus :: "utext \<Rightarrow> utext \<times> utext" where
  "strip_minus t = (case t of c # r \<Rightarrow> if c = 45 then ([45], r) else ([], t) | [] \<Rightarrow> ([], []))"

definition parse_i32_or_0 :: "utext \<Rightarrow> int" where
  "parse_i32_or_0 t =
     (let (negative, ds) = (case t of c # r \<Rightarrow> if c = 45 then (True, r) else if c = 43 then (False, r) else (False, t)
                            | [] \<Rightarrow> (False, []))
      in if ds \<noteq> [] \<and> list_all is_ascii_digit ds \<and> digits_value ds < 2 ^ 31 + (if negative then 1 else 0)
         then (if negative then - digits_value ds else digits_value ds) else 0)"

text \<open>\<open>split_once\<close> at the first character that satisfies a predicate.\<close>

definition split_at_char :: "(int \<Rightarrow> bool) \<Rightarrow> utext \<Rightarrow> (utext \<times> utext) option" where
  "split_at_char p t =
     (case dropWhile (\<lambda>c. \<not> p c) t of [] \<Rightarrow> None | _ # after \<Rightarrow> Some (takeWhile (\<lambda>c. \<not> p c) t, after))"

text \<open>Decimal digits of a number that is not negative.\<close>

function decimal :: "int \<Rightarrow> utext" where
  "decimal n = (if n < 10 then [48 + n] else decimal (n div 10) @ [48 + n mod 10])"
  by pat_completeness auto
termination by (relation "measure nat") auto

declare decimal.simps [simp del]

definition write_go_scientific_text :: "utext \<Rightarrow> utext" where
  "write_go_scientific_text formatted =
     (let (sign, shortest) = strip_minus formatted;
          (mantissa, exponent) =
            (case split_at_char (\<lambda>c. c = 101 \<or> c = 69) shortest of
               Some (m, e) \<Rightarrow> (m, parse_i32_or_0 e) | None \<Rightarrow> (shortest, 0));
          (integer, fraction) =
            (case split_at_char (\<lambda>c. c = 46) mantissa of Some (i, f) \<Rightarrow> (i, f) | None \<Rightarrow> (mantissa, []));
          digits = integer @ fraction;
          point = int (length integer) + exponent;
          leading = length (takeWhile (\<lambda>c. c = 48) digits);
          digits = drop leading digits;
          point = point - int leading;
          trailing = length (takeWhile (\<lambda>c. c = 48) (rev digits));
          digits = take (length digits - trailing) digits;
          exponent = point - 1;
          magnitude = decimal \<bar>exponent\<bar>
      in sign @ take 1 digits @ (if length digits > 1 then 46 # drop 1 digits else []) @
         [101, if exponent < 0 then 45 else 43] @ replicate (2 - length magnitude) 48 @ magnitude)"

end
