(* ===== verification/Yaml_Reader.thy ===== *)
theory Yaml_Reader
  imports Yaml_Scalars
begin

text \<open>
  A reference reader of YAML 1.2 flow scalars, written from the YAML specification and not from the
  program: escapes (5.7), line folding (6.5), the double-quoted, single-quoted and plain styles
  (7.3). What \<open>Yaml_Scalars\<close> writes is read back with it.
\<close>

section \<open>The reader\<close>

definition is_blank :: "int \<Rightarrow> bool" where
  "is_blank c \<longleftrightarrow> c = 32 \<or> c = 9"

definition skip_blanks :: "utext \<Rightarrow> utext" where
  "skip_blanks t = dropWhile is_blank t"

lemma skip_blanks_length [termination_simp]: "length (skip_blanks t) \<le> length t"
  by (simp add: skip_blanks_def length_dropWhile_le)

lemma skip_blanks_Cons:
  "skip_blanks (c # t) = (if is_blank c then skip_blanks t else c # t)"
  by (simp add: skip_blanks_def)

definition at_break :: "utext \<Rightarrow> bool" where
  "at_break t = (case skip_blanks t of c # _ \<Rightarrow> c = 10 | [] \<Rightarrow> False)"

text \<open>The number of empty lines after a line break, and the text from the next content on.\<close>

function empty_lines :: "utext \<Rightarrow> nat \<times> utext" where
  "empty_lines t =
     (case skip_blanks t of
        c # r \<Rightarrow> if c = 10 then (let (n, rest) = empty_lines r in (Suc n, rest)) else (0, c # r)
      | [] \<Rightarrow> (0, []))"
  by pat_completeness auto
termination
proof (relation "measure length")
  fix t c r assume "skip_blanks t = c # r" "c = 10"
  then show "(r, t) \<in> measure length" using skip_blanks_length [of t] by simp
qed simp

declare empty_lines.simps [simp del]

lemma empty_lines_length: "length (snd (empty_lines t)) \<le> length t"
proof (induction t rule: empty_lines.induct)
  case (1 t)
  then show ?case using skip_blanks_length [of t]
    by (subst empty_lines.simps) (auto split: list.splits prod.splits)
qed

definition folded_break :: "nat \<Rightarrow> utext" where
  "folded_break n = (if n = 0 then [32] else replicate n 10)"

definition hex_number :: "nat \<Rightarrow> utext \<Rightarrow> (int \<times> utext) option" where
  "hex_number w t =
     (let ds = map digit_value (take w t)
      in if length ds = w \<and> list_all (\<lambda>d. d \<noteq> None) ds
         then Some (foldl (\<lambda>n d. 16 * n + the d) 0 ds, drop w t) else None)"

definition plain_escapes :: "(int \<times> int) list" where
  "plain_escapes =
     [(48, 0), (97, 7), (98, 8), (116, 9), (110, 10), (118, 11), (102, 12), (114, 13), (101, 27), (32, 32),
      (34, 34), (92, 92), (78, 0x85), (76, 0x2028), (80, 0x2029)]"

text \<open>After a backslash.\<close>

definition read_escape :: "utext \<Rightarrow> (int \<times> utext) option" where
  "read_escape t =
     (case t of
        [] \<Rightarrow> None
      | c # r \<Rightarrow>
          (if c = 120 then hex_number 2 r else if c = 117 then hex_number 4 r else if c = 85 then hex_number 8 r
           else map_option (\<lambda>d. (d, r)) (map_of plain_escapes c)))"

lemma read_escape_length: "read_escape t = Some (c, r) \<Longrightarrow> length r < length t"
  by (auto simp: read_escape_def hex_number_def Let_def split: list.splits if_splits)

definition cons_value :: "utext \<Rightarrow> (utext \<times> utext) option \<Rightarrow> (utext \<times> utext) option" where
  "cons_value v r = map_option (\<lambda>(s, rest). (v @ s, rest)) r"

lemma cons_value_simps [simp]:
  "cons_value v None = None"
  "cons_value v (Some (s, rest)) = Some (v @ s, rest)"
  by (simp_all add: cons_value_def)

text \<open>The rest of a double-quoted scalar after its opening quote: its value, and what follows it.\<close>

function read_double :: "utext \<Rightarrow> (utext \<times> utext) option" where
  "read_double [] = None"
| "read_double (c # t) =
     (if c = 34 then Some ([], t)
      else if c = 92 then (case read_escape t of None \<Rightarrow> None | Some (d, r) \<Rightarrow> cons_value [d] (read_double r))
      else if c = 10 then (let (n, r) = empty_lines t in cons_value (folded_break n) (read_double r))
      else if is_blank c \<and> at_break t then read_double t
      else cons_value [c] (read_double t))"
  by pat_completeness auto
termination
  by (relation "measure length") (auto dest: read_escape_length simp: less_Suc_eq_le, metis empty_lines_length snd_conv)

text \<open>A single-quoted scalar; a doubled quote stands for one.\<close>

function read_single :: "utext \<Rightarrow> (utext \<times> utext) option" where
  "read_single [] = None"
| "read_single (c # t) =
     (if c = 39 then
        (case t of d # r \<Rightarrow> if d = 39 then cons_value [39] (read_single r) else Some ([], t) | [] \<Rightarrow> Some ([], []))
      else if c = 10 then (let (n, r) = empty_lines t in cons_value (folded_break n) (read_single r))
      else if is_blank c \<and> at_break t then read_single t
      else cons_value [c] (read_single t))"
  by pat_completeness auto
termination
  by (relation "measure length") (auto simp: less_Suc_eq_le, metis empty_lines_length snd_conv)

text \<open>
  A plain scalar in block context: it ends before a comment, which starts after white space, before
  a colon that white space follows, and with the text.
\<close>

function read_plain :: "utext \<Rightarrow> (utext \<times> utext) option" where
  "read_plain [] = Some ([], [])"
| "read_plain (c # t) =
     (if c = 10 then
        (let (n, r) = empty_lines t
         in if r = [] \<or> hd r = 35 then Some ([], c # t) else cons_value (folded_break n) (read_plain r))
      else if c = 58 \<and> (t = [] \<or> is_blank (hd t) \<or> hd t = 10) then Some ([], c # t)
      else if is_blank c then
        (case skip_blanks t of
           [] \<Rightarrow> Some ([], [])
         | d # r \<Rightarrow>
             if d = 10 then read_plain t
             else if d = 35 then Some ([], c # t)
             else cons_value [c] (read_plain t))
      else cons_value [c] (read_plain t))"
  by pat_completeness auto
termination
  by (relation "measure length") (auto simp: less_Suc_eq_le, metis empty_lines_length snd_conv)

definition read_scalar :: "utext \<Rightarrow> (utext \<times> utext) option" where
  "read_scalar t =
     (case t of
        [] \<Rightarrow> None
      | c # r \<Rightarrow> if c = 34 then read_double r else if c = 39 then read_single r else read_plain t)"

section \<open>Reading what was written\<close>

lemma hex_digit_value: "0 \<le> d \<Longrightarrow> d < 16 \<Longrightarrow> digit_value (hex_digit d) = Some d"
  by (auto simp: digit_value_def hex_digit_def is_ascii_digit_def)

lemma hex_pad_length [simp]: "length (hex_pad w n) = w"
  by (induction w n rule: hex_pad.induct) auto

lemma hex_pad_digits: "list_all (\<lambda>d. d \<noteq> None) (map digit_value (hex_pad w n))"
  by (induction w n rule: hex_pad.induct) (auto simp: hex_digit_value)

lemma hex_pad_value: "0 \<le> n \<Longrightarrow> n < 16 ^ w \<Longrightarrow> foldl (\<lambda>n d. 16 * n + the d) 0 (map digit_value (hex_pad w n)) = n"
  by (induction w n rule: hex_pad.induct) (auto simp: hex_digit_value less_mult_imp_div_less)

lemma hex_number_pad: "0 \<le> n \<Longrightarrow> n < 16 ^ w \<Longrightarrow> hex_number w (hex_pad w n @ t) = Some (n, t)"
  using hex_pad_digits [of w n] hex_pad_value [of n w] by (simp add: hex_number_def)

lemma hex_pad_nonspace: "c \<in> set (hex_pad w n) \<Longrightarrow> c \<noteq> 32"
  by (induction w n rule: hex_pad.induct) (auto simp: hex_digit_def split: if_splits)

text \<open>The three shapes of an escape.\<close>

lemma escape_char_cases:
  obtains (named) e where "map_of named_escapes c = Some e" "escape_char c = e"
  | (hex) k w where "escape_char c = 92 # k # hex_pad w c" "(k, w) \<in> {(120, 2), (117, 4), (85, 8)}"
      "c \<ge> 0x10000 \<Longrightarrow> w = 8" "c > 0xFF \<Longrightarrow> w > 2"
  | (plain) "escape_char c = [c]" "\<not> is_control c" "c \<noteq> 34" "c \<noteq> 92"
proof (cases "map_of named_escapes c")
  case None
  then have quotes: "c \<noteq> 34" "c \<noteq> 92" by (auto simp: named_escapes_def split: if_splits)
  let ?ctl = "is_control c \<or> (0x7F \<le> c \<and> c \<le> 0x9F)"
  have high: "\<not> ?ctl" if "c > 0xFF" using that by (simp add: is_control_def)
  consider "c \<le> 0xFF" "?ctl" | "c \<ge> 0x10000" | "c < 0x10000" "\<not> ?ctl" using high by linarith
  then show ?thesis
  proof cases
    case 1
    then have "escape_char c = 92 # 120 # hex_pad 2 c" using None by (simp add: escape_char_def)
    then show ?thesis using 1 by (intro hex [of 120 2]) auto
  next
    case 2
    then have "escape_char c = 92 # 85 # hex_pad 8 c" using None by (simp add: escape_char_def)
    then show ?thesis by (intro hex [of 85 8]) auto
  next
    case 3
    then have "escape_char c = [c]" using None by (simp add: escape_char_def)
    then show ?thesis using 3(2) quotes by (intro plain) auto
  qed
next
  case (Some e)
  then show ?thesis by (intro named [of e]) (simp_all add: escape_char_def)
qed

lemma named_escapes_read:
  assumes "map_of named_escapes c = Some e"
  shows "\<exists>d r. e = 92 # d # r \<and> read_escape (d # r @ t) = Some (c, t) \<and> 32 \<notin> set e"
proof -
  have "(c, e) \<in> set named_escapes" using assms by (rule map_of_SomeD)
  then show ?thesis unfolding named_escapes_def
    by (simp only: list.set insert_iff empty_iff prod.inject)
      (elim disjE conjE FalseE; simp add: read_escape_def plain_escapes_def hex_number_def digit_value_def is_ascii_digit_def)
qed

lemma escape_char_read:
  assumes "0 \<le> c" "c < 0x110000" "c \<noteq> 32"
  shows "read_double (escape_char c @ t) = cons_value [c] (read_double t)"
proof (cases c rule: escape_char_cases)
  case (named e)
  then show ?thesis using named_escapes_read [OF named(1), of t] by auto
next
  case (hex k w)
  have "c < 16 ^ w"
  proof (cases "c \<ge> 0x10000")
    case True then show ?thesis using hex(3) assms(2) by simp
  next
    case False then show ?thesis using hex(2,4) by (cases "c > 0xFF") auto
  qed
  with assms(1) have "read_escape (k # hex_pad w c @ t) = Some (c, t)"
    using hex(2) hex_number_pad [of c w t] by (auto simp: read_escape_def)
  then show ?thesis using hex(1) by simp
next
  case plain
  then show ?thesis using assms(3) by (auto simp: is_blank_def is_control_def)
qed

lemma escape_char_head:
  assumes "c \<noteq> 32"
  shows "\<exists>d r. escape_char c = d # r \<and> \<not> is_blank d \<and> d \<noteq> 10 \<and> 32 \<notin> set (escape_char c)"
proof (cases c rule: escape_char_cases)
  case (named e)
  then show ?thesis using named_escapes_read [OF named(1), of "[]"] by (auto simp: is_blank_def)
next
  case (hex k w)
  then show ?thesis using hex_pad_nonspace [of 32 w c] by (auto simp: is_blank_def)
next
  case plain
  then show ?thesis using assms by (auto simp: is_blank_def is_control_def)
qed

lemma escape_space [simp]: "escape_char 32 = [32]"
  by (simp add: escape_char_def named_escapes_def is_control_def)

lemma escaped_Nil [simp]: "escaped [] = []"
  and escaped_Cons [simp]: "escaped (c # s) = escape_char c @ escaped s"
  by (simp_all add: escaped_def)

lemma escaped_eq_Nil [simp]: "escaped s = [] \<longleftrightarrow> s = []"
  by (cases s; cases "hd s = 32") (auto dest: escape_char_head)

lemma next_is_space_escaped [simp]: "next_is_space (escaped s) \<longleftrightarrow> next_is_space s"
  by (cases s; cases "hd s = 32") (auto simp: next_is_space_def is_blank_def dest!: escape_char_head)

lemma at_break_Cons: "at_break (c # t) \<longleftrightarrow> (if is_blank c then at_break t else c = 10)"
  by (simp add: at_break_def skip_blanks_Cons)

lemma at_break_simps [simp]:
  "at_break (32 # t) = at_break t"
  "\<not> is_blank c \<Longrightarrow> at_break (c # t) \<longleftrightarrow> c = 10"
  by (auto simp: at_break_def skip_blanks_Cons is_blank_def)

lemma skip_blanks_indent [simp]: "skip_blanks (replicate n 32 @ t) = skip_blanks t"
  by (induction n) (auto simp: skip_blanks_Cons is_blank_def)

lemma empty_lines_indent:
  "\<not> is_blank c \<Longrightarrow> c \<noteq> 10 \<Longrightarrow> empty_lines (replicate n 32 @ c # t) = (0, c # t)"
  by (simp add: empty_lines.simps [of "replicate n 32 @ c # t"] skip_blanks_Cons)

lemma read_double_break:
  assumes "\<not> is_blank c" "c \<noteq> 10"
  shows "read_double (10 # replicate n 32 @ c # t) = cons_value [32] (read_double (c # t))"
  unfolding read_double.simps(2) [of 10] empty_lines_indent [OF assms] by (simp add: folded_break_def del: read_double.simps)

subsection \<open>Double-quoted\<close>

lemma wrap_double_word:
  "32 \<notin> set xs \<Longrightarrow> xs \<noteq> [] \<Longrightarrow>
   wrap_double indent w first column spaces (xs @ rest) = xs @ wrap_double indent w False (column + length xs) False rest"
proof (induction xs arbitrary: first column spaces)
  case (Cons x xs)
  then show ?case by (cases xs) auto
qed simp

lemma wrap_double_escape:
  assumes "c \<noteq> 32"
  shows "wrap_double indent w first column spaces (escape_char c @ rest) =
    escape_char c @ wrap_double indent w False (column + length (escape_char c)) False rest"
  using escape_char_head [OF assms] by (intro wrap_double_word) auto

lemma wrap_double_spaces: "\<not> at_break (wrap_double indent w first column True (escaped s) @ 34 # rest)"
proof (induction s arbitrary: first column)
  case (Cons c s)
  show ?case
  proof (cases "c = 32")
    case False
    then obtain d r where d: "escape_char c = d # r" "\<not> is_blank d" "d \<noteq> 10" using escape_char_head by blast
    then have "d \<noteq> 32" by (auto simp: is_blank_def)
    with d show ?thesis by (simp add: wrap_double_escape [OF False])
  qed (simp add: Cons.IH)
qed (simp add: is_blank_def)

lemma read_wrap_double:
  "list_all (\<lambda>c. 0 \<le> c \<and> c < 0x110000) s \<Longrightarrow>
   read_double (wrap_double indent w first column spaces (escaped s) @ 34 # rest) = Some (s, rest)"
proof (induction s arbitrary: first column spaces)
  case (Cons c s)
  then have c: "0 \<le> c" "c < 0x110000" and "list_all (\<lambda>c. 0 \<le> c \<and> c < 0x110000) s" by simp_all
  note IH = Cons.IH [OF this(3)]
  show ?case
  proof (cases "c = 32")
    case False
    then show ?thesis using escape_char_read [OF c False] IH by (simp add: wrap_double_escape)
  next
    case True
    show ?thesis
    proof (cases "\<not> spaces \<and> column > w \<and> \<not> first \<and> s \<noteq> []")
      case False
      then show ?thesis using True wrap_double_spaces [of indent w False "column + 1" s rest] IH
        by (auto simp: is_blank_def)
    next
      case br: True
      then obtain d s' where s: "s = d # s'" by (cases s) auto
      show ?thesis
      proof (cases "d = 32")
        case d: True
        define t where "t = wrap_double indent w False (indent + 1) True (escaped s) @ 34 # rest"
        have "read_double (92 # t) = read_double t"
          using s d wrap_double_spaces [of indent w False "indent + 2" s' rest]
          by (simp add: t_def read_escape_def plain_escapes_def is_blank_def)
        also have "\<dots> = Some (s, rest)" unfolding t_def by (rule IH)
        finally have "read_double (10 # replicate indent 32 @ 92 # t) = Some (32 # s, rest)"
          by (simp add: read_double_break is_blank_def del: read_double.simps)
        moreover have "next_is_space (escaped s)"
          unfolding next_is_space_escaped using s d by (simp add: next_is_space_def)
        ultimately show ?thesis using True br by (simp add: t_def del: read_double.simps next_is_space_escaped)
      next
        case d: False
        then obtain e r where e: "escape_char d = e # r" "\<not> is_blank e" "e \<noteq> 10"
          using escape_char_head by blast
        define t where "t = wrap_double indent w False indent True (escaped s) @ 34 # rest"
        have t: "t = e # (r @ wrap_double indent w False (indent + length (escape_char d)) False (escaped s') @ 34 # rest)"
          using s e(1) wrap_double_escape [OF d, of indent w False indent True "escaped s'"] by (simp add: t_def)
        have "read_double t = Some (s, rest)" unfolding t_def by (rule IH)
        then have "read_double (10 # replicate indent 32 @ t) = Some (32 # s, rest)"
          unfolding t by (simp add: read_double_break [OF e(2,3)] del: read_double.simps)
        moreover have "\<not> next_is_space (escaped s)"
          unfolding next_is_space_escaped using s d by (simp add: next_is_space_def)
        ultimately show ?thesis using True br by (simp add: t_def del: read_double.simps next_is_space_escaped)
      qed
    qed
  qed
qed simp

lemma read_escaped: "list_all (\<lambda>c. 0 \<le> c \<and> c < 0x110000) s \<Longrightarrow> read_double (escaped s @ 34 # rest) = Some (s, rest)"
proof (induction s)
  case (Cons c s)
  have "\<not> at_break (escaped s @ 34 # rest)"
  proof (induction s)
    case (Cons d s)
    then show ?case by (cases "d = 32") (auto dest!: escape_char_head [of d])
  qed (simp add: is_blank_def)
  with Cons show ?case by (cases "c = 32") (auto simp: escape_char_read is_blank_def)
qed simp

subsection \<open>Single-quoted\<close>

lemma wrap_single_spaces:
  "10 \<notin> set s \<Longrightarrow> 9 \<notin> set s \<Longrightarrow> \<not> at_break (wrap_single indent w first column True s @ 39 # rest)"
  by (induction s arbitrary: first column) (auto simp: is_blank_def)

lemma read_single_break:
  assumes "\<not> is_blank c" "c \<noteq> 10"
  shows "read_single (10 # replicate n 32 @ c # t) = cons_value [32] (read_single (c # t))"
  unfolding read_single.simps(2) [of 10] empty_lines_indent [OF assms] by (simp add: folded_break_def del: read_single.simps)

lemma read_wrap_single:
  assumes "10 \<notin> set s" "9 \<notin> set s" "rest = [] \<or> hd rest \<noteq> 39"
  shows "read_single (wrap_single indent w first column spaces s @ 39 # rest) = Some (s, rest)"
  using assms(1,2)
proof (induction s arbitrary: first column spaces)
  case Nil
  then show ?case using assms(3) by (cases rest) auto
next
  case (Cons c s)
  then have s: "10 \<notin> set s" "9 \<notin> set s" by auto
  note IH = Cons.IH [OF s]
  show ?case
  proof (cases "c = 32 \<and> \<not> spaces \<and> column > w \<and> \<not> first \<and> s \<noteq> [] \<and> \<not> next_is_space s")
    case True
    then obtain d s' where d: "s = d # s'" "d \<noteq> 32" by (cases s) (auto simp: next_is_space_def)
    define t where "t = wrap_single indent w False indent True s @ 39 # rest"
    have "\<exists>e r. t = e # r \<and> \<not> is_blank e \<and> e \<noteq> 10" using d s by (auto simp: t_def is_blank_def)
    then have "read_single (10 # replicate indent 32 @ t) = cons_value [32] (read_single t)"
      using read_single_break by blast
    then show ?thesis using True IH [of False indent True] by (simp add: t_def del: read_single.simps)
  next
    case False
    then show ?thesis
      using Cons.prems wrap_single_spaces [OF s, of indent w False "column + 1" rest] IH by (auto simp: is_blank_def)
  qed
qed

lemma read_double_single_quotes:
  assumes "10 \<notin> set s" "9 \<notin> set s" "rest = [] \<or> hd rest \<noteq> 39"
  shows "read_single (double_single_quotes s @ 39 # rest) = Some (s, rest)"
  using assms(1,2)
proof (induction s)
  case Nil
  then show ?case using assms(3) by (cases rest) (auto simp: double_single_quotes_def)
next
  case (Cons c s)
  have "\<not> at_break (double_single_quotes s @ 39 # rest)"
    using Cons.prems by (induction s) (auto simp: double_single_quotes_def at_break_Cons is_blank_def)
  with Cons show ?case by (auto simp: double_single_quotes_def is_blank_def)
qed

subsection \<open>Plain\<close>

text \<open>What a plain scalar must not hold, on top of not starting like another kind of node.\<close>

definition plain_text :: "utext \<Rightarrow> bool" where
  "plain_text s \<longleftrightarrow>
     s \<noteq> [] \<and> 10 \<notin> set s \<and> 9 \<notin> set s \<and> List.last s \<noteq> 32 \<and> List.last s \<noteq> 58 \<and>
     \<not> has_substring [58, 32] s \<and> \<not> has_substring [32, 35] s"

lemma has_substring_Cons2:
  "has_substring [a, b] (c # s) \<longleftrightarrow> (s \<noteq> [] \<and> a = c \<and> b = hd s) \<or> has_substring [a, b] s"
  by (cases s) (auto simp: has_substring_def split: option.splits prod.splits)

lemma plain_text_Cons:
  "plain_text (c # s) \<Longrightarrow> s \<noteq> [] \<Longrightarrow>
     plain_text s \<and> c \<noteq> 10 \<and> c \<noteq> 9 \<and> hd s \<noteq> 10 \<and> hd s \<noteq> 9 \<and> (c = 58 \<longrightarrow> hd s \<noteq> 32) \<and> (c = 32 \<longrightarrow> hd s \<noteq> 35)"
  by (cases s) (auto simp: plain_text_def has_substring_Cons2)

lemma read_plain_break:
  assumes "\<not> is_blank c" "c \<noteq> 10" "c \<noteq> 35"
  shows "read_plain (32 # 10 # replicate n 32 @ c # t) = cons_value [32] (read_plain (c # t))"
    and "read_plain (10 # replicate n 32 @ c # t) = cons_value [32] (read_plain (c # t))"
proof -
  show br: "read_plain (10 # replicate n 32 @ c # t) = cons_value [32] (read_plain (c # t))"
    unfolding read_plain.simps(2) [of 10] empty_lines_indent [OF assms(1,2)]
    using assms(3) by (simp add: folded_break_def del: read_plain.simps)
  show "read_plain (32 # 10 # replicate n 32 @ c # t) = cons_value [32] (read_plain (c # t))"
    unfolding read_plain.simps(2) [of 32] by (simp add: is_blank_def skip_blanks_Cons br del: read_plain.simps)
qed

text \<open>After a space that was kept, the next thing written is not a break, a comment or the end.\<close>

lemma wrap_plain_spaces:
  assumes "plain_text s" "hd s \<noteq> 35"
  shows "\<exists>d r. skip_blanks (wrap_plain indent w column True s) = d # r \<and> d \<noteq> 10 \<and> d \<noteq> 35"
  using assms
proof (induction s arbitrary: column)
  case (Cons c s)
  show ?case
  proof (cases "c = 32")
    case True
    then have "s \<noteq> []" using Cons.prems by (auto simp: plain_text_def)
    with Cons True plain_text_Cons [OF Cons.prems(1)] show ?thesis by (simp add: skip_blanks_Cons is_blank_def)
  next
    case False
    then show ?thesis using Cons.prems by (auto simp: skip_blanks_Cons is_blank_def plain_text_def)
  qed
qed (simp add: plain_text_def)

lemma wrap_plain_head:
  "s \<noteq> [] \<Longrightarrow> hd s \<noteq> 32 \<Longrightarrow> \<exists>r. wrap_plain indent w column spaces s = hd s # r"
  by (cases s) auto

lemma wrap_plain_eq_Nil [simp]: "wrap_plain indent w column spaces s = [] \<longleftrightarrow> s = []"
  by (cases s) auto

lemma read_wrap_plain:
  assumes "plain_text s"
  shows "read_plain (wrap_plain indent w column spaces s) = Some (s, [])"
  using assms
proof (induction indent w column spaces s rule: wrap_plain.induct)
  case (2 indent w column spaces c s)
  show ?case
  proof (cases "s = []")
    case True
    then show ?thesis using 2(4) by (auto simp: plain_text_def is_blank_def)
  next
    case False
    note s = plain_text_Cons [OF 2(4) False]
    show ?thesis
    proof (cases "c = 32 \<and> \<not> spaces \<and> column > w \<and> \<not> next_is_space s")
      case True
      then have hd: "hd s \<noteq> 32" and drop: "dropWhile (\<lambda>d. d = 32) s = s"
        using False by (auto simp: next_is_space_def dropWhile_eq_self_iff)
      obtain r where r: "wrap_plain indent w indent spaces s = hd s # r" using wrap_plain_head [OF False hd] by blast
      have "read_plain (hd s # r) = Some (s, [])"
        using 2(1) True s unfolding drop r by blast
      moreover have "\<not> is_blank (hd s)" "hd s \<noteq> 10" "hd s \<noteq> 35" using True s hd by (auto simp: is_blank_def)
      ultimately show ?thesis using True using r by (auto simp: drop read_plain_break(2) simp del: read_plain.simps)
    next
      case keep: False
      show ?thesis
      proof (cases "c = 32")
        case True
        have "read_plain (wrap_plain indent w (column + 1) True s) = Some (s, [])" using 2(2) keep True s by blast
        moreover obtain d r where "skip_blanks (wrap_plain indent w (column + 1) True s) = d # r" "d \<noteq> 10" "d \<noteq> 35"
          using wrap_plain_spaces s True by blast
        ultimately show ?thesis using keep True by (auto simp: is_blank_def)
      next
        case c: False
        have IH: "read_plain (wrap_plain indent w (column + 1) False s) = Some (s, [])" using 2(3) c s by blast
        have "hd (wrap_plain indent w (column + 1) False s) = hd s" if "c = 58"
          using wrap_plain_head [OF False, of indent w "column + 1" False] s that by auto
        then have "\<not> (c = 58 \<and> (wrap_plain indent w (column + 1) False s = [] \<or>
            is_blank (hd (wrap_plain indent w (column + 1) False s)) \<or> hd (wrap_plain indent w (column + 1) False s) = 10))"
          using s False by (auto simp: is_blank_def)
        then show ?thesis using IH c s by (auto simp: is_blank_def)
      qed
    qed
  qed
qed (simp add: plain_text_def)

lemma wrap_plain_never: "w \<ge> column + length s \<Longrightarrow> wrap_plain indent w column spaces s = s"
  by (induction indent w column spaces s rule: wrap_plain.induct) auto

lemma read_plain_text: "plain_text s \<Longrightarrow> read_plain s = Some (s, [])"
  using read_wrap_plain [of s 0 "length s" 0 False] by (simp add: wrap_plain_never)

text \<open>A space before a number sign cuts a plain scalar off, wherever its lines are broken.\<close>

lemma read_plain_comment:
  assumes "10 \<notin> set s" "9 \<notin> set s" "has_substring [32, 35] s"
  shows "\<exists>x rest. read_plain (wrap_plain indent w column spaces s) = Some (x, rest) \<and> length x < length s"
  using assms
proof (induction indent w column spaces s rule: wrap_plain.induct)
  case (2 indent w column spaces c s)
  then have "s \<noteq> []" by (auto simp: has_substring_def split: if_splits)
  have s: "10 \<notin> set s" "9 \<notin> set s" "hd s \<noteq> 10" "hd s \<noteq> 9" "c \<noteq> 10" "c \<noteq> 9"
    using 2(4,5) \<open>s \<noteq> []\<close> by (cases s; auto)+
  have sub: "has_substring [32, 35] s \<or> (c = 32 \<and> hd s = 35)" using 2(6) by (auto simp: has_substring_Cons2)
  show ?case
  proof (cases "c = 32 \<and> \<not> spaces \<and> column > w \<and> \<not> next_is_space s")
    case True
    then have hd: "hd s \<noteq> 32" and drop: "dropWhile (\<lambda>d. d = 32) s = s"
      using \<open>s \<noteq> []\<close> by (auto simp: next_is_space_def dropWhile_eq_self_iff)
    obtain r where r: "wrap_plain indent w indent spaces s = hd s # r" using wrap_plain_head [OF \<open>s \<noteq> []\<close> hd] by blast
    have blank: "\<not> is_blank (hd s)" using s hd by (simp add: is_blank_def)
    show ?thesis
    proof (cases "hd s = 35")
      case hash: True
      then show ?thesis using True r empty_lines_indent [of 35 indent r] by (simp add: drop is_blank_def)
    next
      case False
      with sub have "has_substring [32, 35] s" by simp
      then obtain x rest where "read_plain (hd s # r) = Some (x, rest)" "length x < length s"
        using 2(1) True s unfolding drop r by blast
      then show ?thesis using True r read_plain_break(2) [OF blank s(3) False] by (auto simp: drop simp del: read_plain.simps)
    qed
  next
    case keep: False
    show ?thesis
    proof (cases "c = 32")
      case True
      let ?W = "wrap_plain indent w (column + 1) True s"
      have out: "wrap_plain indent w column spaces (c # s) = 32 # ?W" using keep True by auto
      show ?thesis
      proof (cases "hd s = 35")
        case hash: True
        then have "\<exists>r. ?W = 35 # r" using wrap_plain_head [OF \<open>s \<noteq> []\<close>] by simp
        then show ?thesis unfolding out by (auto simp: is_blank_def skip_blanks_Cons)
      next
        case False
        with sub have "has_substring [32, 35] s" by simp
        then obtain x rest where "read_plain ?W = Some (x, rest)" "length x < length s" using 2(2) keep True s by blast
        then show ?thesis unfolding out
          by (cases "skip_blanks ?W") (auto simp: is_blank_def)
      qed
    next
      case c: False
      with sub have "has_substring [32, 35] s" by simp
      then obtain x rest where "read_plain (wrap_plain indent w (column + 1) False s) = Some (x, rest)" "length x < length s"
        using 2(3) c s by blast
      then show ?thesis using c s by (auto simp: is_blank_def)
    qed
  qed
qed (simp add: has_substring_def)

end
