(* ===== verification/Yaml_Writer.thy ===== *)
theory Yaml_Writer
  imports Yaml_Scalars
begin

text \<open>
  The YAML writer \<open>YamlSer\<close>, \<open>crates/rtk-yaml/src/ser.rs\<close>: its options, its state, and one
  operation per method. A value is what \<open>serde\<close> hands over for JSON data and for the wrappers
  \<open>FlowSeq\<close>, \<open>FlowMap\<close>, \<open>LitStr\<close>, \<open>RawScalar\<close> and \<open>Commented\<close>; anchors, tuple structs, enums,
  bytes, folded block strings and keys that are not strings are left out, so
  \<open>pending_anchor_id\<close> is never set. Writing to a \<open>String\<close> does not fail.
\<close>

section \<open>Options\<close>

datatype chomp_indicator = Strip | Clip | Keep

record 'f serializer_options =
  indent_step :: nat
  indent_array :: "nat option"
  prefer_block_scalars :: bool
  empty_map_as_braces :: bool
  empty_array_as_brackets :: bool
  line_width :: "nat option"
  scientific_notation_threshold :: "int option"
  scientific_notation_small_threshold :: "'f option"
  legacy_scientific_notation :: bool
  go_style_negative_zero :: bool
  block_scalar_chomp :: "chomp_indicator option"
  quote_numeric_strings :: bool
  block_scalar_indent_in_seq :: "nat option"
  quote_ambiguous_keys :: bool
  prefer_double_quotes :: bool

definition default_options :: "'f serializer_options" where
  "default_options =
     \<lparr>indent_step = 2, indent_array = None, prefer_block_scalars = False, empty_map_as_braces = False,
      empty_array_as_brackets = False, line_width = None, scientific_notation_threshold = Some 1000000,
      scientific_notation_small_threshold = None, legacy_scientific_notation = False,
      go_style_negative_zero = False, block_scalar_chomp = None, quote_numeric_strings = False,
      block_scalar_indent_in_seq = None, quote_ambiguous_keys = False, prefer_double_quotes = False\<rparr>"

text \<open>The small threshold is the double \<open>0.0001\<close>.\<close>

definition tanka_v2 :: "'f \<Rightarrow> 'f serializer_options" where
  "tanka_v2 small =
     default_options\<lparr>indent_step := 2, indent_array := Some 0, prefer_block_scalars := True,
       empty_map_as_braces := True, empty_array_as_brackets := True, line_width := Some 80,
       scientific_notation_threshold := Some 1000000, scientific_notation_small_threshold := Some small,
       quote_ambiguous_keys := True, quote_numeric_strings := True, go_style_negative_zero := True\<rparr>"

definition tanka_v3 :: "'f \<Rightarrow> 'f serializer_options" where
  "tanka_v3 small =
     default_options\<lparr>indent_step := 4, indent_array := None, prefer_block_scalars := True,
       empty_map_as_braces := True, empty_array_as_brackets := True, block_scalar_indent_in_seq := Some 2,
       line_width := None, scientific_notation_threshold := Some 1000000,
       scientific_notation_small_threshold := Some small, quote_numeric_strings := True\<rparr>"

datatype yaml_error = Invalid_Options | Invalid_Raw string

definition consistent :: "'f serializer_options \<Rightarrow> yaml_error + unit" where
  "consistent opts = (if indent_step opts = 0 then Inl Invalid_Options else Inr ())"

text \<open>What the code asks of doubles and of the libraries that format them.\<close>

record 'f doubles =
  is_nan :: "'f \<Rightarrow> bool"
  is_infinite :: "'f \<Rightarrow> bool"
  is_sign_negative :: "'f \<Rightarrow> bool"
  is_zero :: "'f \<Rightarrow> bool"
  abs_at_least :: "'f \<Rightarrow> int \<Rightarrow> bool"
  abs_less :: "'f \<Rightarrow> 'f \<Rightarrow> bool"
  of_integer :: "int \<Rightarrow> 'f"
  ryu_format :: "'f \<Rightarrow> utext"
  log10_floor :: "'f \<Rightarrow> int"
  mantissa_text :: "'f \<Rightarrow> int \<Rightarrow> utext"
  whole_below_1e16 :: "'f \<Rightarrow> bool"
  format_0 :: "'f \<Rightarrow> utext"
  format_15 :: "'f \<Rightarrow> utext"

section \<open>State\<close>

datatype pending_flow = Any_Seq | Any_Map

record yaml_ser =
  out :: utext
  depth :: nat
  at_line_start :: bool
  ser_pending_flow :: "pending_flow option"
  in_flow :: nat
  pending_literal :: bool
  pending_inline_comment :: "utext option"
  pending_inline_map :: bool
  pending_space_after_colon :: bool
  inline_map_after_dash :: bool
  after_dash_depth :: "nat option"
  inline_dash_count :: nat
  current_map_depth :: "nat option"
  indent_offset :: nat
  last_key_len :: nat
  at_direct_seq_item :: bool

definition ser_new :: yaml_ser where
  "ser_new =
     \<lparr>out = [], depth = 0, at_line_start = True, ser_pending_flow = None, in_flow = 0, pending_literal = False,
      pending_inline_comment = None, pending_inline_map = False, pending_space_after_colon = False,
      inline_map_after_dash = False, after_dash_depth = None, inline_dash_count = 0, current_map_depth = None,
      indent_offset = 0, last_key_len = 0, at_direct_seq_item = False\<rparr>"

section \<open>Helpers\<close>

definition write_str :: "utext \<Rightarrow> yaml_ser \<Rightarrow> yaml_ser" where
  "write_str t s = s\<lparr>out := out s @ t\<rparr>"

definition newline :: "yaml_ser \<Rightarrow> yaml_ser" where
  "newline s = (write_str [10] s)\<lparr>at_line_start := True\<rparr>"

definition write_end_of_scalar :: "yaml_ser \<Rightarrow> yaml_ser" where
  "write_end_of_scalar s =
     (if in_flow s = 0 then
        newline (case pending_inline_comment s of
                   Some c \<Rightarrow> write_str (lit '' # '' @ c) (s\<lparr>pending_inline_comment := None\<rparr>)
                 | None \<Rightarrow> s)
      else s)"

definition write_space_if_pending :: "yaml_ser \<Rightarrow> yaml_ser" where
  "write_space_if_pending s =
     (if pending_space_after_colon s then (write_str [32] s)\<lparr>pending_space_after_colon := False\<rparr> else s)"

definition write_indent :: "'f serializer_options \<Rightarrow> nat \<Rightarrow> yaml_ser \<Rightarrow> yaml_ser" where
  "write_indent opts d s =
     (if at_line_start s
      then (write_str (replicate (indent_step opts * d + indent_offset s) 32) s)\<lparr>at_line_start := False\<rparr>
      else s)"

definition array_step :: "'f serializer_options \<Rightarrow> nat" where
  "array_step opts =
     (case indent_array opts of Some n \<Rightarrow> if n = 0 then indent_step opts else n | None \<Rightarrow> indent_step opts)"

definition write_indent_seq :: "'f serializer_options \<Rightarrow> nat \<Rightarrow> yaml_ser \<Rightarrow> yaml_ser" where
  "write_indent_seq opts d s =
     (if at_line_start s
      then (write_str (replicate (array_step opts * d) 32) s)\<lparr>at_line_start := False\<rparr>
      else s)"

definition write_plain_or_quoted_value :: "'f serializer_options \<Rightarrow> utext \<Rightarrow> yaml_ser \<Rightarrow> yaml_ser" where
  "write_plain_or_quoted_value opts v s =
     (let is_safe = (if in_flow s = 0 then is_plain_block_value_safe v else is_plain_value_safe v)
      in write_str (if is_safe then v else write_quoted (prefer_double_quotes opts) v) s)"

definition take_flow_for_seq :: "yaml_ser \<Rightarrow> bool \<times> yaml_ser" where
  "take_flow_for_seq s =
     (if in_flow s > 0 then (True, s)
      else (ser_pending_flow s = Some Any_Seq, s\<lparr>ser_pending_flow := None\<rparr>))"

definition take_flow_for_map :: "yaml_ser \<Rightarrow> bool \<times> yaml_ser" where
  "take_flow_for_map s =
     (if in_flow s > 0 then (True, s)
      else (ser_pending_flow s = Some Any_Map, s\<lparr>ser_pending_flow := None\<rparr>))"

section \<open>Scalars\<close>

text \<open>What precedes every scalar: the space after a colon, or the indentation at a line start.\<close>

definition write_scalar :: "'f serializer_options \<Rightarrow> utext \<Rightarrow> yaml_ser \<Rightarrow> yaml_ser" where
  "write_scalar opts t s =
     (let s = write_space_if_pending s;
          s = (if at_line_start s then write_indent opts (depth s) s else s)
      in write_end_of_scalar (write_str t s))"

definition serialize_bool :: "'f serializer_options \<Rightarrow> bool \<Rightarrow> yaml_ser \<Rightarrow> yaml_ser" where
  "serialize_bool opts v = write_scalar opts (if v then lit ''true'' else lit ''false'')"

definition serialize_unit :: "'f serializer_options \<Rightarrow> yaml_ser \<Rightarrow> yaml_ser" where
  "serialize_unit opts = write_scalar opts (lit ''null'')"

definition int_text :: "int \<Rightarrow> utext" where
  "int_text v = (if v < 0 then 45 # decimal (- v) else decimal v)"

definition scientific_text :: "'f doubles \<Rightarrow> 'f serializer_options \<Rightarrow> 'f \<Rightarrow> utext" where
  "scientific_text fl opts v =
     (if \<not> legacy_scientific_notation opts \<or> is_zero fl v then
        (if is_zero fl v then (if is_sign_negative fl v then lit ''-0e+00'' else lit ''0e+00'')
         else write_go_scientific_text (ryu_format fl v))
      else
        (let exponent = log10_floor fl v;
             magnitude = decimal \<bar>exponent\<bar>
         in mantissa_text fl v exponent @
            (if exponent \<ge> 0 then lit ''e+'' else lit ''e-'') @ replicate (2 - length magnitude) 48 @ magnitude))"

text \<open>\<open>serialize_i64\<close> and \<open>serialize_u64\<close>, which the narrower widths call.\<close>

definition serialize_integer :: "'f doubles \<Rightarrow> 'f serializer_options \<Rightarrow> int \<Rightarrow> yaml_ser \<Rightarrow> yaml_ser" where
  "serialize_integer fl opts v =
     write_scalar opts
       (case scientific_notation_threshold opts of
          Some threshold \<Rightarrow>
            if \<bar>v\<bar> \<ge> threshold then scientific_text fl opts (of_integer fl v) else int_text v
        | None \<Rightarrow> int_text v)"

definition shortest_text :: "'f doubles \<Rightarrow> 'f \<Rightarrow> utext" where
  "shortest_text fl v =
     (let t = ryu_format fl v
      in if 46 \<notin> set t \<and> 101 \<notin> set t \<and> 69 \<notin> set t then t @ lit ''.0'' else t)"

definition trim_end_char :: "int \<Rightarrow> utext \<Rightarrow> utext" where
  "trim_end_char c t = rev (dropWhile (\<lambda>d. d = c) (rev t))"

definition float_text :: "'f doubles \<Rightarrow> 'f serializer_options \<Rightarrow> 'f \<Rightarrow> utext" where
  "float_text fl opts v =
     (if is_nan fl v then lit ''.nan''
      else if is_infinite fl v then (if \<not> is_sign_negative fl v then lit ''.inf'' else lit ''-.inf'')
      else if go_style_negative_zero opts \<and> is_zero fl v \<and> is_sign_negative fl v then lit ''-0''
      else
        case scientific_notation_threshold opts of
          Some threshold \<Rightarrow>
            (if abs_at_least fl v threshold then scientific_text fl opts v
             else case scientific_notation_small_threshold opts of
                    Some small \<Rightarrow> if \<not> is_zero fl v \<and> abs_less fl v small then scientific_text fl opts v
                                  else shortest_text fl v
                  | None \<Rightarrow> shortest_text fl v)
        | None \<Rightarrow>
            (if whole_below_1e16 fl v then format_0 fl v @ lit ''.0''
             else (let trimmed = trim_end_char 46 (trim_end_char 48 (format_15 fl v))
                   in if 46 \<in> set trimmed then trimmed else trimmed @ lit ''.0'')))"

definition serialize_f64 :: "'f doubles \<Rightarrow> 'f serializer_options \<Rightarrow> 'f \<Rightarrow> yaml_ser \<Rightarrow> yaml_ser" where
  "serialize_f64 fl opts v = write_scalar opts (float_text fl opts v)"

section \<open>Strings\<close>

subsection \<open>Literal block strings\<close>

definition scalar_base :: "yaml_ser \<Rightarrow> nat" where
  "scalar_base s =
     (case current_map_depth s of Some d \<Rightarrow> d | None \<Rightarrow> (case after_dash_depth s of Some d \<Rightarrow> d | None \<Rightarrow> depth s))"

definition literal_content :: "utext \<Rightarrow> utext" where
  "literal_content v = trim_end_char 10 v"

definition needs_indent_indicator :: "utext \<Rightarrow> bool" where
  "needs_indent_indicator content =
     (let first_line = hd (split_char 10 content)
      in first_line = [] \<or> hd first_line = 32 \<or> hd first_line = 9)"

definition literal_chomp :: "chomp_indicator option \<Rightarrow> utext \<Rightarrow> utext \<times> nat" where
  "literal_chomp chomp v =
     (let content = literal_content v; trailing_nl = length v - length content
      in case chomp of
           Some Strip \<Rightarrow> (lit ''-'', 0)
         | Some Clip \<Rightarrow> ([], 1)
         | Some Keep \<Rightarrow> (lit ''+'', max trailing_nl 2)
         | None \<Rightarrow>
             if content = [] \<and> trailing_nl > 0 then (lit ''+'', trailing_nl)
             else if trailing_nl = 0 then (lit ''-'', 0)
             else if trailing_nl = 1 then ([], 1)
             else (lit ''+'', trailing_nl))"

definition literal_header :: "nat \<Rightarrow> utext \<Rightarrow> utext \<Rightarrow> utext" where
  "literal_header step chomp_char content =
     [124] @ (if needs_indent_indicator content then decimal (int step) else []) @ chomp_char @ [10]"

definition literal_lines :: "nat \<Rightarrow> utext \<Rightarrow> nat \<Rightarrow> utext" where
  "literal_lines spaces content effective_trailing_nl =
     (if content = [] then replicate effective_trailing_nl 10
      else concat (map (\<lambda>line. (if line \<noteq> [] then replicate spaces 32 @ line else []) @ [10]) (split_char 10 content)) @
           (if effective_trailing_nl \<ge> 2 then replicate (effective_trailing_nl - 1) 10 else []))"

definition literal_spaces :: "'f serializer_options \<Rightarrow> nat \<Rightarrow> yaml_ser \<Rightarrow> nat" where
  "literal_spaces opts base s =
     (case block_scalar_indent_in_seq opts of
        Some n \<Rightarrow> if after_dash_depth s \<noteq> None \<and> current_map_depth s = None then n else indent_step opts * (base + 1)
      | None \<Rightarrow> indent_step opts * (base + 1))"

definition write_literal :: "'f serializer_options \<Rightarrow> utext \<Rightarrow> yaml_ser \<Rightarrow> yaml_ser" where
  "write_literal opts v s =
     (let s = write_space_if_pending s;
          base = scalar_base s;
          s = (if at_line_start s then write_indent opts base s else s);
          content = literal_content v;
          (chomp_char, effective_trailing_nl) = literal_chomp (block_scalar_chomp opts) v;
          s = write_str (literal_header (indent_step opts) chomp_char content) s
      in (write_str (literal_lines (literal_spaces opts base s) content effective_trailing_nl) s)
           \<lparr>at_line_start := True\<rparr>)"

definition prefers_literal :: "'f serializer_options \<Rightarrow> utext \<Rightarrow> yaml_ser \<Rightarrow> bool" where
  "prefers_literal opts v s \<longleftrightarrow>
     prefer_block_scalars opts \<and> in_flow s = 0 \<and> 9 \<notin> set v \<and> \<not> has_trailing_whitespace v \<and>
     \<not> has_chars_needing_escape v \<and> 10 \<in> set v"

subsection \<open>Long strings\<close>

definition wraps_line :: "'f serializer_options \<Rightarrow> utext \<Rightarrow> yaml_ser \<Rightarrow> bool" where
  "wraps_line opts v s \<longleftrightarrow>
     in_flow s = 0 \<and>
     (10 \<notin> set v \<or> 9 \<in> set v \<or> has_trailing_whitespace v \<or> \<not> prefer_block_scalars opts \<or> has_chars_needing_escape v)"

definition continuation_indent :: "'f serializer_options \<Rightarrow> yaml_ser \<Rightarrow> nat" where
  "continuation_indent opts s =
     (case current_map_depth s of
        Some map_depth \<Rightarrow> (map_depth + 1) * indent_step opts
      | None \<Rightarrow> (case after_dash_depth s of
                  Some d \<Rightarrow> d * indent_step opts + 2
                | None \<Rightarrow> (depth s + 1) * indent_step opts))"

definition first_line_offset :: "'f serializer_options \<Rightarrow> yaml_ser \<Rightarrow> nat" where
  "first_line_offset opts s =
     (if at_direct_seq_item s then
        (case after_dash_depth s of Some d \<Rightarrow> d | None \<Rightarrow> 0) * indent_step opts + 2
      else case current_map_depth s of
             Some map_depth \<Rightarrow>
               map_depth * indent_step opts + (if last_key_len s > 0 then last_key_len s else 10) + 2
           | None \<Rightarrow> (case after_dash_depth s of Some d \<Rightarrow> d * indent_step opts + 2 | None \<Rightarrow> 0))"

definition content_length :: "utext \<Rightarrow> nat" where
  "content_length v =
     (if has_chars_needing_escape v then escaped_double_quoted_length v + 2 else length v + 2)"

text \<open>The branch for strings that only need quotes because of single quotes inside them.\<close>

definition only_single_quotes :: "utext \<Rightarrow> bool" where
  "only_single_quotes v \<longleftrightarrow>
     \<not> is_plain_block_value_safe v \<and>
     39 \<in> set v \<and> hd v \<noteq> 39 \<and> is_ascii_alphabetic (hd v) \<and> \<not> has_substring (lit '': '') v \<and>
     \<not> list_ex (\<lambda>c. is_control c \<or> c = 9 \<or> c = 10) v \<and> List.last v \<noteq> 32 \<and> List.last v \<noteq> 9"

definition wrapped_text :: "'f serializer_options \<Rightarrow> nat \<Rightarrow> utext \<Rightarrow> yaml_ser \<Rightarrow> utext" where
  "wrapped_text opts max_width v s =
     (if is_plain_block_value_safe v \<or> (v \<noteq> [] \<and> only_single_quotes v)
      then write_plain_with_wrap v (continuation_indent opts s) max_width (first_line_offset opts s)
      else write_quoted_with_wrap (prefer_double_quotes opts) v (continuation_indent opts s) max_width
             (first_line_offset opts s))"

definition write_short_str :: "'f serializer_options \<Rightarrow> utext \<Rightarrow> yaml_ser \<Rightarrow> yaml_ser" where
  "write_short_str opts v s =
     (let s = write_space_if_pending s;
          s = (if at_line_start s then write_indent opts (depth s) s else s);
          s = (if v \<in> {lit ''.'', lit ''#'', lit ''-'', lit ''*''} then write_str ([39] @ v @ [39]) s
               else write_plain_or_quoted_value opts v s)
      in write_end_of_scalar s)"

definition serialize_str :: "'f serializer_options \<Rightarrow> utext \<Rightarrow> yaml_ser \<Rightarrow> yaml_ser" where
  "serialize_str opts v s =
     (if pending_literal s \<or> prefers_literal opts v s then write_literal opts v (s\<lparr>pending_literal := False\<rparr>)
      else
        case line_width opts of
          Some max_width \<Rightarrow>
            (if wraps_line opts v s \<and> first_line_offset opts s + content_length v > max_width \<and> max_width > 0 then
               (let t = wrapped_text opts max_width v s;
                    base = scalar_base s;
                    s = write_space_if_pending s;
                    s = (if at_line_start s then write_indent opts base s else s)
                in write_end_of_scalar (write_str t s))
             else write_short_str opts v s)
        | None \<Rightarrow> write_short_str opts v s)"

section \<open>Sequences\<close>

record seq_ser =
  seq_depth :: nat
  seq_flow :: bool
  seq_first :: bool
  seq_deferred_newline :: bool

definition serialize_seq :: "'f serializer_options \<Rightarrow> yaml_ser \<Rightarrow> seq_ser \<times> yaml_ser" where
  "serialize_seq opts s =
     (let (flow, s) = take_flow_for_seq (s\<lparr>at_direct_seq_item := False\<rparr>)
      in if flow then
           (let s = write_space_if_pending s;
                s = (if at_line_start s then write_indent opts (depth s) s else s);
                s = (write_str (lit ''['') s)\<lparr>at_line_start := False\<rparr>
            in (\<lparr>seq_depth = depth s, seq_flow = True, seq_first = True, seq_deferred_newline = False\<rparr>, s))
         else
           (let was_inline_value = (\<not> at_line_start s);
                inline_first = (\<not> at_line_start s \<and> after_dash_depth s \<noteq> None \<and> \<not> pending_space_after_colon s);
                (deferred, s) =
                  (if inline_first then (False, s\<lparr>at_line_start := False\<rparr>)
                   else if was_inline_value then
                     (let s = s\<lparr>pending_space_after_colon := False\<rparr>
                      in if empty_array_as_brackets opts then (True, s) else (False, newline s))
                   else (False, s));
                base =
                  (if inline_first then (case after_dash_depth s of Some d \<Rightarrow> d | None \<Rightarrow> depth s)
                   else if was_inline_value then (case current_map_depth s of Some d \<Rightarrow> d | None \<Rightarrow> depth s)
                   else depth s);
                depth_next =
                  (if inline_first then base + 1
                   else if was_inline_value then (if indent_array opts = Some 0 then base else base + 1)
                   else base)
            in (\<lparr>seq_depth = depth_next, seq_flow = False, seq_first = True, seq_deferred_newline = deferred\<rparr>,
                s\<lparr>pending_inline_comment := None\<rparr>)))"

text \<open>\<open>serialize_element\<close> up to the element itself: the line break put off, the comma or the dash.\<close>

definition seq_newline :: "seq_ser \<Rightarrow> yaml_ser \<Rightarrow> yaml_ser" where
  "seq_newline q s = (if seq_deferred_newline q then newline s else s)"

definition before_element :: "'f serializer_options \<Rightarrow> seq_ser \<Rightarrow> yaml_ser \<Rightarrow> yaml_ser" where
  "before_element opts q s =
     (let s = seq_newline q s
      in if seq_flow q then
           (let s = (if \<not> seq_first q then write_str (lit '', '') s else s) in s\<lparr>in_flow := in_flow s + 1\<rparr>)
         else
           (let s = (if seq_first q \<and> pending_space_after_colon s then
                       (let s = s\<lparr>pending_space_after_colon := False\<rparr> in if \<not> at_line_start s then newline s else s)
                     else s);
                s = (if \<not> seq_first q \<and> inline_map_after_dash s then s\<lparr>inline_map_after_dash := False\<rparr> else s);
                s = (if seq_first q \<and> (\<not> at_line_start s \<or> pending_inline_map s)
                     then s\<lparr>inline_dash_count := inline_dash_count s + 1\<rparr>
                     else (write_indent_seq opts (seq_depth q) s)\<lparr>inline_dash_count := 1\<rparr>);
                s = (write_str (lit ''- '') s)\<lparr>at_line_start := False\<rparr>;
                s = (if seq_first q \<and> inline_map_after_dash s then s\<lparr>inline_map_after_dash := False\<rparr> else s)
            in s\<lparr>after_dash_depth := Some (seq_depth q), pending_inline_map := True, at_direct_seq_item := True\<rparr>))"

definition after_element :: "seq_ser \<Rightarrow> yaml_ser \<Rightarrow> seq_ser \<times> yaml_ser" where
  "after_element q s =
     (q\<lparr>seq_first := False, seq_deferred_newline := False\<rparr>,
      if seq_flow q then s\<lparr>in_flow := in_flow s - 1\<rparr> else s\<lparr>at_direct_seq_item := False\<rparr>)"

definition seq_end :: "'f serializer_options \<Rightarrow> seq_ser \<Rightarrow> yaml_ser \<Rightarrow> yaml_ser" where
  "seq_end opts q s =
     (if seq_flow q then
        (let s = write_str (lit '']'') s in if in_flow s = 0 then newline s else s)
      else if seq_first q then
        (if empty_array_as_brackets opts then
           (if seq_deferred_newline q then newline (write_str (lit '' []'') s)
            else newline (write_str (lit ''[]'') (write_space_if_pending s)))
         else newline s)
      else s)"

section \<open>Mappings\<close>

record map_ser =
  map_depth :: nat
  map_flow :: bool
  map_first :: bool
  map_deferred_newline :: bool

text \<open>
  The depth and the extra spaces of a mapping that starts behind dashes: its keys stand below the
  first one.
\<close>

definition inline_map_depth :: "'f serializer_options \<Rightarrow> nat \<Rightarrow> nat \<Rightarrow> nat \<times> nat" where
  "inline_map_depth opts base dashes =
     (let outer_depth = base - (dashes - 1);
          target_spaces = array_step opts * outer_depth + 2 * dashes
      in (target_spaces div indent_step opts, target_spaces mod indent_step opts))"

definition serialize_map :: "'f serializer_options \<Rightarrow> yaml_ser \<Rightarrow> map_ser \<times> yaml_ser" where
  "serialize_map opts s =
     (let (flow, s) = take_flow_for_map (s\<lparr>at_direct_seq_item := False\<rparr>)
      in if flow then
           (let s = write_space_if_pending s;
                s = (if at_line_start s then write_indent opts (depth s) s else s);
                s = (write_str (lit ''{'') s)\<lparr>at_line_start := False\<rparr>
            in (\<lparr>map_depth = depth s, map_flow = True, map_first = True, map_deferred_newline = False\<rparr>, s))
         else
           (let inline_first = pending_inline_map s;
                was_inline_value = pending_space_after_colon s;
                (deferred, s) =
                  (if inline_first then (False, s\<lparr>pending_inline_map := False, inline_map_after_dash := True\<rparr>)
                   else if was_inline_value then
                     (let s = s\<lparr>pending_space_after_colon := False\<rparr>
                      in if \<not> at_line_start s
                         then (if empty_map_as_braces opts then (True, s) else (False, newline s))
                         else (False, s))
                   else (False, s));
                base =
                  (if inline_first then (case after_dash_depth s of Some d \<Rightarrow> d | None \<Rightarrow> depth s)
                   else if was_inline_value then (case current_map_depth s of Some d \<Rightarrow> d | None \<Rightarrow> depth s)
                   else depth s);
                (depth_next, s) =
                  (if inline_first then
                     (let (d, offset) = inline_map_depth opts base (inline_dash_count s)
                      in (d, s\<lparr>indent_offset := offset, inline_dash_count := 0\<rparr>))
                   else if was_inline_value then (base + 1, s)
                   else (base, s))
            in (\<lparr>map_depth = depth_next, map_flow = False, map_first = True, map_deferred_newline = deferred\<rparr>, s)))"

definition serialize_key :: "'f serializer_options \<Rightarrow> map_ser \<Rightarrow> utext \<Rightarrow> yaml_ser \<Rightarrow> yaml_ser" where
  "serialize_key opts m key s =
     (let s = (if map_deferred_newline m then newline s else s);
          t = scalar_key_to_string key;
          shown = key_text (quote_numeric_strings opts) (quote_ambiguous_keys opts) t
      in if map_flow m then
           (write_str (shown @ lit '': '') (if \<not> map_first m then write_str (lit '', '') s else s))
             \<lparr>at_line_start := False\<rparr>
         else
           (let s = (if \<not> at_line_start s then write_space_if_pending s else s);
                s = write_str shown (write_indent opts (map_depth m) s)
            in (write_str (lit '':'') (s\<lparr>last_key_len := length (utf8 t)\<rparr>))
                 \<lparr>pending_space_after_colon := True, at_line_start := False\<rparr>))"

text \<open>\<open>serialize_value\<close> around the value itself.\<close>

definition before_value :: "map_ser \<Rightarrow> yaml_ser \<Rightarrow> yaml_ser" where
  "before_value m s =
     (if map_flow m then s\<lparr>in_flow := in_flow s + 1\<rparr>
      else s\<lparr>current_map_depth := Some (map_depth m), indent_offset := 0\<rparr>)"

definition after_value :: "map_ser \<Rightarrow> yaml_ser \<Rightarrow> yaml_ser \<Rightarrow> yaml_ser" where
  "after_value m before s =
     (if map_flow m then s\<lparr>in_flow := in_flow s - 1\<rparr>
      else s\<lparr>current_map_depth := current_map_depth before, indent_offset := indent_offset before,
             pending_inline_map := pending_inline_map before\<rparr>)"

definition map_end :: "'f serializer_options \<Rightarrow> map_ser \<Rightarrow> yaml_ser \<Rightarrow> yaml_ser" where
  "map_end opts m s =
     (let s = (if map_flow m then
                 (let s = write_str (lit ''}'') s in if in_flow s = 0 then newline s else s)
               else if map_first m then
                 (if empty_map_as_braces opts then
                    (if map_deferred_newline m
                     then newline ((write_str (lit '' {}'') s)\<lparr>pending_space_after_colon := False\<rparr>)
                     else newline (write_str (lit ''{}'') (write_space_if_pending s)))
                  else newline s)
               else s)
      in s\<lparr>indent_offset := 0\<rparr>)"

section \<open>Values\<close>

datatype 'f yaml_value =
    Y_Null
  | Y_Bool bool
  | Y_Int int
  | Y_Float 'f
  | Y_Str utext
  | Y_Seq "'f yaml_value list"
  | Y_Map "(utext \<times> 'f yaml_value) list"
  | Y_Flow_Seq "'f yaml_value"
  | Y_Flow_Map "'f yaml_value"
  | Y_Lit_Str utext
  | Y_Raw_Scalar utext
  | Y_Commented "'f yaml_value" utext

definition write_raw_scalar :: "'f serializer_options \<Rightarrow> utext \<Rightarrow> yaml_ser \<Rightarrow> yaml_error + yaml_ser" where
  "write_raw_scalar opts v s =
     (case validate_raw_plain_scalar v of Inl e \<Rightarrow> Inl (Invalid_Raw e) | Inr _ \<Rightarrow> Inr (write_scalar opts v s))"

definition stage_comment :: "utext \<Rightarrow> yaml_ser \<Rightarrow> yaml_ser" where
  "stage_comment comment s =
     (if in_flow s = 0 \<and> comment \<noteq> []
      then s\<lparr>pending_inline_comment := Some (map (\<lambda>c. if c = 10 then 32 else c) comment)\<rparr> else s)"

fun serialize :: "'f doubles \<Rightarrow> 'f serializer_options \<Rightarrow> 'f yaml_value \<Rightarrow> yaml_ser \<Rightarrow> yaml_error + yaml_ser"
  and serialize_elements ::
    "'f doubles \<Rightarrow> 'f serializer_options \<Rightarrow> 'f yaml_value list \<Rightarrow> seq_ser \<Rightarrow> yaml_ser \<Rightarrow> yaml_error + seq_ser \<times> yaml_ser"
  and serialize_entries ::
    "'f doubles \<Rightarrow> 'f serializer_options \<Rightarrow> (utext \<times> 'f yaml_value) list \<Rightarrow> map_ser \<Rightarrow> yaml_ser \<Rightarrow>
     yaml_error + map_ser \<times> yaml_ser" where
  "serialize fl opts Y_Null s = Inr (serialize_unit opts s)"
| "serialize fl opts (Y_Bool b) s = Inr (serialize_bool opts b s)"
| "serialize fl opts (Y_Int i) s = Inr (serialize_integer fl opts i s)"
| "serialize fl opts (Y_Float x) s = Inr (serialize_f64 fl opts x s)"
| "serialize fl opts (Y_Str v) s = Inr (serialize_str opts v s)"
| "serialize fl opts (Y_Seq vs) s =
     (let (q, s) = serialize_seq opts s
      in and_then (serialize_elements fl opts vs q s) (\<lambda>(q, s). Inr (seq_end opts q s)))"
| "serialize fl opts (Y_Map es) s =
     (let (m, s) = serialize_map opts s
      in and_then (serialize_entries fl opts es m s) (\<lambda>(m, s). Inr (map_end opts m s)))"
| "serialize fl opts (Y_Flow_Seq v) s = serialize fl opts v (s\<lparr>ser_pending_flow := Some Any_Seq\<rparr>)"
| "serialize fl opts (Y_Flow_Map v) s = serialize fl opts v (s\<lparr>ser_pending_flow := Some Any_Map\<rparr>)"
| "serialize fl opts (Y_Lit_Str v) s = Inr (serialize_str opts v (s\<lparr>pending_literal := True\<rparr>))"
| "serialize fl opts (Y_Raw_Scalar v) s = write_raw_scalar opts v s"
| "serialize fl opts (Y_Commented v comment) s =
     (if in_flow s = 0 then
        and_then (serialize fl opts v (stage_comment comment s)) (\<lambda>s. Inr (s\<lparr>pending_inline_comment := None\<rparr>))
      else serialize fl opts v s)"
| "serialize_elements fl opts [] q s = Inr (q, s)"
| "serialize_elements fl opts (v # vs) q s =
     and_then (serialize fl opts v (before_element opts q s)) (\<lambda>s.
       let (q, s) = after_element q s in serialize_elements fl opts vs q s)"
| "serialize_entries fl opts [] m s = Inr (m, s)"
| "serialize_entries fl opts ((key, v) # es) m s =
     (let keyed = serialize_key opts m key s
      in and_then (serialize fl opts v (before_value m keyed)) (\<lambda>s.
           serialize_entries fl opts es (m\<lparr>map_first := False, map_deferred_newline := False\<rparr>) (after_value m keyed s)))"

text \<open>\<open>to_fmt_writer_with_options\<close>: the text written.\<close>

definition to_yaml_text :: "'f doubles \<Rightarrow> 'f serializer_options \<Rightarrow> 'f yaml_value \<Rightarrow> yaml_error + utext" where
  "to_yaml_text fl opts v =
     and_then (consistent opts) (\<lambda>_. and_then (serialize fl opts v ser_new) (\<lambda>s. Inr (out s)))"

end
