(* ===== verification/Yaml_Facts.thy ===== *)
theory Yaml_Facts
  imports Yaml_Reader Yaml_Writer
begin

text \<open>
  What the YAML writer writes for a string is read back as that string: the guards of the plain
  style, the quoted styles, and literal block strings, whose reader (YAML 1.2, 8.1) is here.
\<close>

section \<open>Plain and quoted scalars\<close>

lemma utf8_char_ascii: "c < 0x80 \<Longrightarrow> utf8_char c = [c]"
  by (simp add: utf8_char_def)

lemma utf8_char_not_Nil [simp]: "utf8_char c \<noteq> []"
  by (simp add: utf8_char_def)

lemma utf8_Nil [simp]: "utf8 [] = []"
  and utf8_Cons [simp]: "utf8 (c # s) = utf8_char c @ utf8 s"
  by (simp_all add: utf8_def)

lemma utf8_eq_Nil [simp]: "utf8 s = [] \<longleftrightarrow> s = []"
  by (cases s) auto

lemma utf8_head: "s \<noteq> [] \<Longrightarrow> hd s < 0x80 \<Longrightarrow> utf8 s ! 0 = hd s"
  by (cases s) (auto simp: utf8_char_ascii)

lemma utf8_last: "s \<noteq> [] \<Longrightarrow> last s < 0x80 \<Longrightarrow> last (utf8 s) = last s"
  by (induction s) (auto simp: utf8_char_ascii)

lemma last_trim:
  assumes "s \<noteq> []" "\<not> is_whitespace (last s)"
  shows "trim s \<noteq> [] \<and> last (trim s) = last s"
proof -
  have "last s \<in> set s" using assms(1) by simp
  then have "trim_start s \<noteq> []" using assms(2) by (auto simp: trim_start_def dropWhile_eq_Nil_conv)
  moreover have "last (trim_start s) = last s"
    by (metis calculation last_appendR takeWhile_dropWhile_id trim_start_def)
  moreover have "trim_end t = t" if "t \<noteq> []" "\<not> is_whitespace (last t)" for t
    using that by (cases t rule: rev_cases) (auto simp: trim_end_def)
  ultimately show ?thesis using assms(2) by (simp add: trim_def)
qed

lemma starts_other_node_head:
  assumes "\<not> starts_other_node s" "s \<noteq> []"
  shows "hd s \<noteq> 32 \<and> hd s \<noteq> 34 \<and> hd s \<noteq> 39 \<and> hd s \<noteq> 35 \<and> hd s \<noteq> 124"
  using assms utf8_head [OF assms(2)]
  by (auto simp: starts_other_node_def is_ascii_whitespace_def is_indicator_def)

lemma plain_block_value_is_plain_text:
  assumes "is_plain_block_value_safe s"
  shows "plain_text s \<and> hd s \<noteq> 34 \<and> hd s \<noteq> 39 \<and> hd s \<noteq> 124"
proof -
  have guards: "s \<noteq> []" "\<not> is_ascii_whitespace (last (utf8 s))" "\<not> starts_other_node s" "\<not> reads_as_mapping s"
    "\<not> has_substring (lit '' #'') s" "\<not> contains_control_or_non_bmp s"
    using assms by (simp_all add: is_plain_block_value_safe_def split: if_splits)
  have "10 \<notin> set s" "9 \<notin> set s" using guards(6) by (auto simp: contains_control_or_non_bmp_def list_ex_iff is_control_def)
  moreover have "last s \<noteq> 32" using guards(1,2) utf8_last [of s] by (auto simp: is_ascii_whitespace_def)
  moreover have "last s \<noteq> 58" using guards(1,4) last_trim [of s] by (auto simp: reads_as_mapping_def is_whitespace_def)
  moreover have "\<not> has_substring [58, 32] s" using guards(4) by (simp add: reads_as_mapping_def)
  moreover have "\<not> has_substring [32, 35] s" using guards(5) by simp
  ultimately show ?thesis using guards(1) starts_other_node_head [OF guards(3,1)] by (simp add: plain_text_def)
qed

lemma single_quoted_no_break:
  "use_single_quotes p s \<Longrightarrow> 10 \<notin> set s \<and> 9 \<notin> set s"
  by (auto simp: use_single_quotes_def needs_escaping_def list_ex_iff)

definition unicode :: "utext \<Rightarrow> bool" where
  "unicode s \<longleftrightarrow> list_all (\<lambda>c. 0 \<le> c \<and> c < 0x110000) s"

lemma read_write_quoted: "unicode s \<Longrightarrow> read_scalar (write_quoted p s) = Some (s, [])"
  using single_quoted_no_break [of p s]
  by (auto simp: write_quoted_def read_scalar_def unicode_def read_escaped read_double_single_quotes)

lemma read_write_quoted_with_wrap:
  "unicode s \<Longrightarrow> read_scalar (write_quoted_with_wrap p s indent wrap_col offset) = Some (s, [])"
  using single_quoted_no_break [of p s]
  by (auto simp: write_quoted_with_wrap_def read_scalar_def unicode_def read_wrap_double read_wrap_single)

lemma wrap_plain_not_quote:
  assumes "plain_text s" "hd s \<notin> {10, 32, 34, 39}"
  shows "read_scalar (wrap_plain indent w column spaces s) = Some (s, [])"
proof -
  have "s \<noteq> []" using assms(1) by (simp add: plain_text_def)
  then obtain r where "wrap_plain indent w column spaces s = hd s # r"
    using wrap_plain_head [of s] assms(2) by blast
  then show ?thesis using read_wrap_plain [OF assms(1), of indent w column spaces] assms(2)
    by (simp add: read_scalar_def del: read_plain.simps)
qed

lemma plain_block_value_head:
  assumes "is_plain_block_value_safe s"
  shows "hd s \<notin> {10, 32, 34, 39}"
proof -
  have "s \<noteq> []" "\<not> starts_other_node s" using assms by (simp_all add: is_plain_block_value_safe_def split: if_splits)
  then show ?thesis using starts_other_node_head [of s] plain_block_value_is_plain_text [OF assms]
    by (cases s) (auto simp: plain_text_def)
qed

lemma read_write_plain_with_wrap:
  "is_plain_block_value_safe s \<Longrightarrow> read_scalar (write_plain_with_wrap s indent wrap_col offset) = Some (s, [])"
  unfolding write_plain_with_wrap_def
  using plain_block_value_is_plain_text plain_block_value_head by (intro wrap_plain_not_quote) auto

lemma read_plain_or_quoted:
  assumes "unicode s"
  shows "read_scalar (if is_plain_block_value_safe s then s else write_quoted p s) = Some (s, [])"
proof (cases "is_plain_block_value_safe s")
  case True
  then have "read_scalar (wrap_plain 0 (length s) 0 False s) = Some (s, [])"
    using plain_block_value_is_plain_text plain_block_value_head by (intro wrap_plain_not_quote) auto
  then show ?thesis using True by (simp add: wrap_plain_never)
qed (simp add: read_write_quoted [OF assms])

section \<open>Literal block strings\<close>

definition leading_spaces :: "utext \<Rightarrow> nat" where
  "leading_spaces l = length (takeWhile (\<lambda>c. c = 32) l)"

definition all_spaces :: "utext \<Rightarrow> bool" where
  "all_spaces l = list_all (\<lambda>c. c = 32) l"

text \<open>
  The value of the lines of a literal scalar whose parent node is indented by \<open>n\<close>: the indentation
  is given or that of the first line with content, it is more than \<open>n\<close>, and no line has less.
\<close>

definition literal_value :: "nat \<Rightarrow> nat option \<Rightarrow> chomp_indicator \<Rightarrow> utext list \<Rightarrow> utext option" where
  "literal_value n indicator chomp ls =
     (let m = (case indicator of
                 Some d \<Rightarrow> n + d
               | None \<Rightarrow> (case dropWhile all_spaces ls of l # _ \<Rightarrow> leading_spaces l | [] \<Rightarrow> n + 1));
          body = concat (map (\<lambda>l. drop m l @ [10]) ls);
          content = trim_end_char 10 body
      in if m \<le> n \<or> list_ex (\<lambda>l. leading_spaces l < m \<and> \<not> all_spaces l) ls then None
         else Some (case chomp of Keep \<Rightarrow> body | Strip \<Rightarrow> content | Clip \<Rightarrow> if content = [] then [] else content @ [10]))"

definition read_literal :: "nat \<Rightarrow> utext \<Rightarrow> utext option" where
  "read_literal n t =
     (case t of
        [] \<Rightarrow> None
      | _ # r \<Rightarrow>
          (let (indicator, r) =
                 (case r of d # r' \<Rightarrow> if 49 \<le> d \<and> d \<le> 57 then (Some (nat (d - 48)), r') else (None, r) | [] \<Rightarrow> (None, []));
               (chomp, r) =
                 (case r of d # r' \<Rightarrow> if d = 45 then (Strip, r') else if d = 43 then (Keep, r') else (Clip, r) | [] \<Rightarrow> (Clip, []))
           in case r of
                d # body \<Rightarrow> if d = 10 then literal_value n indicator chomp (butlast (split_char 10 body)) else None
              | [] \<Rightarrow> None))"

lemma split_char_no_sep: "l \<in> set (split_char c s) \<Longrightarrow> c \<notin> set l"
  by (induction s arbitrary: l) (fastforce split: list.splits if_splits)+

lemma split_char_lines: "concat (map (\<lambda>l. l @ [c]) (split_char c s)) = s @ [c]"
  by (induction s) (auto split: list.splits)

lemma split_char_prefix: "c \<notin> set l \<Longrightarrow> split_char c (l @ c # t) = l # split_char c t"
  by (induction l) auto

lemma split_char_of_lines:
  "list_all (\<lambda>l. c \<notin> set l) ls \<Longrightarrow> split_char c (concat (map (\<lambda>l. l @ [c]) ls)) = ls @ [[]]"
  by (induction ls) (auto simp: split_char_prefix)

lemma trim_end_char_append [simp]:
  "trim_end_char c (t @ replicate k c) = trim_end_char c t"
  "trim_end_char c (t @ [c]) = trim_end_char c t"
  by (simp_all add: trim_end_char_def dropWhile_append)

lemma trim_end_char_idem [simp]: "trim_end_char c (trim_end_char c t) = trim_end_char c t"
  by (simp add: trim_end_char_def)

lemma trim_end_char_replicate: "\<exists>k. t = trim_end_char c t @ replicate k c"
proof -
  have "t = rev (dropWhile (\<lambda>d. d = c) (rev t)) @ rev (takeWhile (\<lambda>d. d = c) (rev t))"
    by (metis rev_append rev_rev_ident takeWhile_dropWhile_id)
  moreover have "rev (takeWhile (\<lambda>d. d = c) (rev t)) = replicate (length (takeWhile (\<lambda>d. d = c) (rev t))) c"
    by (metis (mono_tags, lifting) length_rev replicate_eqI set_rev set_takeWhileD)
  ultimately show ?thesis unfolding trim_end_char_def by metis
qed

definition literal_line :: "nat \<Rightarrow> utext \<Rightarrow> utext" where
  "literal_line spaces l = (if l \<noteq> [] then replicate spaces 32 @ l else [])"

lemma literal_lines_content:
  assumes "content \<noteq> []"
  shows "literal_lines spaces content nl =
    concat (map (\<lambda>l. l @ [10]) (map (literal_line spaces) (split_char 10 content) @ replicate (nl - 1) []))"
proof -
  have "replicate k (10::int) = concat (map (\<lambda>l. l @ [10]) (replicate k []))" for k by (induction k) auto
  then show ?thesis using assms by (auto simp: literal_lines_def literal_line_def comp_def)
qed

lemma literal_line_facts [simp]:
  "drop m (literal_line m l) = l"
  "10 \<in> set (literal_line m l) \<longleftrightarrow> 10 \<in> set l"
  "\<not> (leading_spaces (literal_line m l) < m \<and> \<not> all_spaces (literal_line m l))"
  by (auto simp: literal_line_def leading_spaces_def all_spaces_def takeWhile_append)

lemma leading_spaces_line: "l \<noteq> [] \<Longrightarrow> hd l \<noteq> 32 \<Longrightarrow> leading_spaces (literal_line m l) = m \<and> \<not> all_spaces (literal_line m l)"
  by (cases l) (auto simp: literal_line_def leading_spaces_def all_spaces_def takeWhile_append)

lemma literal_value_lines:
  assumes "content \<noteq> []" "m > n" "indicator = None \<longrightarrow> \<not> needs_indent_indicator content"
    "\<And>d. indicator = Some d \<Longrightarrow> n + d = m"
  shows "literal_value n indicator chomp (map (literal_line m) (split_char 10 content) @ replicate k []) =
    Some (case chomp of Keep \<Rightarrow> content @ [10] @ replicate k 10 | Strip \<Rightarrow> trim_end_char 10 content
          | Clip \<Rightarrow> if trim_end_char 10 content = [] then [] else trim_end_char 10 content @ [10])"
proof -
  let ?ls = "map (literal_line m) (split_char 10 content) @ replicate k []"
  obtain l ls where split: "split_char 10 content = l # ls" by (cases "split_char 10 content") auto
  have m: "(case indicator of Some d \<Rightarrow> n + d
      | None \<Rightarrow> (case dropWhile all_spaces ?ls of l # _ \<Rightarrow> leading_spaces l | [] \<Rightarrow> n + 1)) = m"
  proof (cases indicator)
    case None
    then have "l \<noteq> []" "hd l \<noteq> 32" using assms(3) split by (auto simp: needs_indent_indicator_def Let_def)
    then show ?thesis using None split by (simp add: leading_spaces_line)
  qed (use assms(4) in simp)
  have body: "concat (map (\<lambda>l. drop m l @ [10]) ?ls) = (content @ [10]) @ replicate k 10"
  proof -
    have "concat (map (\<lambda>l. drop m l @ [10]) (replicate k [])) = replicate k (10::int)" by (induction k) auto
    moreover have "concat (map (\<lambda>l. drop m l @ [10]) (map (literal_line m) (split_char 10 content))) = content @ [10]"
      using split_char_lines [of 10 content] by (simp add: comp_def)
    ultimately show ?thesis by simp
  qed
  have "\<not> list_ex (\<lambda>l. leading_spaces l < m \<and> \<not> all_spaces l) ?ls"
    by (auto simp: list_ex_iff all_spaces_def simp del: literal_line_facts(3)) (metis all_spaces_def literal_line_facts(3))
  then show ?thesis using assms(2) unfolding literal_value_def m body Let_def
    by (auto split: chomp_indicator.splits simp del: append_assoc)
qed

lemma single_digit: "0 < step \<Longrightarrow> step < 10 \<Longrightarrow> decimal (int step) = [48 + int step]"
  by (simp add: decimal.simps)

lemma literal_reads_back:
  assumes "10 \<in> set v" "0 < indent" "indent < 10"
    and "literal_chomp None v = (chomp_char, nl)"
  shows "read_literal n (literal_header indent chomp_char (literal_content v) @
      literal_lines (n + indent) (literal_content v) nl) = Some v"
proof -
  let ?c = "literal_content v"
  obtain k where v: "v = ?c @ replicate k 10" using trim_end_char_replicate unfolding literal_content_def by metis
  then have k: "length v - length ?c = k" by (metis add_diff_cancel_left' length_append length_replicate)
  have trimmed: "trim_end_char 10 ?c = ?c" by (simp add: literal_content_def)
  let ?ind = "if needs_indent_indicator ?c then Some indent else None"
  define chomp where "chomp = (if ?c = [] then Keep else if k = 0 then Strip else if k = 1 then Clip else Keep)"
  have header: "read_literal n (literal_header indent chomp_char ?c @ body) =
      literal_value n ?ind chomp (butlast (split_char 10 body))" for body
  proof -
    have "k > 0" if "?c = []" using v that assms(1) by (cases k) auto
    then have "chomp_char = (case chomp of Strip \<Rightarrow> [45] | Clip \<Rightarrow> [] | Keep \<Rightarrow> [43])"
      using assms(4) k by (auto simp: literal_chomp_def chomp_def split: if_splits)
    then show ?thesis using single_digit [OF assms(2,3)] assms(2,3)
      by (cases chomp) (auto simp: read_literal_def literal_header_def)
  qed
  show ?thesis
  proof (cases "?c = []")
    case True
    then have "nl = k" "k > 0" using assms(1,4) v k by (auto simp: literal_chomp_def split: if_splits)
    then have lines: "literal_lines (n + indent) ?c nl = concat (map (\<lambda>l. l @ [10]) (replicate k []))"
      using True by (simp add: literal_lines_def)
    have "butlast (split_char 10 (concat (map (\<lambda>l. l @ [10]) (replicate k [])))) = replicate k ([] :: utext)"
      by (subst split_char_of_lines) (auto simp: list_all_iff)
    moreover have "literal_value n (Some indent) Keep (replicate k []) = Some (replicate k 10)"
    proof -
      have "concat (map (\<lambda>l. drop m l @ [10]) (replicate k [])) = replicate k (10::int)" for m by (induction k) auto
      moreover have "\<not> list_ex (\<lambda>l. leading_spaces l < m \<and> \<not> all_spaces l) (replicate k [])" for m
        by (auto simp: list_ex_iff all_spaces_def)
      ultimately show ?thesis using assms(2) by (simp add: literal_value_def)
    qed
    moreover have "?ind = Some indent" "chomp = Keep" using True by (simp_all add: needs_indent_indicator_def chomp_def)
    ultimately show ?thesis using True v unfolding header lines by simp
  next
    case False
    then have nl: "nl - 1 = k - 1" using assms(4) k by (auto simp: literal_chomp_def split: if_splits)
    have "list_all (\<lambda>l. 10 \<notin> set l) (map (literal_line (n + indent)) (split_char 10 ?c) @ replicate (k - 1) [])"
      using split_char_no_sep [of _ 10 ?c] by (auto simp: list_all_iff)
    note body = split_char_of_lines [OF this]
    have "literal_value n ?ind chomp (map (literal_line (n + indent)) (split_char 10 ?c) @ replicate (k - 1) []) =
        Some (case chomp of Keep \<Rightarrow> ?c @ [10] @ replicate (k - 1) 10 | Strip \<Rightarrow> trim_end_char 10 ?c
          | Clip \<Rightarrow> if trim_end_char 10 ?c = [] then [] else trim_end_char 10 ?c @ [10])"
      using assms(2) by (intro literal_value_lines [OF False]) (auto split: if_splits)
    also have "\<dots> = Some v"
    proof -
      have v': "?c @ replicate k 10 = v" by (rule v [symmetric])
      consider "k = 0" | "k = 1" | j where "k = Suc j" "j > 0" by (cases k) auto
      then show ?thesis using v' by cases (use False trimmed in \<open>auto simp: chomp_def\<close>)
    qed
    finally show ?thesis unfolding header literal_lines_content [OF False] nl body butlast_snoc .
  qed
qed

section \<open>A string as the value of a key\<close>

text \<open>The state a mapping is in when its value is due, in block style.\<close>

definition value_due :: "nat \<Rightarrow> yaml_ser \<Rightarrow> bool" where
  "value_due d s \<longleftrightarrow>
     pending_space_after_colon s \<and> \<not> at_line_start s \<and> current_map_depth s = Some d \<and> in_flow s = 0 \<and>
     \<not> pending_literal s \<and> pending_inline_comment s = None"

text \<open>A value in block style below a node indented by \<open>n\<close>; all but literal strings end with the line.\<close>

definition read_value :: "nat \<Rightarrow> utext \<Rightarrow> utext option" where
  "read_value n t =
     (if t \<noteq> [] \<and> hd t = 124 then read_literal n t
      else if t \<noteq> [] \<and> last t = 10 then
        (case read_scalar (butlast t) of Some (v, rest) \<Rightarrow> if rest = [] then Some v else None | None \<Rightarrow> None)
      else None)"

lemma read_value_scalar:
  "read_scalar t = Some (v, []) \<Longrightarrow> hd t \<noteq> 124 \<Longrightarrow> read_value n (t @ [10]) = Some v"
  by (cases t) (auto simp: read_value_def read_scalar_def)

lemma out_scalar:
  assumes "value_due d s"
  shows "out (write_end_of_scalar (write_str t (write_space_if_pending s))) = out s @ 32 # t @ [10]"
    and "\<not> at_line_start (write_space_if_pending s)"
  using assms by (simp_all add: value_due_def write_end_of_scalar_def write_str_def write_space_if_pending_def newline_def)

lemma hd_write_quoted: "hd (write_quoted p v) \<noteq> 124" "hd (write_quoted_with_wrap p v i w f) \<noteq> 124"
  by (simp_all add: write_quoted_def write_quoted_with_wrap_def)

lemma write_short_str_value:
  assumes "value_due d s" "unicode v"
  shows "\<exists>t. out (write_short_str opts v s) = out s @ 32 # t \<and> read_value n t = Some v"
proof (cases "v \<in> {lit ''.'', lit ''#'', lit ''-'', lit ''*''}")
  case True
  then have "out (write_short_str opts v s) = out s @ 32 # ([39] @ v @ [39]) @ [10]"
    using out_scalar [OF assms(1)] by (simp add: write_short_str_def Let_def)
  moreover have "read_value n (([39] @ v @ [39]) @ [10]) = Some v"
    by (rule read_value_scalar) (use True in \<open>auto simp: read_scalar_def is_blank_def\<close>)
  ultimately show ?thesis by blast
next
  case False
  let ?t = "if is_plain_block_value_safe v then v else write_quoted (prefer_double_quotes opts) v"
  have "in_flow (write_space_if_pending s) = 0"
    using assms(1) by (simp add: value_due_def write_space_if_pending_def write_str_def)
  then have "out (write_short_str opts v s) = out s @ 32 # ?t @ [10]"
    using out_scalar [OF assms(1)] False by (simp add: write_short_str_def write_plain_or_quoted_value_def Let_def)
  moreover have "read_value n (?t @ [10]) = Some v"
    using read_plain_or_quoted [OF assms(2)] plain_block_value_is_plain_text [of v] hd_write_quoted
    by (intro read_value_scalar) (auto split: if_splits)
  ultimately show ?thesis by blast
qed

lemma wrapped_text_reads:
  assumes "unicode v" "\<not> only_single_quotes v"
  shows "read_scalar (wrapped_text opts w v s) = Some (v, []) \<and> hd (wrapped_text opts w v s) \<noteq> 124"
proof (cases "is_plain_block_value_safe v")
  case True
  note head = plain_block_value_head [OF True] plain_block_value_is_plain_text [OF True]
  then have "v \<noteq> []" "hd v \<noteq> 32" by (auto simp: plain_text_def)
  then have "hd (write_plain_with_wrap v i w f) = hd v" for i f
    using wrap_plain_head [of v i w f False] unfolding write_plain_with_wrap_def by (metis list.sel(1))
  then show ?thesis using True head by (simp add: wrapped_text_def read_write_plain_with_wrap)
next
  case False
  then show ?thesis using assms by (simp add: wrapped_text_def read_write_quoted_with_wrap hd_write_quoted)
qed

lemma write_literal_value:
  assumes "value_due d s" "10 \<in> set v" "0 < indent_step opts" "indent_step opts < 10" "block_scalar_chomp opts = None"
  shows "\<exists>t. out (write_literal opts v s) = out s @ 32 # t \<and> read_value (indent_step opts * d) t = Some v"
proof -
  obtain chomp_char nl where chomp: "literal_chomp None v = (chomp_char, nl)" by force
  let ?t = "literal_header (indent_step opts) chomp_char (literal_content v) @
    literal_lines (indent_step opts * d + indent_step opts) (literal_content v) nl"
  have "out (write_literal opts v s) = out s @ 32 # ?t"
    using assms(1,5) chomp
    by (simp add: write_literal_def Let_def value_due_def write_space_if_pending_def write_str_def
        scalar_base_def literal_spaces_def add.commute split: option.splits)
  moreover have "read_value (indent_step opts * d) ?t = Some v"
    using literal_reads_back [OF assms(2-4) chomp] by (simp add: read_value_def literal_header_def)
  ultimately show ?thesis by blast
qed

lemma serialize_str_value:
  assumes "value_due d s" "unicode v" "0 < indent_step opts" "indent_step opts < 10" "block_scalar_chomp opts = None"
    and "\<not> only_single_quotes v"
  shows "\<exists>t. out (serialize_str opts v s) = out s @ 32 # t \<and> read_value (indent_step opts * d) t = Some v"
proof (cases "prefers_literal opts v s")
  case True
  then have "10 \<in> set v" by (simp add: prefers_literal_def)
  have "s\<lparr>pending_literal := False\<rparr> = s" using assms(1) by (simp add: value_due_def)
  then show ?thesis using write_literal_value [OF assms(1) \<open>10 \<in> set v\<close> assms(3-5)] True by (simp add: serialize_str_def)
next
  case False
  then have plain: "\<not> (pending_literal s \<or> prefers_literal opts v s)" using assms(1) by (simp add: value_due_def)
  have short: "\<exists>t. out (write_short_str opts v s) = out s @ 32 # t \<and> read_value (indent_step opts * d) t = Some v"
    by (rule write_short_str_value [OF assms(1,2)])
  have long: "\<exists>t. out (write_end_of_scalar (write_str (wrapped_text opts w v s) (write_space_if_pending s))) = out s @ 32 # t \<and>
      read_value (indent_step opts * d) t = Some v" for w
    using out_scalar(1) [OF assms(1)] wrapped_text_reads [OF assms(2,6)] read_value_scalar by metis
  show ?thesis
    using short long plain out_scalar(2) [OF assms(1)] by (auto simp: serialize_str_def Let_def split: option.splits)
qed

section \<open>What a plain scalar means\<close>

text \<open>
  The types a plain scalar resolves to under the YAML 1.2 core schema (10.3.2). Its numbers are
  those of the grammar of \<open>float_number\<close>, octal and hexadecimal integers, and four words.
\<close>

datatype core_type = Core_Null | Core_Bool | Core_Number | Core_String

definition special_float :: "utext \<Rightarrow> bool" where
  "special_float s \<longleftrightarrow>
     unsigned_part s \<in> {lit ''.inf'', lit ''.Inf'', lit ''.INF''} \<or> s \<in> {lit ''.nan'', lit ''.NaN'', lit ''.NAN''}"

definition core_type :: "utext \<Rightarrow> core_type" where
  "core_type s =
     (if s \<in> {[], lit ''~'', lit ''null'', lit ''Null'', lit ''NULL''} then Core_Null
      else if s \<in> {lit ''true'', lit ''True'', lit ''TRUE'', lit ''false'', lit ''False'', lit ''FALSE''} then Core_Bool
      else if float_number (unsigned_part s) \<noteq> None \<or> special_float s \<or>
              (has_prefix (lit ''0o'') s \<and> drop 2 s \<noteq> [] \<and> list_all (is_digit_of 8) (drop 2 s)) \<or>
              (has_prefix (lit ''0x'') s \<and> drop 2 s \<noteq> [] \<and> list_all (is_digit_of 16) (drop 2 s)) then Core_Number
      else Core_String)"

text \<open>A decimal number too large for a double.\<close>

definition overflowing :: "utext \<Rightarrow> bool" where
  "overflowing s = (case float_number (unsigned_part s) of Some (ds, e) \<Rightarrow> \<not> finite_double (digits_value ds) e | None \<Rightarrow> False)"

lemma float_exponent_chars: "float_exponent s = Some e \<Longrightarrow> 95 \<notin> set s"
  by (auto simp: float_exponent_def is_ascii_digit_def list_all_iff Let_def split: list.splits if_splits)

lemma no_underscore_in_digits: "95 \<notin> set (dropWhile is_ascii_digit t) \<Longrightarrow> 95 \<notin> set t"
  by (induction t) (auto simp: is_ascii_digit_def split: if_splits)

lemma float_number_chars:
  assumes "float_number s = Some r"
  shows "95 \<notin> set s"
proof (rule no_underscore_in_digits)
  show "95 \<notin> set (dropWhile is_ascii_digit s)"
  proof (cases "dropWhile is_ascii_digit s")
    case Nil
    show ?thesis unfolding Nil by simp
  next
    case (Cons c t)
    show ?thesis
    proof (cases "c = 46")
      case True
      then have "\<exists>e. float_exponent (dropWhile is_ascii_digit t) = Some e"
        using assms Cons by (auto simp: float_number_def Let_def split: if_splits)
      then have "95 \<notin> set t" using float_exponent_chars no_underscore_in_digits by blast
      then show ?thesis using True Cons by simp
    next
      case False
      then have "\<exists>e. float_exponent (c # t) = Some e"
        using assms Cons by (auto simp: float_number_def Let_def split: if_splits)
      then show ?thesis using float_exponent_chars unfolding Cons by blast
    qed
  qed
qed

lemma float_number_finite:
  assumes "float_number (unsigned_part s) = Some (ds, e)"
  shows "parses_as_finite_float s = finite_double (digits_value ds) e"
proof -
  have "95 \<notin> set (unsigned_part s)" using float_number_chars [OF assms] .
  then have "95 \<notin> set s" by (cases s) (auto simp: unsigned_part_def split: if_splits)
  then have "filter (\<lambda>c. c \<noteq> 95) s = s" by (auto simp: filter_id_conv)
  then show ?thesis using assms by (simp add: parses_as_finite_float_def parses_as_finite_def)
qed

lemma trim_no_whitespace: "\<forall>c\<in>set s. \<not> is_whitespace c \<Longrightarrow> trim s = s"
proof -
  assume s: "\<forall>c\<in>set s. \<not> is_whitespace c"
  then have "dropWhile is_whitespace s = s" "dropWhile is_whitespace (rev s) = rev s"
    by (auto simp: dropWhile_eq_self_iff last_in_set hd_in_set hd_rev)
  then show "trim s = s" by (simp add: trim_def trim_start_def trim_end_def)
qed

lemma prefixed_integer:
  assumes "has_prefix (lit p) s" "p = ''0x'' \<and> r = 16 \<or> p = ''0o'' \<and> r = 8"
    and "drop 2 s \<noteq> []" "list_all (is_digit_of r) (drop 2 s)"
  shows "parses_as_integer s"
proof -
  obtain t where s: "s = lit p @ t" using assms(1) by (auto simp: has_prefix_iff)
  then have t: "t \<noteq> []" "list_all (is_digit_of r) t" using assms(2-4) by auto
  have "\<not> is_whitespace c \<and> c \<noteq> 95" if "c \<in> set t" for c
    using t(2) that by (auto simp: list_all_iff is_digit_of_def digit_value_def is_ascii_digit_def is_whitespace_def
        split: if_splits option.splits)
  moreover have "\<forall>c\<in>set (lit p). \<not> is_whitespace c" using assms(2) by (auto simp: is_whitespace_def)
  ultimately have "trim s = s" "filter (\<lambda>c. c \<noteq> 95) t = t"
    by (auto simp: s filter_id_conv intro!: trim_no_whitespace)
  then show ?thesis using assms(2) t by (auto simp: parses_as_integer_def s unsigned_part_def)
qed

lemma eq_lit_ignore_case: "s = lit w \<Longrightarrow> map lower_ascii (lit w) = map lower_ascii (lit v) \<Longrightarrow> eq_ignore_ascii_case s (lit v)"
  by (simp add: eq_ignore_ascii_case_def)

lemma plain_core_type:
  assumes "is_plain_block_value_safe s" "\<not> special_float s" "\<not> overflowing s"
  shows "core_type s = Core_String"
proof -
  have g: "s \<noteq> []" "s \<noteq> lit ''~''" "\<not> eq_ignore_ascii_case s (lit ''null'')" "\<not> parses_as_integer s"
    "\<not> parses_as_finite_float s" "parse_yaml11_bool s = None"
    using assms(1) by (simp_all add: is_plain_block_value_safe_def split: if_splits)
  have "s \<notin> {lit ''null'', lit ''Null'', lit ''NULL''}"
    using g(3) by (auto simp: eq_ignore_ascii_case_def lower_ascii_def)
  moreover have "s \<notin> {lit ''true'', lit ''True'', lit ''TRUE'', lit ''false'', lit ''False'', lit ''FALSE''}"
    using g(6) by (auto simp: parse_yaml11_bool_def lower_ascii_def trim_no_whitespace is_whitespace_def Let_def split: if_splits)
  moreover have "float_number (unsigned_part s) = None"
  proof (cases "float_number (unsigned_part s)")
    case (Some r)
    then show ?thesis using float_number_finite [of s "fst r" "snd r"] g(5) assms(3) by (cases r) (simp add: overflowing_def)
  qed
  moreover have "\<not> (has_prefix (lit ''0o'') s \<and> drop 2 s \<noteq> [] \<and> list_all (is_digit_of 8) (drop 2 s))"
    "\<not> (has_prefix (lit ''0x'') s \<and> drop 2 s \<noteq> [] \<and> list_all (is_digit_of 16) (drop 2 s))"
    using prefixed_integer [of "''0o''" s 8] prefixed_integer [of "''0x''" s 16] g(4) by blast+
  ultimately show ?thesis using g(1,2) assms(2) by (simp add: core_type_def)
qed

end
