(* ===== verification/Yaml_Keys.thy ===== *)
theory Yaml_Keys
  imports Yaml_Writer Rust_Order "HOL-Library.Word"
begin

text \<open>
  The order of mapping keys, \<open>crates/rtk-yaml/src/sort.rs\<close>, and the two ways a JSON value is
  written with its keys in that order: \<open>ExportValue\<close> of \<open>export/process.rs\<close> and the native function
  \<open>manifestYamlFromJson\<close>. Unicode's alphabetic property is a parameter.
\<close>

text \<open>The digits at a position as an \<open>i64\<close> that wraps, after what the zero rule put in front.\<close>

definition run_value :: "64 word \<Rightarrow> utext \<Rightarrow> 64 word" where
  "run_value start s = foldl (\<lambda>n c. n * 10 + (word_of_int c - 48)) start (takeWhile is_ascii_digit s)"

definition run_length :: "utext \<Rightarrow> nat" where
  "run_length s = length (takeWhile is_ascii_digit s)"

text \<open>\<open>seen\<close> is the common prefix, last character first.\<close>

definition run_start :: "utext \<Rightarrow> int \<Rightarrow> int \<Rightarrow> 64 word" where
  "run_start seen a b =
     (if (a = 48 \<or> b = 48) \<and> list_ex (\<lambda>c. c \<noteq> 48) (takeWhile is_ascii_digit seen) then 1 else 0)"

fun compare_from :: "(int \<Rightarrow> bool) \<Rightarrow> utext \<Rightarrow> bool \<Rightarrow> utext \<Rightarrow> utext \<Rightarrow> ordering" where
  "compare_from alphabetic seen digits (a # ar) (b # br) =
     (if a = b then compare_from alphabetic (a # seen) (is_ascii_digit a) ar br
      else
        let al = alphabetic a; bl = alphabetic b
        in if al \<and> bl then compare_lin a b
           else if al \<or> bl then
             (if digits then (if al then Less else Greater) else if bl then Less else Greater)
           else
             let start = run_start seen a b;
                 an = run_value start (a # ar); bn = run_value start (b # br);
                 ai = run_length (a # ar); bi = run_length (b # br)
             in if an \<noteq> bn then compare_lin (sint an) (sint bn)
                else if ai \<noteq> bi then compare_lin (int ai) (int bi)
                else compare_lin a b)"
| "compare_from alphabetic seen digits ar br = compare_lin (int (length ar)) (int (length br))"

definition compare_string_keys :: "(int \<Rightarrow> bool) \<Rightarrow> utext \<Rightarrow> utext \<Rightarrow> ordering" where
  "compare_string_keys alphabetic a b = compare_from alphabetic [] False a b"

text \<open>\<open>sort_by\<close>: stable, by insertion; Rust leaves the result open when the order is not total.\<close>

fun insert_by :: "('a \<Rightarrow> 'a \<Rightarrow> ordering) \<Rightarrow> 'a \<Rightarrow> 'a list \<Rightarrow> 'a list" where
  "insert_by cmp x [] = [x]"
| "insert_by cmp x (y # ys) = (if cmp x y = Greater then y # insert_by cmp x ys else x # y # ys)"

definition sort_by :: "('a \<Rightarrow> 'a \<Rightarrow> ordering) \<Rightarrow> 'a list \<Rightarrow> 'a list" where
  "sort_by cmp xs = foldr (insert_by cmp) xs []"

fun sort_keys :: "(int \<Rightarrow> bool) \<Rightarrow> 'f yaml_value \<Rightarrow> 'f yaml_value" where
  "sort_keys alphabetic (Y_Map es) =
     Y_Map (sort_by (\<lambda>a b. compare_string_keys alphabetic (fst a) (fst b))
              (map (\<lambda>(k, v). (k, sort_keys alphabetic v)) es))"
| "sort_keys alphabetic (Y_Seq vs) = Y_Seq (map (sort_keys alphabetic) vs)"
| "sort_keys alphabetic v = v"

definition export_to_yaml :: "(int \<Rightarrow> bool) \<Rightarrow> 'f doubles \<Rightarrow> 'f \<Rightarrow> 'f yaml_value \<Rightarrow> yaml_error + utext" where
  "export_to_yaml alphabetic fl small v = to_yaml_text fl (tanka_v2 small) (sort_keys alphabetic v)"

definition manifest_yaml_from_json ::
  "(int \<Rightarrow> bool) \<Rightarrow> 'f doubles \<Rightarrow> 'f \<Rightarrow> 'f yaml_value \<Rightarrow> yaml_error + utext" where
  "manifest_yaml_from_json alphabetic fl small parsed =
     and_then (to_yaml_text fl ((tanka_v3 small)\<lparr>legacy_scientific_notation := True\<rparr>) (sort_keys alphabetic parsed))
       (\<lambda>t. Inr (if t \<noteq> [] \<and> List.last t = 10 then t else t @ [10]))"

section \<open>The order\<close>

lemma compare_from_flip:
  "compare_from alphabetic seen digits b a = flip (compare_from alphabetic seen digits a b)"
proof (induction alphabetic seen digits a b rule: compare_from.induct)
  case (1 alphabetic seen digits a ar b br)
  show ?case
  proof (cases "a = b")
    case False
    have "run_start seen b a = run_start seen a b" by (auto simp: run_start_def)
    then show ?thesis using False by (auto simp: Let_def compare_lin_flip)
  qed (use 1 in simp)
qed (auto simp: compare_lin_flip)

lemma compare_from_Equal: "compare_from alphabetic seen digits a b = Equal \<longleftrightarrow> a = b"
proof (induction alphabetic seen digits a b rule: compare_from.induct)
  case (1 alphabetic seen digits a ar b br)
  have [simp]: "x \<noteq> y \<Longrightarrow> sint x \<noteq> sint y" for x y :: "64 word" using signed_word_eqI by blast
  from 1 show ?case by (auto simp: Let_def)
qed auto

lemma mset_insert_by [simp]: "mset (insert_by cmp x ys) = add_mset x (mset ys)"
  by (induction ys) auto

lemma mset_sort_by [simp]: "mset (sort_by cmp xs) = mset xs"
  by (induction xs) (auto simp: sort_by_def)

end
