(* ===== verification/Yaml_Order.thy ===== *)
theory Yaml_Order
  imports Yaml_Keys "HOL-Library.List_Lexorder" "HOL-Library.Product_Lexorder"
begin

text \<open>
  The natural order of keys as a specification: a key is cut into numbers and single characters, and
  two keys compare by the first token in which they differ. \<open>compare_string_keys\<close> implements it as
  long as no run of digits overflows an \<open>i64\<close>; the order is then total.
\<close>

section \<open>The natural order\<close>

datatype key_token = Num (num_value: int) (num_length: nat) | Chr int

function tokens :: "utext \<Rightarrow> key_token list" where
  "tokens [] = []"
| "tokens (c # s) =
     (if is_ascii_digit c
      then Num (digits_value (takeWhile is_ascii_digit (c # s))) (run_length (c # s)) # tokens (dropWhile is_ascii_digit (c # s))
      else Chr c # tokens s)"
  by pat_completeness auto
termination
  by (relation "measure length") (auto simp: length_dropWhile_le le_imp_less_Suc)

declare tokens.simps [simp del]

fun token_cmp :: "(int \<Rightarrow> bool) \<Rightarrow> bool \<Rightarrow> key_token \<Rightarrow> key_token \<Rightarrow> ordering" where
  "token_cmp alphabetic after_number (Num v l) (Num w m) = (if v \<noteq> w then compare_lin v w else compare_lin l m)"
| "token_cmp alphabetic after_number (Num v l) (Chr c) = (if alphabetic c then Less else Greater)"
| "token_cmp alphabetic after_number (Chr c) (Num v l) = (if alphabetic c then Greater else Less)"
| "token_cmp alphabetic after_number (Chr a) (Chr b) =
     (if alphabetic a = alphabetic b then compare_lin a b
      else if alphabetic a = after_number then Less else Greater)"

fun is_num :: "key_token \<Rightarrow> bool" where
  "is_num (Num v l) = True"
| "is_num (Chr c) = False"

fun tokens_cmp :: "(int \<Rightarrow> bool) \<Rightarrow> bool \<Rightarrow> key_token list \<Rightarrow> key_token list \<Rightarrow> ordering" where
  "tokens_cmp alphabetic after_number [] [] = Equal"
| "tokens_cmp alphabetic after_number [] (y # ys) = Less"
| "tokens_cmp alphabetic after_number (x # xs) [] = Greater"
| "tokens_cmp alphabetic after_number (x # xs) (y # ys) =
     (if x = y then tokens_cmp alphabetic (is_num x) xs ys else token_cmp alphabetic after_number x y)"

section \<open>Numbers\<close>

definition digit_text :: "utext \<Rightarrow> bool" where
  "digit_text ds \<longleftrightarrow> list_all is_ascii_digit ds"

lemma digit_text_simps [simp]:
  "digit_text []" "digit_text (d # ds) \<longleftrightarrow> is_ascii_digit d \<and> digit_text ds"
  "digit_text (ds @ es) \<longleftrightarrow> digit_text ds \<and> digit_text es"
  "digit_text (rev ds) \<longleftrightarrow> digit_text ds"
  "digit_text (takeWhile is_ascii_digit s)"
  by (auto simp: digit_text_def list_all_iff dest: set_takeWhileD)

definition value_from :: "int \<Rightarrow> utext \<Rightarrow> int" where
  "value_from m ds = foldl (\<lambda>n d. 10 * n + (d - 48)) m ds"

lemma value_from_simps [simp]:
  "value_from m [] = m"
  "value_from m (d # ds) = value_from (10 * m + (d - 48)) ds"
  "value_from m (ds @ es) = value_from (value_from m ds) es"
  by (simp_all add: value_from_def)

lemma digits_value_from: "digits_value ds = value_from 0 ds"
  by (simp add: digits_value_def value_from_def)

lemma value_from_split: "value_from m ds = m * 10 ^ length ds + value_from 0 ds"
proof (induction ds arbitrary: m)
  case (Cons d ds)
  show ?case using Cons [of "10 * m + (d - 48)"] Cons [of "d - 48"] by (simp add: algebra_simps)
qed simp

lemma value_from_bounds: "digit_text ds \<Longrightarrow> 0 \<le> value_from 0 ds \<and> value_from 0 ds < 10 ^ length ds"
proof (induction ds)
  case (Cons d ds)
  then have "0 \<le> d - 48" "d - 48 \<le> 9" by (auto simp: is_ascii_digit_def)
  then have "0 \<le> (d - 48) * 10 ^ length ds" "(d - 48) * 10 ^ length ds \<le> 9 * 10 ^ length ds"
    by (simp, intro mult_right_mono) auto
  moreover have "value_from 0 (d # ds) = (d - 48) * 10 ^ length ds + value_from 0 ds"
    using value_from_split [of "d - 48" ds] by simp
  moreover have "0 \<le> value_from 0 ds" "value_from 0 ds < 10 ^ length ds" using Cons by simp_all
  moreover have "10 ^ length (d # ds) = 9 * 10 ^ length ds + (10 ^ length ds :: int)" by simp
  ultimately show ?case by linarith
qed simp

lemma value_from_leading:
  assumes "digit_text ds" "is_ascii_digit d" "d \<noteq> 48"
  shows "10 ^ length ds \<le> value_from 0 (d # ds)"
proof -
  have "1 \<le> d - 48" using assms(2,3) by (auto simp: is_ascii_digit_def)
  then have "1 * 10 ^ length ds \<le> (d - 48) * 10 ^ length ds" by (intro mult_right_mono) auto
  moreover have "value_from 0 (d # ds) = (d - 48) * 10 ^ length ds + value_from 0 ds"
    using value_from_split [of "d - 48" ds] by simp
  ultimately show ?thesis using value_from_bounds [OF assms(1)] by linarith
qed

lemma value_from_inj:
  "digit_text xs \<Longrightarrow> digit_text ys \<Longrightarrow> length xs = length ys \<Longrightarrow> value_from 0 xs = value_from 0 ys \<Longrightarrow> xs = ys"
proof (induction xs arbitrary: ys rule: rev_induct)
  case (snoc x xs zs)
  then obtain y ys where zs: "zs = ys @ [y]" by (cases zs rule: rev_cases) auto
  note snoc = snoc [unfolded zs]
  then have "10 * value_from 0 xs + (x - 48) = 10 * value_from 0 ys + (y - 48)" by simp
  moreover have "0 \<le> x - 48" "x - 48 < 10" "0 \<le> y - 48" "y - 48 < 10" using snoc by (auto simp: is_ascii_digit_def)
  ultimately have "value_from 0 xs = value_from 0 ys" "x = y" by presburger+
  with snoc show ?case unfolding zs by simp
qed auto

text \<open>The comparison of two runs of digits behind the same digits, which have the value \<open>p\<close>.\<close>

definition start_of :: "int \<Rightarrow> utext \<Rightarrow> utext \<Rightarrow> int" where
  "start_of p x y = (if p > 0 \<and> (x \<noteq> [] \<and> hd x = 48 \<or> y \<noteq> [] \<and> hd y = 48) then 1 else 0)"

lemma longer_number:
  assumes "digit_text x" "digit_text y" "length y < length x" "p > 0"
  shows "value_from p y < value_from p x \<and> value_from (start_of p x y) y < value_from (start_of p x y) x"
proof -
  obtain a xs where x: "x = a # xs" using assms(3) by (cases x) auto
  have vx: "0 \<le> value_from 0 x" "a \<noteq> 48 \<Longrightarrow> 10 ^ length y \<le> value_from 0 x"
  proof -
    show "0 \<le> value_from 0 x" using value_from_bounds [OF assms(1)] by simp
    assume "a \<noteq> 48"
    then have "10 ^ length xs \<le> value_from 0 x" using value_from_leading [of xs a] assms(1) x by simp
    moreover have "10 ^ length y \<le> (10::int) ^ length xs" using assms(3) x by (intro power_increasing) auto
    ultimately show "10 ^ length y \<le> value_from 0 x" by (rule order_trans [rotated])
  qed
  have vy: "value_from 0 y < 10 ^ length y" using value_from_bounds [OF assms(2)] by simp
  have step: "q * 10 ^ length y + 10 ^ length y \<le> q * 10 ^ length x" if "q \<ge> 1" for q :: int
  proof -
    have "(q + 1) * 10 ^ length y \<le> 10 * q * 10 ^ length y" using that by (intro mult_right_mono) auto
    also have "\<dots> \<le> 10 * q * 10 ^ length xs" using that assms(3) x by (intro mult_left_mono) auto
    finally show ?thesis using x by (simp add: algebra_simps)
  qed
  have "value_from p y < value_from p x"
    using step [of p] vx(1) vy assms(4) value_from_split [of p x] value_from_split [of p y] by linarith
  moreover have "value_from (start_of p x y) y < value_from (start_of p x y) x"
  proof (cases "start_of p x y = 1")
    case True
    then show ?thesis using step [of 1] vx(1) vy value_from_split [of 1 x] value_from_split [of 1 y] by simp
  next
    case False
    then have "start_of p x y = 0" "a \<noteq> 48" using assms(4) x by (auto simp: start_of_def split: if_splits)
    then show ?thesis using vx(2) vy by simp
  qed
  ultimately show ?thesis by simp
qed

lemma compare_numbers:
  assumes "digit_text x" "digit_text y" "0 \<le> p"
  shows "compare_lin (value_from (start_of p x y) x) (value_from (start_of p x y) y) =
    compare_lin (value_from p x) (value_from p y)"
proof (cases "p > 0 \<and> length x \<noteq> length y")
  case True
  then consider "length y < length x" | "length x < length y" by linarith
  then show ?thesis
  proof cases
    case 1
    then show ?thesis using longer_number [OF assms(1,2), of p] True by (simp add: compare_lin_def)
  next
    case 2
    moreover have "start_of p y x = start_of p x y" by (auto simp: start_of_def)
    ultimately show ?thesis using longer_number [OF assms(2,1), of p] True by (simp add: compare_lin_def)
  qed
next
  case False
  then have "p = 0 \<or> length x = length y" using assms(3) by linarith
  then show ?thesis
  proof
    assume "p = 0"
    then show ?thesis by (simp add: start_of_def)
  next
    assume "length x = length y"
    then show ?thesis
      using value_from_split [of p x] value_from_split [of p y] value_from_split [of "start_of p x y" x]
        value_from_split [of "start_of p x y" y] by (simp add: compare_lin_def)
  qed
qed

section \<open>Machine integers\<close>

lemma run_value_int: "run_value (word_of_int m) s = word_of_int (value_from m (takeWhile is_ascii_digit s))"
proof -
  have step: "word_of_int k * 10 + (word_of_int d - 48) = (word_of_int (10 * k + (d - 48)) :: 64 word)" for k d
    by simp
  have "foldl (\<lambda>n c. n * 10 + (word_of_int c - 48)) (word_of_int m :: 64 word) ds = word_of_int (value_from m ds)" for ds
    by (induction ds arbitrary: m) (simp_all only: foldl_Cons foldl_Nil step value_from_simps)
  then show ?thesis by (simp add: run_value_def)
qed

lemma sint_small: "0 \<le> z \<Longrightarrow> z < 2 ^ 63 \<Longrightarrow> sint (word_of_int z :: 64 word) = z"
  by (simp add: sint_sbintrunc' signed_take_bit_int_eq_self)

section \<open>The implementation\<close>

text \<open>No run of digits is longer than eighteen.\<close>

fun short_numbers :: "utext \<Rightarrow> bool" where
  "short_numbers [] = True"
| "short_numbers (c # s) = (run_length (c # s) \<le> 18 \<and> short_numbers s)"

lemma value_from_mono: "digit_text y \<Longrightarrow> 0 \<le> p \<Longrightarrow> p \<le> value_from p y"
  using value_from_bounds [of y] value_from_split [of p y] mult_left_mono [of 1 "10 ^ length y" p] by simp

lemma value_from_pos: "digit_text ds \<Longrightarrow> value_from 0 ds > 0 \<longleftrightarrow> list_ex (\<lambda>c. c \<noteq> 48) ds"
proof (induction ds rule: rev_induct)
  case (snoc d ds)
  then show ?case using value_from_bounds [of ds] by (auto simp: is_ascii_digit_def)
qed simp

lemma tokens_number:
  assumes "digit_text P" "x = takeWhile is_ascii_digit s" "P @ x \<noteq> []"
  shows "tokens (P @ s) = Num (value_from (value_from 0 P) x) (length P + length x) # tokens (dropWhile is_ascii_digit s)"
proof -
  have take: "takeWhile is_ascii_digit (P @ s) = P @ x" "dropWhile is_ascii_digit (P @ s) = dropWhile is_ascii_digit s"
    using assms(1,2) by (auto simp: digit_text_def list_all_iff takeWhile_append dropWhile_append)
  then obtain c t where Ps: "P @ s = c # t" "is_ascii_digit c"
    using assms(3) by (cases "P @ s") (auto split: if_splits)
  show ?thesis using take Ps(2) unfolding Ps(1)
    by (simp add: tokens.simps digits_value_from run_length_def del: takeWhile.simps dropWhile.simps)
qed

lemma tokens_chr: "\<not> is_ascii_digit c \<Longrightarrow> tokens (c # s) = Chr c # tokens s"
  by (simp add: tokens.simps)

lemma numbers_differ:
  assumes "digit_text P" "digit_text x" "digit_text y" "length x = length y" "x \<noteq> y"
  shows "value_from (value_from 0 P) x \<noteq> value_from (value_from 0 P) y"
  using value_from_inj [of "P @ x" "P @ y"] assms by auto

lemma number_step:
  assumes "x = takeWhile is_ascii_digit (a # ar)" "y = takeWhile is_ascii_digit (b # br)"
    and "P = rev (takeWhile is_ascii_digit seen)" "a \<noteq> b" "x \<noteq> [] \<or> y \<noteq> []" "length x \<le> 18" "length y \<le> 18"
  defines "an \<equiv> run_value (run_start seen a b) (a # ar)" and "bn \<equiv> run_value (run_start seen a b) (b # br)"
  shows "(if an \<noteq> bn then compare_lin (sint an) (sint bn)
      else if length x \<noteq> length y then compare_lin (int (length x)) (int (length y)) else compare_lin a b) =
    token_cmp alphabetic after (Num (value_from (value_from 0 P) x) (length P + length x))
      (Num (value_from (value_from 0 P) y) (length P + length y))"
proof -
  let ?p = "value_from 0 P"
  let ?st = "start_of ?p x y"
  have digits: "digit_text P" "digit_text x" "digit_text y" using assms(1-3) by simp_all
  have p: "0 \<le> ?p" using value_from_bounds [OF digits(1)] by simp
  have "list_ex (\<lambda>c. c \<noteq> 48) (takeWhile is_ascii_digit seen) \<longleftrightarrow> ?p > 0"
    using value_from_pos [OF digits(1)] assms(3) by (simp add: list_ex_iff)
  then have "run_start seen a b = word_of_int ?st"
    using assms(1,2) by (auto simp: run_start_def start_of_def is_ascii_digit_def)
  then have an: "an = word_of_int (value_from ?st x)" "bn = word_of_int (value_from ?st y)"
    unfolding an_def bn_def assms(1,2) by (simp_all only: run_value_int)
  have small: "0 \<le> value_from ?st d \<and> value_from ?st d < 2 ^ 63" if "digit_text d" "length d \<le> 18" for d
  proof -
    have "0 \<le> ?st" "?st \<le> 1" by (simp_all add: start_of_def)
    moreover have "(10::int) ^ length d \<le> 10 ^ 18" using that(2) by (intro power_increasing) auto
    moreover have "?st * 10 ^ length d \<le> 1 * 10 ^ length d"
      using calculation(2) by (intro mult_right_mono) auto
    moreover have "0 \<le> ?st * 10 ^ length d"
      using calculation(1) by simp
    moreover have "(10::int) ^ 18 + 10 ^ 18 < 2 ^ 63" by simp
    ultimately show ?thesis using value_from_bounds [OF that(1)] value_from_split [of ?st d] by linarith
  qed
  have ints: "sint an = value_from ?st x" "sint bn = value_from ?st y"
    unfolding an using small [OF digits(2) assms(6)] small [OF digits(3) assms(7)] by (simp_all add: sint_small)
  then have "an = bn \<longleftrightarrow> value_from ?st x = value_from ?st y" using an by metis
  moreover have "compare_lin (value_from ?st x) (value_from ?st y) = compare_lin (value_from ?p x) (value_from ?p y)"
    by (rule compare_numbers [OF digits(2,3) p])
  moreover from this have "value_from ?st x = value_from ?st y \<longleftrightarrow> value_from ?p x = value_from ?p y"
    by (metis compare_lin_simps(2))
  moreover have "length x \<noteq> length y" if "value_from ?p x = value_from ?p y"
  proof
    assume "length x = length y"
    then have "x = y" using numbers_differ [OF digits] that by blast
    then show False using assms(1,2,4,5) by (auto split: if_splits)
  qed
  ultimately show ?thesis using ints by (auto simp: compare_lin_def)
qed

lemma token_cmp_flip: "x \<noteq> y \<Longrightarrow> token_cmp alphabetic af y x = flip (token_cmp alphabetic af x y)"
  by (cases x; cases y) (auto simp: compare_lin_flip)

lemma tokens_cmp_flip: "tokens_cmp alphabetic af u t = flip (tokens_cmp alphabetic af t u)"
proof (induction alphabetic af t u rule: tokens_cmp.induct)
  case (4 alphabetic af x xs y ys)
  then show ?case using token_cmp_flip [of x y alphabetic af] by (cases "x = y") auto
qed simp_all

lemma tokens_cmp_refl [simp]: "tokens_cmp alphabetic af t t = Equal"
  by (induction t arbitrary: af) auto

lemma longer_Num:
  assumes "digit_text y" "y \<noteq> []" "0 \<le> p"
  shows "token_cmp alphabetic af (Num p l) (Num (value_from p y) (l + length y)) = Less"
  using value_from_mono [OF assms(1,3)] assms(2) by (auto simp: compare_lin_def)

lemma token_cmp_refl [simp]: "token_cmp alphabetic af x x = Equal"
  by (cases x) simp_all

lemma token_cmp_differ: "token_cmp alphabetic af x y \<noteq> Equal \<Longrightarrow> x \<noteq> y"
  by (cases y) auto

lemma tokens_Nil_iff [simp]: "tokens s = [] \<longleftrightarrow> s = []"
  by (cases s) (simp_all add: tokens.simps)

lemma prefix_first:
  assumes "digit_text P" "s \<noteq> []"
  shows "tokens_cmp alphabetic False (tokens P) (tokens (P @ s)) = Less"
proof (cases "P = []")
  case True
  obtain y ys where "tokens s = y # ys" using assms(2) by (cases "tokens s") auto
  then show ?thesis using True by (simp add: tokens.simps)
next
  case False
  define y where "y = takeWhile is_ascii_digit s"
  have P: "tokens P = [Num (value_from 0 P) (length P)]"
    using tokens_number [of P "[]" "[]"] assms(1) False by (simp add: tokens.simps)
  have Ps: "tokens (P @ s) = Num (value_from (value_from 0 P) y) (length P + length y) # tokens (dropWhile is_ascii_digit s)"
    using tokens_number [of P y s] assms(1) False y_def by simp
  show ?thesis
  proof (cases "y = []")
    case True
    then have "dropWhile is_ascii_digit s = s" using y_def takeWhile_dropWhile_id [of is_ascii_digit s] by simp
    moreover obtain u us where "tokens s = u # us" using assms(2) by (cases "tokens s") auto
    ultimately show ?thesis using P Ps True by simp
  next
    case False
    have "0 \<le> value_from 0 P" using value_from_bounds [OF assms(1)] by simp
    then have "token_cmp alphabetic False (Num (value_from 0 P) (length P))
        (Num (value_from (value_from 0 P) y) (length P + length y)) = Less"
      using False y_def by (intro longer_Num) simp_all
    then show ?thesis using P Ps False by (auto simp del: token_cmp.simps)
  qed
qed

text \<open>Two keys at the first characters that differ, behind the digits \<open>P\<close>.\<close>

lemma compare_difference:
  assumes alphabetic: "\<And>c. is_ascii_digit c \<Longrightarrow> \<not> alphabetic c"
    and "a \<noteq> b" "P = rev (takeWhile is_ascii_digit seen)" "run_length (a # ar) \<le> 18" "run_length (b # br) \<le> 18"
  shows "compare_from alphabetic seen (P \<noteq> []) (a # ar) (b # br) =
    tokens_cmp alphabetic False (tokens (P @ a # ar)) (tokens (P @ b # br))"
proof -
  define x where "x = takeWhile is_ascii_digit (a # ar)"
  define y where "y = takeWhile is_ascii_digit (b # br)"
  let ?p = "value_from 0 P"
  have digits: "digit_text P" "digit_text x" "digit_text y" using assms(3) by (simp_all add: x_def y_def)
  have p: "0 \<le> ?p" using value_from_bounds [OF digits(1)] by simp
  have lens: "run_length (a # ar) = length x" "run_length (b # br) = length y"
    by (simp_all add: run_length_def x_def y_def del: takeWhile.simps)
  have empty: "x = [] \<longleftrightarrow> \<not> is_ascii_digit a" "y = [] \<longleftrightarrow> \<not> is_ascii_digit b" by (simp_all add: x_def y_def)
  have num: "P @ x \<noteq> [] \<Longrightarrow> tokens (P @ a # ar) = Num (value_from ?p x) (length P + length x) # tokens (dropWhile is_ascii_digit (a # ar))"
    "P @ y \<noteq> [] \<Longrightarrow> tokens (P @ b # br) = Num (value_from ?p y) (length P + length y) # tokens (dropWhile is_ascii_digit (b # br))"
    using tokens_number [OF digits(1) x_def] tokens_number [OF digits(1) y_def] by simp_all
  have small: "length x \<le> 18" "length y \<le> 18" using assms(4,5) lens by simp_all
  note step = number_step [OF x_def y_def assms(3,2) _ small, of alphabetic False]
  consider "x = []" "y = []" | "x = []" "y \<noteq> []" | "x \<noteq> []" "y = []" | "x \<noteq> []" "y \<noteq> []" by blast
  then show ?thesis
  proof cases
    case 1
    then have run: "run_value st (a # ar) = st" "run_value st (b # br) = st" for st
      using empty by (simp_all add: run_value_def)
    have "tokens (a # ar) = Chr a # tokens ar" "tokens (b # br) = Chr b # tokens br"
      using 1 empty by (simp_all add: tokens_chr)
    then have "tokens_cmp alphabetic False (tokens (P @ a # ar)) (tokens (P @ b # br)) =
        token_cmp alphabetic (P \<noteq> []) (Chr a) (Chr b)"
      using 1 empty num assms(2) by (cases "P = []") simp_all
    then show ?thesis using run lens 1 assms(2) by (auto simp: Let_def)
  next
    case 2
    have Less: "token_cmp alphabetic False (Num ?p (length P)) (Num (value_from ?p y) (length P + length y)) = Less"
      using longer_Num [OF digits(3) 2(2) p] .
    have b: "\<not> alphabetic b" using alphabetic empty 2 by simp
    have rhs: "tokens_cmp alphabetic False (tokens (P @ a # ar)) (tokens (P @ b # br)) =
        (if P = [] \<and> alphabetic a then Greater else Less)"
    proof (cases "P = []")
      case True
      then show ?thesis using num(2) 2 empty by (simp add: tokens_chr)
    next
      case False
      then show ?thesis using num 2 Less token_cmp_differ [of alphabetic False] by (auto simp del: token_cmp.simps)
    qed
    show ?thesis using step 2 Less b rhs lens assms(2) by (auto simp: Let_def simp del: token_cmp.simps)
  next
    case 3
    have Less: "token_cmp alphabetic False (Num (value_from ?p x) (length P + length x)) (Num ?p (length P)) = Greater"
      using longer_Num [OF digits(2) 3(1) p, of alphabetic False "length P"] by (auto simp: compare_lin_def split: if_splits)
    have a: "\<not> alphabetic a" using alphabetic empty 3 by simp
    have rhs: "tokens_cmp alphabetic False (tokens (P @ a # ar)) (tokens (P @ b # br)) =
        (if P = [] \<and> alphabetic b then Less else Greater)"
    proof (cases "P = []")
      case True
      then show ?thesis using num(1) 3 empty by (simp add: tokens_chr)
    next
      case False
      then show ?thesis using num 3 Less token_cmp_differ [of alphabetic False] by (auto simp del: token_cmp.simps)
    qed
    show ?thesis using step 3 Less a rhs lens assms(2) by (auto simp: Let_def simp del: token_cmp.simps)
  next
    case 4
    then have ab: "\<not> alphabetic a" "\<not> alphabetic b" using alphabetic empty by simp_all
    have "token_cmp alphabetic False (Num (value_from ?p x) (length P + length x)) (Num (value_from ?p y) (length P + length y)) \<noteq> Equal"
      using numbers_differ [OF digits] value_from_inj [OF digits(2,3)] x_def y_def assms(2) 4
      by (auto simp: compare_lin_def split: if_splits)
    then show ?thesis using step 4 ab num lens assms(2) token_cmp_differ [of alphabetic False]
      by (auto simp: Let_def simp del: token_cmp.simps)
  qed
qed

lemma compare_from_tokens:
  assumes "\<And>c. is_ascii_digit c \<Longrightarrow> \<not> alphabetic c"
  shows "short_numbers ar \<Longrightarrow> short_numbers br \<Longrightarrow> P = rev (takeWhile is_ascii_digit seen) \<Longrightarrow>
    compare_from alphabetic seen (P \<noteq> []) ar br = tokens_cmp alphabetic False (tokens (P @ ar)) (tokens (P @ br))"
proof (induction ar arbitrary: br seen P)
  case Nil
  then have "digit_text P" by simp
  from prefix_first [OF this] show ?case by (cases br) (auto simp: compare_lin_def)
next
  case (Cons a ar)
  then have digits: "digit_text P" by simp
  show ?case
  proof (cases br)
    case Nil
    then show ?thesis using prefix_first [OF digits, of "a # ar" alphabetic]
        tokens_cmp_flip [of alphabetic False "tokens (P @ a # ar)" "tokens P"] by (simp add: compare_lin_def)
  next
    case (Cons b bs)
    show ?thesis
    proof (cases "a = b")
      case False
      then show ?thesis using compare_difference [of alphabetic a b P seen ar bs, OF assms False Cons.prems(3)] Cons Cons.prems by simp
    next
      case True
      show ?thesis
      proof (cases "is_ascii_digit a")
        case True
        then have "P @ [a] = rev (takeWhile is_ascii_digit (a # seen))" using Cons.prems(3) by simp
        from Cons.IH [OF _ _ this, of bs] show ?thesis using Cons.prems \<open>br = b # bs\<close> \<open>a = b\<close> True by simp
      next
        case False
        then have "tokens (P @ a # s) = (if P = [] then [] else [Num (value_from 0 P) (length P)]) @ Chr a # tokens s" for s
          using tokens_number [OF digits, of "[]" "a # s"] by (simp add: tokens_chr)
        moreover have "compare_from alphabetic (a # seen) False ar bs = tokens_cmp alphabetic False (tokens ar) (tokens bs)"
          using Cons.IH [of bs "[]" "a # seen"] Cons.prems \<open>br = b # bs\<close> False by simp
        ultimately show ?thesis using \<open>br = b # bs\<close> \<open>a = b\<close> False by simp
      qed
    qed
  qed
qed

section \<open>A sort key\<close>

text \<open>
  A token as a triple of integers: other characters come before numbers and these before letters,
  except that right after a number letters come before other characters.
\<close>

fun token_key :: "(int \<Rightarrow> bool) \<Rightarrow> bool \<Rightarrow> key_token \<Rightarrow> int \<times> int \<times> int" where
  "token_key alphabetic after_number (Num v l) = (1, v, int l)"
| "token_key alphabetic after_number (Chr c) = (if alphabetic c = after_number then 0 else 2, c, 0)"

fun token_keys :: "(int \<Rightarrow> bool) \<Rightarrow> bool \<Rightarrow> key_token list \<Rightarrow> (int \<times> int \<times> int) list" where
  "token_keys alphabetic after_number [] = []"
| "token_keys alphabetic after_number (t # ts) = token_key alphabetic after_number t # token_keys alphabetic (is_num t) ts"

definition natural_key :: "(int \<Rightarrow> bool) \<Rightarrow> utext \<Rightarrow> (int \<times> int \<times> int) list" where
  "natural_key alphabetic s = token_keys alphabetic False (tokens s)"

fun separated :: "bool \<Rightarrow> key_token list \<Rightarrow> bool" where
  "separated after_number [] = True"
| "separated after_number (t # ts) = (\<not> (after_number \<and> is_num t) \<and> separated (is_num t) ts)"

lemma separated_tokens: "separated (s \<noteq> [] \<and> \<not> is_ascii_digit (hd s)) (tokens s)"
proof (induction s rule: tokens.induct)
  case (2 c s)
  let ?r = "dropWhile is_ascii_digit (c # s)"
  have r: "?r = [] \<or> \<not> is_ascii_digit (hd ?r)" using hd_dropWhile [of is_ascii_digit "c # s"] by blast
  have weaken: "separated True ts \<Longrightarrow> separated af ts" for af ts by (cases ts) auto
  show ?case
  proof (cases "is_ascii_digit c")
    case True
    have "separated True (tokens r)" if "separated (r \<noteq> [] \<and> \<not> is_ascii_digit (hd r)) (tokens r)"
      "r = [] \<or> \<not> is_ascii_digit (hd r)" for r
      using that by (cases "r = []") (auto simp: tokens.simps(1))
    from this [OF 2(1) [OF True] r] have "separated True (tokens ?r)" .
    then show ?thesis using True by (simp add: tokens.simps(2))
  next
    case False
    have "separated False (tokens s)"
      using 2(2) [OF False] weaken by (cases "s \<noteq> [] \<and> \<not> is_ascii_digit (hd s)") auto
    then show ?thesis using False by (simp add: tokens.simps(2))
  qed
qed (simp add: tokens.simps)

lemma token_key_inj: "token_key alphabetic af x = token_key alphabetic af y \<longleftrightarrow> x = y"
  by (cases x; cases y) auto

lemma token_cmp_key:
  assumes "\<not> (af \<and> is_num x)" "\<not> (af \<and> is_num y)"
  shows "token_cmp alphabetic af x y = compare_lin (token_key alphabetic af x) (token_key alphabetic af y)"
  using assms by (cases x; cases y) (auto simp: compare_lin_def)

lemma tokens_cmp_key:
  "separated af xs \<Longrightarrow> separated af ys \<Longrightarrow>
   tokens_cmp alphabetic af xs ys = compare_lin (token_keys alphabetic af xs) (token_keys alphabetic af ys)"
proof (induction alphabetic af xs ys rule: tokens_cmp.induct)
  case (4 alphabetic af x xs y ys)
  show ?case
  proof (cases "x = y")
    case True
    then show ?thesis using 4 by (auto simp: compare_lin_def)
  next
    case False
    then show ?thesis using 4(2,3) token_cmp_key [of af x y alphabetic]
      by (auto simp: compare_lin_def token_key_inj)
  qed
qed (auto simp: compare_lin_def)

lemma compare_string_keys_key:
  assumes "\<And>c. is_ascii_digit c \<Longrightarrow> \<not> alphabetic c" "short_numbers a" "short_numbers b"
  shows "compare_string_keys alphabetic a b = compare_lin (natural_key alphabetic a) (natural_key alphabetic b)"
proof -
  have sep: "separated False (tokens s)" for s
    using separated_tokens [of s] by (cases "tokens s") (auto simp: tokens.simps(1) split: if_splits)
  show ?thesis
    using compare_from_tokens [where P = "[]" and seen = "[]", OF assms] tokens_cmp_key [OF sep sep]
    by (simp add: compare_string_keys_def natural_key_def)
qed

section \<open>Sorting by a key\<close>

lemma insert_by_key:
  "(\<And>y. y \<in> set ys \<Longrightarrow> cmp x y = compare_lin (f x) (f y)) \<Longrightarrow> insert_by cmp x ys = insort_key f x ys"
  by (induction ys) (auto simp: compare_lin_def)

lemma sort_by_key:
  "(\<And>x y. x \<in> set xs \<Longrightarrow> y \<in> set xs \<Longrightarrow> cmp x y = compare_lin (f x) (f y)) \<Longrightarrow> sort_by cmp xs = sort_key f xs"
proof (induction xs)
  case (Cons x xs)
  then have "sort_by cmp xs = sort_key f xs" by simp
  moreover have "insert_by cmp x (sort_key f xs) = insort_key f x (sort_key f xs)"
    using Cons.prems by (intro insert_by_key) simp
  ultimately show ?case by (simp add: sort_by_def)
qed (simp add: sort_by_def)

end
