(* ===== verification/Yaml_Properties.thy ===== *)
theory Yaml_Properties
  imports Yaml_Facts Yaml_Order
begin

text \<open>
  The properties of the YAML writer: strings read back, plain strings are strings, and the cases
  where they do not; the order of keys.
\<close>

section \<open>Examples\<close>

text \<open>Whole numbers as doubles, for examples without fractions.\<close>

definition whole_doubles :: "int doubles" where
  "whole_doubles =
     \<lparr>is_nan = (\<lambda>_. False), is_infinite = (\<lambda>_. False), is_sign_negative = (\<lambda>x. x < 0), is_zero = (\<lambda>x. x = 0),
      abs_at_least = (\<lambda>x t. \<bar>x\<bar> \<ge> t), abs_less = (\<lambda>x y. \<bar>x\<bar> < y), of_integer = (\<lambda>x. x),
      ryu_format = (\<lambda>x. int_text x @ lit ''.0''), log10_floor = (\<lambda>_. 0), mantissa_text = (\<lambda>x _. int_text x),
      whole_below_1e16 = (\<lambda>_. True), format_0 = int_text, format_15 = (\<lambda>x. int_text x @ lit ''.000000000000000'')\<rparr>"

text \<open>The state after the first key of a document.\<close>

definition after_key :: "utext \<Rightarrow> yaml_ser" where
  "after_key key =
     (let (m, s) = serialize_map (tanka_v2 (0::int)) ser_new
      in before_value m (serialize_key (tanka_v2 (0::int)) m key s))"

section \<open>Strings read back\<close>



section \<open>A comment that was data\<close>

text \<open>
  C37. A long string with a single quote inside that also has a space before a number sign is written
  plain, and everything from the number sign on is read as a comment: the value read back is shorter.
\<close>

theorem comment_cuts_string:
  assumes "value_due d s" "line_width opts = Some w" "0 < w" "first_line_offset opts s + length v + 2 > w"
    and "only_single_quotes v" "has_substring (lit '' #'') v" "\<not> has_chars_needing_escape v"
  shows "\<exists>t x rest. out (serialize_str opts v s) = out s @ 32 # t @ [10] \<and>
    read_scalar t = Some (x, rest) \<and> length x < length v"
proof -
  have no_ctl: "10 \<notin> set v" "9 \<notin> set v" and alpha: "is_ascii_alphabetic (hd v)"
    using assms(5) by (auto simp: only_single_quotes_def list_ex_iff)
  have v: "v \<noteq> []" using assms(6) by (auto simp: has_substring_def)
  then have wraps: "wraps_line opts v s" "\<not> prefers_literal opts v s" "content_length v = length v + 2"
    using assms(1,7) no_ctl by (auto simp: wraps_line_def prefers_literal_def value_due_def content_length_def)
  define t where "t = wrapped_text opts w v s"
  have t: "t = wrap_plain (continuation_indent opts s) w (first_line_offset opts s) False v"
    using assms(5) v by (simp add: t_def wrapped_text_def write_plain_with_wrap_def)
  have "out (serialize_str opts v s) = out s @ 32 # t @ [10]"
    using out_scalar(1) [OF assms(1), of t] out_scalar(2) [OF assms(1)] wraps assms(1-4)
    by (simp add: serialize_str_def value_due_def t_def Let_def)
  moreover obtain x rest where "read_plain t = Some (x, rest)" "length x < length v"
    using read_plain_comment [OF no_ctl, of "continuation_indent opts s" w "first_line_offset opts s" False] assms(6)
    unfolding t by auto
  moreover have "read_scalar t = read_plain t"
  proof -
    have "hd v \<noteq> 32" "hd v \<noteq> 34" "hd v \<noteq> 39" using alpha by (auto simp: is_ascii_alphabetic_def)
    moreover obtain r where "t = hd v # r" unfolding t using wrap_plain_head [OF v] calculation(1) by blast
    ultimately show ?thesis by (simp add: read_scalar_def del: read_plain.simps)
  qed
  ultimately show ?thesis by auto
qed

theorem comment_cuts_string_witness:
  "\<exists>t x rest. out (serialize_str (tanka_v2 (0::int))
       (lit ''the team's alerts go to the channel #oncall, see the runbook for what to do when it is silent'') (after_key (lit ''k''))) =
     lit ''k:'' @ 32 # t @ [10] \<and> read_scalar t = Some (x, rest) \<and> length x < 93"
proof -
  let ?v = "lit ''the team's alerts go to the channel #oncall, see the runbook for what to do when it is silent''"
  have h: "value_due 0 (after_key (lit ''k''))" "line_width (tanka_v2 (0::int)) = Some 80" "(0::nat) < 80"
    "first_line_offset (tanka_v2 (0::int)) (after_key (lit ''k'')) + length ?v + 2 > 80"
    "only_single_quotes ?v" "has_substring (lit '' #'') ?v" "\<not> has_chars_needing_escape ?v" by code_simp+
  have "length ?v = 93" "out (after_key (lit ''k'')) = lit ''k:''" by code_simp+
  with comment_cuts_string [OF h] show ?thesis by auto
qed

section \<open>Plain strings stay strings\<close>

text \<open>
  C36. A string the writer leaves plain in block style is a string to a reader with the YAML 1.2 core
  schema, never a null, a boolean or a number; the exceptions are the words for infinity and NaN,
  which the guards forget, and decimal numbers beyond the doubles.
\<close>

theorem plain_is_string:
  assumes "is_plain_block_value_safe v"
  shows "core_type v = Core_String \<or> special_float v \<or> overflowing v"
  using plain_core_type [OF assms] by blast

theorem plain_is_string_witness:
  "(core_type (lit ''1.2.3'') = Core_String \<or> special_float (lit ''1.2.3'') \<or> overflowing (lit ''1.2.3'')) \<and>
   is_plain_block_value_safe (lit ''.inf'') \<and> core_type (lit ''.inf'') = Core_Number"
proof
  have "is_plain_block_value_safe (lit ''1.2.3'')" by code_simp
  then show "core_type (lit ''1.2.3'') = Core_String \<or> special_float (lit ''1.2.3'') \<or> overflowing (lit ''1.2.3'')"
    by (rule plain_is_string)
  show "is_plain_block_value_safe (lit ''.inf'') \<and> core_type (lit ''.inf'') = Core_Number" by code_simp
qed

section \<open>A literal block in a list\<close>

text \<open>
  C38. With the options of \<open>manifestYamlFromJson\<close>, or any without a special list indentation, a string
  of several lines in a list that is the value of a key is written with its lines in the column of
  the dash, where YAML wants them to the right of it.
\<close>

theorem literal_below_its_dash:
  assumes "consistent opts = Inr ()" "indent_array opts = None" "empty_map_as_braces opts" "empty_array_as_brackets opts"
    and "prefers_literal opts v ser_new" "literal_chomp (block_scalar_chomp opts) v = (chomp_char, nl)"
  shows "to_yaml_text fl opts (Y_Map [(key, Y_Seq [Y_Str v])]) =
    Inr (key_text (quote_numeric_strings opts) (quote_ambiguous_keys opts) (scalar_key_to_string key) @ lit '':'' @ [10] @
      replicate (indent_step opts) 32 @ lit ''- '' @
      literal_header (indent_step opts) chomp_char (literal_content v) @
      literal_lines (indent_step opts) (literal_content v) nl)"
  using assms
  by (simp add: to_yaml_text_def serialize_map_def serialize_seq_def serialize_key_def before_value_def after_value_def
      before_element_def after_element_def seq_newline_def seq_end_def map_end_def take_flow_for_seq_def take_flow_for_map_def
      serialize_str_def write_literal_def literal_spaces_def scalar_base_def prefers_literal_def ser_new_def
      write_space_if_pending_def write_indent_def write_indent_seq_def array_step_def newline_def write_str_def Let_def
      split: option.splits)

theorem literal_below_its_dash_witness:
  "to_yaml_text whole_doubles (tanka_v3 0) (Y_Map [(lit ''k'', Y_Seq [Y_Str (lit ''x'' @ [10] @ lit ''y'')])]) =
     Inr (lit ''k:'' @ [10] @ lit ''    - |-'' @ [10] @ lit ''    x'' @ [10] @ lit ''    y'' @ [10]) \<and>
   read_literal 4 (lit ''|-'' @ [10] @ lit ''    x'' @ [10] @ lit ''    y'' @ [10]) \<noteq> Some (lit ''x'' @ [10] @ lit ''y'')"
proof
  have h: "consistent (tanka_v3 (0::int)) = Inr ()" "indent_array (tanka_v3 (0::int)) = None" "empty_map_as_braces (tanka_v3 (0::int))"
    "empty_array_as_brackets (tanka_v3 (0::int))" "prefers_literal (tanka_v3 (0::int)) (lit ''x'' @ [10] @ lit ''y'') ser_new"
    "literal_chomp (block_scalar_chomp (tanka_v3 (0::int))) (lit ''x'' @ [10] @ lit ''y'') = ([45], 0)"
    by code_simp+
  have "key_text (quote_numeric_strings (tanka_v3 (0::int))) (quote_ambiguous_keys (tanka_v3 (0::int))) (scalar_key_to_string (lit ''k'')) @
      lit '':'' @ [10] @ replicate (indent_step (tanka_v3 (0::int))) 32 @ lit ''- '' @
      literal_header (indent_step (tanka_v3 (0::int))) [45] (literal_content (lit ''x'' @ [10] @ lit ''y'')) @
      literal_lines (indent_step (tanka_v3 (0::int))) (literal_content (lit ''x'' @ [10] @ lit ''y'')) 0 =
    lit ''k:'' @ [10] @ lit ''    - |-'' @ [10] @ lit ''    x'' @ [10] @ lit ''    y'' @ [10]" by code_simp
  then show "to_yaml_text whole_doubles (tanka_v3 0) (Y_Map [(lit ''k'', Y_Seq [Y_Str (lit ''x'' @ [10] @ lit ''y'')])]) =
     Inr (lit ''k:'' @ [10] @ lit ''    - |-'' @ [10] @ lit ''    x'' @ [10] @ lit ''    y'' @ [10])"
    using literal_below_its_dash [OF h, of whole_doubles "lit ''k''"] by simp
  show "read_literal 4 (lit ''|-'' @ [10] @ lit ''    x'' @ [10] @ lit ''    y'' @ [10]) \<noteq> Some (lit ''x'' @ [10] @ lit ''y'')"
    by code_simp
qed

section \<open>The order of keys\<close>

text \<open>
  C17. The keys of a mapping are written in the natural order: a stable sort by the key's tokens,
  numbers by their value, other characters before numbers before letters. It is so as long as no key
  has a run of more than eighteen digits; beyond that \<open>i64\<close> wraps and the comparison has cycles.
\<close>

theorem keys_in_natural_order:
  assumes "\<And>c. is_ascii_digit c \<Longrightarrow> \<not> alphabetic c" "\<And>k v. (k, v) \<in> set es \<Longrightarrow> short_numbers k"
  shows "sort_keys alphabetic (Y_Map es) =
    Y_Map (sort_key (\<lambda>e. natural_key alphabetic (fst e)) (map (\<lambda>(k, v). (k, sort_keys alphabetic v)) es))"
proof -
  have "short_numbers (fst e)" if "e \<in> set (map (\<lambda>(k, v). (k, sort_keys alphabetic v)) es)" for e
    using that assms(2) by auto
  then have "sort_by (\<lambda>a b. compare_string_keys alphabetic (fst a) (fst b)) (map (\<lambda>(k, v). (k, sort_keys alphabetic v)) es) =
      sort_key (\<lambda>e. natural_key alphabetic (fst e)) (map (\<lambda>(k, v). (k, sort_keys alphabetic v)) es)"
    by (intro sort_by_key compare_string_keys_key assms(1)) blast+
  then show ?thesis by simp
qed

theorem keys_in_natural_order_witness:
  "sort_keys is_ascii_alphabetic (Y_Map [(lit ''item10'', Y_Null :: int yaml_value), (lit ''item2'', Y_Bool True), (lit ''item_x'', Y_Null)]) =
     Y_Map [(lit ''item_x'', Y_Null), (lit ''item2'', Y_Bool True), (lit ''item10'', Y_Null)] \<and>
   compare_string_keys is_ascii_alphabetic (lit ''1'') (lit ''9223372036854775807'') = Less \<and>
   compare_string_keys is_ascii_alphabetic (lit ''9223372036854775807'') (lit ''9223372036854775808'') = Less \<and>
   compare_string_keys is_ascii_alphabetic (lit ''9223372036854775808'') (lit ''1'') = Less"
proof -
  have d: "is_ascii_digit c \<Longrightarrow> \<not> is_ascii_alphabetic c" for c
    by (auto simp: is_ascii_digit_def is_ascii_alphabetic_def)
  let ?es = "[(lit ''item10'', Y_Null :: int yaml_value), (lit ''item2'', Y_Bool True), (lit ''item_x'', Y_Null)]"
  have short: "(k, v) \<in> set ?es \<Longrightarrow> short_numbers k" for k v
  proof -
    have "short_numbers (lit ''item10'')" "short_numbers (lit ''item2'')" "short_numbers (lit ''item_x'')" by code_simp+
    then show "(k, v) \<in> set ?es \<Longrightarrow> short_numbers k" by auto
  qed
  have "sort_key (\<lambda>e. natural_key is_ascii_alphabetic (fst e)) (map (\<lambda>(k, v). (k, sort_keys is_ascii_alphabetic v)) ?es) =
     [(lit ''item_x'', Y_Null), (lit ''item2'', Y_Bool True), (lit ''item10'', Y_Null)]" by code_simp
  with keys_in_natural_order [of is_ascii_alphabetic ?es, OF d short]
  have "sort_keys is_ascii_alphabetic (Y_Map ?es) =
     Y_Map [(lit ''item_x'', Y_Null), (lit ''item2'', Y_Bool True), (lit ''item10'', Y_Null)]" by simp
  moreover have
    "compare_string_keys is_ascii_alphabetic (lit ''1'') (lit ''9223372036854775807'') = Less \<and>
     compare_string_keys is_ascii_alphabetic (lit ''9223372036854775807'') (lit ''9223372036854775808'') = Less \<and>
     compare_string_keys is_ascii_alphabetic (lit ''9223372036854775808'') (lit ''1'') = Less" by code_simp
  ultimately show ?thesis by blast
qed

end
