(* ===== verification/Layered_Cores.thy ===== *)
theory Layered_Cores
  imports Prelude
begin

text \<open>
  The list of cores of a Jsonnet object, \<open>LayeredCores\<close> of
  \<open>crates/jrsonnet-evaluator/src/obj/mod.rs\<close>: a chain of segments that is extended without copying,
  and its loops. The element type is a parameter. A loop's callback answers whether to go on, to
  stop, or the error that ends the function.
\<close>

section \<open>Control flow\<close>

datatype ('e, 's) flow = Continue 's | Break 's | Fail 'e

definition flow_bind :: "('e, 's) flow \<Rightarrow> ('s \<Rightarrow> ('e, 's) flow) \<Rightarrow> ('e, 's) flow" where
  "flow_bind r f = (case r of Continue s \<Rightarrow> f s | Break s \<Rightarrow> Break s | Fail e \<Rightarrow> Fail e)"

lemma flow_bind_simps [simp]:
  "flow_bind (Continue s) f = f s" "flow_bind (Break s) f = Break s" "flow_bind (Fail e) f = Fail e"
  by (simp_all add: flow_bind_def)

lemma flow_bind_cong [fundef_cong]:
  "r = r' \<Longrightarrow> (\<And>s. r' = Continue s \<Longrightarrow> f s = g s) \<Longrightarrow> flow_bind r f = flow_bind r' g"
  by (cases r') simp_all

lemma flow_bind_assoc: "flow_bind (flow_bind r f) g = flow_bind r (\<lambda>s. flow_bind (f s) g)"
  by (cases r) simp_all

lemma flow_bind_Continue [simp]: "flow_bind r Continue = r"
  by (cases r) simp_all

text \<open>A loop over the elements of a list.\<close>

fun flow_loop :: "('x \<Rightarrow> 's \<Rightarrow> ('e, 's) flow) \<Rightarrow> 'x list \<Rightarrow> 's \<Rightarrow> ('e, 's) flow" where
  "flow_loop f [] s = Continue s"
| "flow_loop f (x # xs) s = flow_bind (f x s) (flow_loop f xs)"

lemma flow_loop_append: "flow_loop f (xs @ ys) s = flow_bind (flow_loop f xs s) (flow_loop f ys)"
  by (induction xs arbitrary: s) (auto simp: flow_bind_assoc intro: flow_bind_cong)

lemma flow_loop_cong [fundef_cong]:
  assumes "xs = ys" "s = t" "\<And>x s. x \<in> set ys \<Longrightarrow> f x s = g x s"
  shows "flow_loop f xs s = flow_loop g ys t"
proof -
  have "flow_loop f ys t = flow_loop g ys t" using assms(3)
    by (induction ys arbitrary: t) (auto intro: flow_bind_cong)
  with assms(1,2) show ?thesis by simp
qed

lemma flow_loop_map: "flow_loop f (map g xs) s = flow_loop (\<lambda>x. f (g x)) xs s"
  by (induction xs arbitrary: s) (auto intro: flow_bind_cong)

section \<open>Layers\<close>

datatype 'x layered_cores = Layered "'x layered_cores option" nat "'x core_segment"
  and 'x core_segment = Flat_Cores "'x list" | Nested_Cores "'x layered_cores"

fun layered_len :: "'x layered_cores \<Rightarrow> nat" and segment_len :: "'x core_segment \<Rightarrow> nat" where
  "layered_len (Layered parent parent_len current) = parent_len + segment_len current"
| "segment_len (Flat_Cores v) = length v"
| "segment_len (Nested_Cores lc) = layered_len lc"

definition layered_new :: "'x list \<Rightarrow> 'x layered_cores" where
  "layered_new cores = Layered None 0 (Flat_Cores cores)"

definition layered_extend :: "'x layered_cores \<Rightarrow> 'x list \<Rightarrow> 'x layered_cores" where
  "layered_extend self more = Layered (Some self) (layered_len self) (Flat_Cores more)"

definition extend_layered :: "'x layered_cores \<Rightarrow> 'x layered_cores \<Rightarrow> 'x layered_cores" where
  "extend_layered self more =
     (if layered_len more = 0 then self else Layered (Some self) (layered_len self) (Nested_Cores more))"

fun for_each_enumerated :: "(nat \<Rightarrow> 'x \<Rightarrow> 's \<Rightarrow> 's) \<Rightarrow> 'x layered_cores \<Rightarrow> 's \<Rightarrow> 's" where
  "for_each_enumerated f (Layered parent offset current) s =
     (let s = (case parent of Some p \<Rightarrow> for_each_enumerated f p s | None \<Rightarrow> s)
      in case current of
           Flat_Cores v \<Rightarrow> fold (\<lambda>(i, core). f (offset + i) core) (enumerate 0 v) s
         | Nested_Cores lc \<Rightarrow> for_each_enumerated (\<lambda>idx. f (offset + idx)) lc s)"

text \<open>\<open>for i in (0..end).rev()\<close> over a flat segment.\<close>

fun flat_rev :: "(nat \<Rightarrow> 'x \<Rightarrow> 's \<Rightarrow> ('e, 's) flow) \<Rightarrow> nat \<Rightarrow> 'x list \<Rightarrow> nat \<Rightarrow> 's \<Rightarrow> ('e, 's) flow" where
  "flat_rev f offset v 0 s = Continue s"
| "flat_rev f offset v (Suc i) s = flow_bind (f (offset + i) (v ! i) s) (flat_rev f offset v i)"

text \<open>\<open>for_each_rev_up_to\<close> and \<open>try_for_each_rev_up_to\<close>, whose callback may also fail.\<close>

fun for_each_rev_up_to ::
  "(nat \<Rightarrow> 'x \<Rightarrow> 's \<Rightarrow> ('e, 's) flow) \<Rightarrow> 'x layered_cores \<Rightarrow> nat \<Rightarrow> 's \<Rightarrow> ('e, 's) flow" where
  "for_each_rev_up_to f (Layered parent offset current) limit s =
     flow_bind
       (case current of
          Flat_Cores v \<Rightarrow> flat_rev f offset v (min (limit - offset) (length v)) s
        | Nested_Cores lc \<Rightarrow>
            (let nested_limit = min (limit - offset) (layered_len lc)
             in if nested_limit > 0 then for_each_rev_up_to (\<lambda>idx. f (offset + idx)) lc nested_limit s
                else Continue s))
       (\<lambda>s. case parent of Some p \<Rightarrow> for_each_rev_up_to f p (min limit offset) s | None \<Rightarrow> Continue s)"

section \<open>The list of cores\<close>

fun cores_of :: "'x layered_cores \<Rightarrow> 'x list" and segment_cores :: "'x core_segment \<Rightarrow> 'x list" where
  "cores_of (Layered None parent_len current) = segment_cores current"
| "cores_of (Layered (Some p) parent_len current) = cores_of p @ segment_cores current"
| "segment_cores (Flat_Cores v) = v"
| "segment_cores (Nested_Cores lc) = cores_of lc"

text \<open>The stored length of the parent is its length.\<close>

fun lengths_ok :: "'x layered_cores \<Rightarrow> bool" and segment_ok :: "'x core_segment \<Rightarrow> bool" where
  "lengths_ok (Layered None parent_len current) \<longleftrightarrow> parent_len = 0 \<and> segment_ok current"
| "lengths_ok (Layered (Some p) parent_len current) \<longleftrightarrow>
     parent_len = layered_len p \<and> lengths_ok p \<and> segment_ok current"
| "segment_ok (Flat_Cores v) \<longleftrightarrow> True"
| "segment_ok (Nested_Cores lc) \<longleftrightarrow> lengths_ok lc"

lemma layered_len_cores:
  fixes l :: "'x layered_cores" and g :: "'x core_segment"
  shows "lengths_ok l \<Longrightarrow> layered_len l = length (cores_of l)"
  "segment_ok g \<Longrightarrow> segment_len g = length (segment_cores g)"
  by (induction l and g rule: lengths_ok_segment_ok.induct) auto

lemma layered_new_ok [simp]: "lengths_ok (layered_new v)" "cores_of (layered_new v) = v"
  by (simp_all add: layered_new_def)

lemma layered_extend_ok [simp]:
  "lengths_ok (layered_extend l v) = lengths_ok l" "cores_of (layered_extend l v) = cores_of l @ v"
  by (simp_all add: layered_extend_def)

lemma extend_layered_ok [simp]:
  "lengths_ok l \<Longrightarrow> lengths_ok m \<Longrightarrow> lengths_ok (extend_layered l m)"
  "lengths_ok m \<Longrightarrow> cores_of (extend_layered l m) = cores_of l @ cores_of m"
  using layered_len_cores(1) [of m] by (auto simp: extend_layered_def)

section \<open>The loops\<close>

lemma fold_enumerate_shift:
  "fold (\<lambda>(i, c). f (n + i) c) (enumerate m v) s = fold (\<lambda>(i, c). f i c) (enumerate (n + m) v) s"
  by (induction v arbitrary: m s) (simp_all add: enumerate_simps)

lemma for_each_enumerated_flat:
  "lengths_ok l \<Longrightarrow> for_each_enumerated f l s = fold (\<lambda>(i, c). f i c) (enumerate 0 (cores_of l)) s"
proof (induction f l s rule: for_each_enumerated.induct)
  case (1 f parent offset current s)
  define s' where "s' = (case parent of Some p \<Rightarrow> for_each_enumerated f p s | None \<Rightarrow> s)"
  have seg: "(case current of
      Flat_Cores v \<Rightarrow> fold (\<lambda>(i, core). f (offset + i) core) (enumerate 0 v) s'
    | Nested_Cores lc \<Rightarrow> for_each_enumerated (\<lambda>idx. f (offset + idx)) lc s') =
    fold (\<lambda>(i, c). f i c) (enumerate offset (segment_cores current)) s'"
  proof (cases current)
    case (Flat_Cores v)
    then show ?thesis using fold_enumerate_shift [of f offset 0 v s'] by simp
  next
    case (Nested_Cores lc)
    then have "lengths_ok lc" using 1(3) by (cases parent) auto
    then show ?thesis using 1(2) [OF s'_def Nested_Cores] Nested_Cores fold_enumerate_shift [of f offset 0] by simp
  qed
  have "for_each_enumerated f (Layered parent offset current) s =
      fold (\<lambda>(i, c). f i c) (enumerate offset (segment_cores current)) s'"
    unfolding for_each_enumerated.simps Let_def s'_def [symmetric] by (rule seg)
  moreover have "s' = (case parent of Some p \<Rightarrow> fold (\<lambda>(i, c). f i c) (enumerate 0 (cores_of p)) s | None \<Rightarrow> s)"
    using 1 by (auto simp: s'_def split: option.splits)
  moreover have "offset = (case parent of Some p \<Rightarrow> length (cores_of p) | None \<Rightarrow> 0)"
    using 1(3) layered_len_cores(1) by (auto split: option.splits)
  ultimately show ?case by (cases parent) (simp_all add: enumerate_append_eq)
qed

lemma flat_rev_loop:
  "n \<le> length v \<Longrightarrow>
    flat_rev f offset v n s = flow_loop (\<lambda>(i, c). f i c) (rev (take n (enumerate offset v))) s"
proof (induction n arbitrary: s)
  case (Suc n)
  then have "take (Suc n) (enumerate offset v) = take n (enumerate offset v) @ [(offset + n, v ! n)]"
    by (simp add: take_Suc_conv_app_nth nth_enumerate_eq)
  then show ?case using Suc by (auto intro: flow_bind_cong)
qed simp

lemma flow_loop_shift:
  "flow_loop (\<lambda>(i, c). f (n + i) c) (rev (take k (enumerate m v))) s =
   flow_loop (\<lambda>(i, c). f i c) (rev (take k (enumerate (n + m) v))) s"
proof -
  have "enumerate (n + m) v = map (\<lambda>(i, c). (n + i, c)) (enumerate m v)"
    by (induction v arbitrary: m) (simp_all add: enumerate_simps flip: add_Suc_right)
  then show ?thesis by (simp add: take_map rev_map flow_loop_map case_prod_unfold)
qed

text \<open>The walk over the chain is the walk over the list, from the end, below the limit.\<close>

lemma for_each_rev_flat:
  "lengths_ok l \<Longrightarrow>
   for_each_rev_up_to f l limit s = flow_loop (\<lambda>(i, c). f i c) (rev (take limit (enumerate 0 (cores_of l)))) s"
proof (induction f l limit s rule: for_each_rev_up_to.induct)
  case (1 f parent offset current limit s)
  define r where "r = (case current of
          Flat_Cores v \<Rightarrow> flat_rev f offset v (min (limit - offset) (length v)) s
        | Nested_Cores lc \<Rightarrow>
            (let nested_limit = min (limit - offset) (layered_len lc)
             in if nested_limit > 0 then for_each_rev_up_to (\<lambda>idx. f (offset + idx)) lc nested_limit s
                else Continue s))"
  have seg: "r = flow_loop (\<lambda>(i, c). f i c) (rev (take (limit - offset) (enumerate offset (segment_cores current)))) s"
  proof (cases current)
    case (Flat_Cores v)
    have "take (min (limit - offset) (length v)) (enumerate offset v) = take (limit - offset) (enumerate offset v)"
      by (cases "limit - offset \<le> length v") (simp_all add: min_def)
    then show ?thesis using Flat_Cores flat_rev_loop [of "min (limit - offset) (length v)" v f offset s]
      by (simp add: r_def)
  next
    case (Nested_Cores lc)
    then have ok: "lengths_ok lc" using 1(3) by (cases parent) auto
    have "take (min (limit - offset) (layered_len lc)) (enumerate m (cores_of lc)) = take (limit - offset) (enumerate m (cores_of lc))" for m
      using layered_len_cores(1) [OF ok] by (cases "limit - offset \<le> layered_len lc") (simp_all add: min_def)
    moreover have "min (limit - offset) (layered_len lc) = 0 \<Longrightarrow> take (limit - offset) (enumerate m (cores_of lc)) = []" for m
      using layered_len_cores(1) [OF ok] by (auto simp: min_def split: if_splits)
    ultimately show ?thesis using 1(1) [OF Nested_Cores refl _ ok] Nested_Cores
        flow_loop_shift [of f offset "limit - offset" 0 "cores_of lc" s]
      by (cases "min (limit - offset) (layered_len lc) = 0") (auto simp: r_def Let_def simp del: take_eq_Nil take_eq_Nil2)
  qed
  have unfolded: "for_each_rev_up_to f (Layered parent offset current) limit s =
      flow_bind r (\<lambda>s. case parent of Some p \<Rightarrow> for_each_rev_up_to f p (min limit offset) s | None \<Rightarrow> Continue s)"
    by (simp add: r_def)
  show ?case
  proof (cases parent)
    case None
    then show ?thesis using seg 1(3) unfolding unfolded by simp
  next
    case (Some p)
    then have p: "offset = length (cores_of p)" "lengths_ok p" using 1(3) layered_len_cores(1) [of p] by simp_all
    have "take (min limit offset) (enumerate 0 (cores_of p)) = take limit (enumerate 0 (cores_of p))"
      using p(1) by (cases "limit \<le> offset") (simp_all add: min_def)
    then have "for_each_rev_up_to f p (min limit offset) t =
        flow_loop (\<lambda>(i, c). f i c) (rev (take limit (enumerate 0 (cores_of p)))) t" if "r = Continue t" for t
      using 1(2) [OF _ Some p(2), of t] that by (simp add: r_def)
    then have "for_each_rev_up_to f (Layered parent offset current) limit s =
        flow_bind r (flow_loop (\<lambda>(i, c). f i c) (rev (take limit (enumerate 0 (cores_of p)))))"
      unfolding unfolded by (intro flow_bind_cong) (simp_all add: Some del: for_each_rev_up_to.simps)
    then show ?thesis using Some p(1)
      by (simp add: seg enumerate_append_eq flow_loop_append del: for_each_rev_up_to.simps)
  qed
qed

section \<open>Recursion through the loops\<close>

text \<open>A callback only sees the cores of the chain, so a function may recur through it.\<close>

lemma flat_rev_cong:
  "(\<And>i c s. c \<in> set v \<Longrightarrow> f i c s = g i c s) \<Longrightarrow> n \<le> length v \<Longrightarrow> flat_rev f offset v n s = flat_rev g offset v n s"
  by (induction n arbitrary: s) (auto intro!: flow_bind_cong)

lemma for_each_rev_up_to_cong [fundef_cong]:
  assumes "l = l'" "limit = limit'" "s = s'" "\<And>i c s. c \<in> set_layered_cores l' \<Longrightarrow> f i c s = g i c s"
  shows "for_each_rev_up_to f l limit s = for_each_rev_up_to g l' limit' s'"
proof -
  have "(\<And>i c s. c \<in> set_layered_cores l \<Longrightarrow> f i c s = g i c s) \<Longrightarrow>
      for_each_rev_up_to f l limit s = for_each_rev_up_to g l limit s" for l limit s
  proof (induction f l limit s arbitrary: g rule: for_each_rev_up_to.induct)
    case (1 f parent offset current limit s)
    have seg: "(case current of
          Flat_Cores v \<Rightarrow> flat_rev f offset v (min (limit - offset) (length v)) s
        | Nested_Cores lc \<Rightarrow>
            (let nested_limit = min (limit - offset) (layered_len lc)
             in if nested_limit > 0 then for_each_rev_up_to (\<lambda>idx. f (offset + idx)) lc nested_limit s
                else Continue s)) =
        (case current of
          Flat_Cores v \<Rightarrow> flat_rev g offset v (min (limit - offset) (length v)) s
        | Nested_Cores lc \<Rightarrow>
            (let nested_limit = min (limit - offset) (layered_len lc)
             in if nested_limit > 0 then for_each_rev_up_to (\<lambda>idx. g (offset + idx)) lc nested_limit s
                else Continue s))"
    proof (cases current)
      case (Flat_Cores v)
      then show ?thesis using 1(3) by (auto intro!: flat_rev_cong)
    next
      case (Nested_Cores lc)
      then have same: "(\<lambda>idx. f (offset + idx)) i c s = (\<lambda>idx. g (offset + idx)) i c s" if "c \<in> set_layered_cores lc" for i c s
        using 1(3) [of c] that by simp
      show ?thesis using 1(1) [OF Nested_Cores refl _ same] Nested_Cores by (simp add: Let_def)
    qed
    show ?case unfolding for_each_rev_up_to.simps
    proof (rule flow_bind_cong [OF seg])
      fix t
      assume "(case current of
          Flat_Cores v \<Rightarrow> flat_rev g offset v (min (limit - offset) (length v)) s
        | Nested_Cores lc \<Rightarrow>
            (let nested_limit = min (limit - offset) (layered_len lc)
             in if nested_limit > 0 then for_each_rev_up_to (\<lambda>idx. g (offset + idx)) lc nested_limit s
                else Continue s)) = Continue t"
      note IH = 1(2) [OF this [folded seg]]
      show "(case parent of Some p \<Rightarrow> for_each_rev_up_to f p (min limit offset) t | None \<Rightarrow> Continue t) =
          (case parent of Some p \<Rightarrow> for_each_rev_up_to g p (min limit offset) t | None \<Rightarrow> Continue t)"
        using IH 1(3) by (cases parent) simp_all
    qed
  qed
  with assms show ?thesis by simp
qed

lemma for_each_enumerated_cong [fundef_cong]:
  assumes "l = l'" "s = s'" "\<And>i c s. c \<in> set_layered_cores l' \<Longrightarrow> f i c s = g i c s"
  shows "for_each_enumerated f l s = for_each_enumerated g l' s'"
proof -
  have "(\<And>i c s. c \<in> set_layered_cores l \<Longrightarrow> f i c s = g i c s) \<Longrightarrow> for_each_enumerated f l s = for_each_enumerated g l s" for l s
  proof (induction f l s arbitrary: g rule: for_each_enumerated.induct)
    case (1 f parent offset current s)
    have parent: "(case parent of Some p \<Rightarrow> for_each_enumerated f p s | None \<Rightarrow> s) =
        (case parent of Some p \<Rightarrow> for_each_enumerated g p s | None \<Rightarrow> s)"
      using 1(1) [of _ g] 1(3) by (cases parent) simp_all
    have "(case current of
           Flat_Cores v \<Rightarrow> fold (\<lambda>(i, core). f (offset + i) core) (enumerate 0 v) t
         | Nested_Cores lc \<Rightarrow> for_each_enumerated (\<lambda>idx. f (offset + idx)) lc t) =
        (case current of
           Flat_Cores v \<Rightarrow> fold (\<lambda>(i, core). g (offset + i) core) (enumerate 0 v) t
         | Nested_Cores lc \<Rightarrow> for_each_enumerated (\<lambda>idx. g (offset + idx)) lc t)"
      if "t = (case parent of Some p \<Rightarrow> for_each_enumerated f p s | None \<Rightarrow> s)" for t
    proof (cases current)
      case (Flat_Cores v)
      have "fold (\<lambda>(i, core). f (offset + i) core) (enumerate 0 v) t = fold (\<lambda>(i, core). g (offset + i) core) (enumerate 0 v) t"
        using 1(3) Flat_Cores by (intro fold_cong refl ext) (auto simp: in_set_enumerate_eq)
      then show ?thesis using Flat_Cores by simp
    next
      case (Nested_Cores lc)
      then show ?thesis using 1(2) [OF that Nested_Cores, of "\<lambda>idx. g (offset + idx)"] 1(3) by simp
    qed
    then show ?case using parent by (simp add: Let_def)
  qed
  with assms show ?thesis by simp
qed

lemma layered_size:
  fixes l :: "'x layered_cores" and g :: "'x core_segment"
  shows "c \<in> set_layered_cores l \<Longrightarrow> sz c < size_layered_cores sz l"
  "c \<in> set_core_segment g \<Longrightarrow> sz c < size_core_segment sz g"
proof (induction l and g rule: layered_cores.induct core_segment.induct)
  case (Layered parent n current)
  then show ?case by (cases parent) force+
next
  case (Flat_Cores v)
  then have "sz c \<le> size_list sz v" by (simp add: size_list_estimation')
  then show ?case by simp
qed force

end
