(* ===== verification/Jsonnet_Objects.thy ===== *)
theory Jsonnet_Objects
  imports Layered_Cores Rust_Order "HOL-Library.Word" "HOL-Library.AList"
begin

text \<open>
  Jsonnet objects, \<open>crates/jrsonnet-evaluator/src/obj\<close>: an object is a chain of cores, the last one
  on top; a core holds fields, hides fields of the cores below it, or stands for \<open>super\<close>. Lookup,
  visibility, enumeration and inheritance are here; the code of a field and of an assertion, the
  addition of two values and the thread-local switches are a record of functions. The value cache
  of an object is left out (a field gives the same value each time), and so are source locations
  and the field order of the feature \<open>exp-preserve-order\<close>.
\<close>

section \<open>Fields\<close>

datatype visibility = Normal | Hidden | Unhide

definition is_visible :: "visibility \<Rightarrow> bool" where
  "is_visible v \<longleftrightarrow> v = Normal \<or> v = Unhide"

text \<open>\<open>ObjFieldFlags\<close>: bit 0 is \<open>+:\<close>, bits 1 and 2 the visibility; both bits set is unreachable.\<close>

unbundle bit_operations_syntax

definition flags_new :: "bool \<Rightarrow> visibility \<Rightarrow> 8 word" where
  "flags_new add vis =
     (if add then 0 OR 1 else 0) OR (case vis of Normal \<Rightarrow> 0 | Hidden \<Rightarrow> 2 | Unhide \<Rightarrow> 4)"

definition flags_add :: "8 word \<Rightarrow> bool" where
  "flags_add f \<longleftrightarrow> f AND 1 \<noteq> 0"

definition flags_visibility :: "8 word \<Rightarrow> visibility" where
  "flags_visibility f =
     (let bits = drop_bit 1 (f AND 6) in if bits = 0 then Normal else if bits = 1 then Hidden else Unhide)"

lemma flags_new [simp]: "flags_add (flags_new add vis) = add" "flags_visibility (flags_new add vis) = vis"
  by (cases add; cases vis; simp add: flags_new_def flags_add_def flags_visibility_def Let_def)+

datatype 'c obj_member = Obj_Member (flags: "8 word") (invoke: 'c)

section \<open>Cores\<close>

text \<open>
  A hash map of fields is a list of pairs with distinct names in the order of its iteration. A shape
  and its bindings are two lists.
\<close>

datatype ('c, 'a) object_core =
    Oop_Object "(string \<times> 'c obj_member) list" "'a option"
  | Static_Shape_Oop_Object "(string \<times> 8 word) list" "'c list" "'a option"
  | Omit_Fields_Core "string list" nat
  | Standalone_Super_Core nat "('c, 'a) obj_value"
  and ('c, 'a) obj_value = Obj_Value "('c, 'a) object_core layered_cores" bool

fun obj_cores :: "('c, 'a) obj_value \<Rightarrow> ('c, 'a) object_core layered_cores" where
  "obj_cores (Obj_Value cores has_assertions) = cores"

fun obj_has_assertions :: "('c, 'a) obj_value \<Rightarrow> bool" where
  "obj_has_assertions (Obj_Value cores has_assertions) = has_assertions"

fun core_has_assertion :: "('c, 'a) object_core \<Rightarrow> bool" where
  "core_has_assertion (Oop_Object entries assertion) = (assertion \<noteq> None)"
| "core_has_assertion (Static_Shape_Oop_Object shape bindings assertion) = (assertion \<noteq> None)"
| "core_has_assertion _ = False"

fun find_index :: "(string \<times> 'y) list \<Rightarrow> string \<Rightarrow> nat option" where
  "find_index [] name = None"
| "find_index (f # fs) name = (if fst f = name then Some 0 else map_option Suc (find_index fs name))"

lemma size_core_less [termination_simp]:
  "c \<in> set_layered_cores l \<Longrightarrow> size c < size (Obj_Value l b)"
  "c \<in> set_layered_cores (obj_cores this) \<Longrightarrow> size c < size this"
  using layered_size(1) [of c l size] by (cases this; force dest: layered_size(1) [where sz = size])+

section \<open>Enumeration\<close>

datatype enum_fields = Normal_Field visibility | Omit_Field nat

function enum_fields_core ::
    "('c, 'a) object_core \<Rightarrow> (string \<Rightarrow> enum_fields \<Rightarrow> 's \<Rightarrow> ('e, 's) flow) \<Rightarrow> 's \<Rightarrow> ('e, 's) flow"
  and enum_fields_idx ::
    "('c, 'a) obj_value \<Rightarrow> (string \<Rightarrow> enum_fields \<Rightarrow> 's \<Rightarrow> ('e, 's) flow) \<Rightarrow> nat \<Rightarrow> 's \<Rightarrow> ('e, 's) flow" where
  "enum_fields_core (Oop_Object entries assertion) handler s =
     flow_loop (\<lambda>(name, member). handler name (Normal_Field (flags_visibility (flags member)))) entries s"
| "enum_fields_core (Static_Shape_Oop_Object shape bindings assertion) handler s =
     flow_loop (\<lambda>(name, field_flags). handler name (Normal_Field (flags_visibility field_flags))) shape s"
| "enum_fields_core (Omit_Fields_Core omit prev_layers) handler s =
     flow_loop (\<lambda>f. handler f (Omit_Field prev_layers)) omit s"
| "enum_fields_core (Standalone_Super_Core sup_idx this) handler s = enum_fields_idx this handler sup_idx s"
| "enum_fields_idx self handler idx s =
     for_each_rev_up_to (\<lambda>i core. enum_fields_core core handler) (obj_cores self) idx s"
  by pat_completeness auto
termination
  by (relation "measure (\<lambda>x. case x of Inl (c, h, s) \<Rightarrow> 2 * size c | Inr (this, h, n, s) \<Rightarrow> 2 * size this + 1)")
    (auto dest: size_core_less(2))

section \<open>Existence\<close>

datatype has_field_include_hidden = Exists | Has_Not_Found | Has_Omit nat

function has_field_include_hidden_core :: "('c, 'a) object_core \<Rightarrow> string \<Rightarrow> has_field_include_hidden"
  and has_field_include_hidden_idx :: "('c, 'a) obj_value \<Rightarrow> string \<Rightarrow> nat \<Rightarrow> bool" where
  "has_field_include_hidden_core (Oop_Object entries assertion) name =
     (if map_of entries name \<noteq> None then Exists else Has_Not_Found)"
| "has_field_include_hidden_core (Static_Shape_Oop_Object shape bindings assertion) name =
     (if find_index shape name \<noteq> None then Exists else Has_Not_Found)"
| "has_field_include_hidden_core (Omit_Fields_Core omit prev_layers) name =
     (if name \<in> set omit then Has_Omit prev_layers else Has_Not_Found)"
| "has_field_include_hidden_core (Standalone_Super_Core sup_idx this) name =
     (if has_field_include_hidden_idx this name sup_idx then Exists else Has_Not_Found)"
| "has_field_include_hidden_idx self name idx =
     (case for_each_rev_up_to
             (\<lambda>i core (skip, found).
                case has_field_include_hidden_core core name of
                  Exists \<Rightarrow> if skip = 0 then Break (skip, True) else Continue (skip - 1, found)
                | Has_Omit new_skip \<Rightarrow> Continue (max skip (new_skip + 1) - 1, found)
                | Has_Not_Found \<Rightarrow> Continue (skip - 1, found))
             (obj_cores self) idx ((0 :: nat), False) of
        Continue (skip, found) \<Rightarrow> found
      | Break (skip, found) \<Rightarrow> found
      | Fail (e :: unit) \<Rightarrow> False)"
  by pat_completeness auto
termination
  by (relation "measure (\<lambda>x. case x of Inl (c, n) \<Rightarrow> 2 * size c | Inr (this, n, i) \<Rightarrow> 2 * size this + 1)")
    (auto dest: size_core_less(2))

section \<open>Visibility\<close>

datatype field_visibility = Vis_Found visibility | Vis_Omit nat | Vis_Not_Found

function field_visibility_core :: "('c, 'a) object_core \<Rightarrow> string \<Rightarrow> field_visibility"
  and field_visibility_idx :: "('c, 'a) obj_value \<Rightarrow> string \<Rightarrow> nat \<Rightarrow> visibility option" where
  "field_visibility_core (Oop_Object entries assertion) name =
     (case map_of entries name of Some f \<Rightarrow> Vis_Found (flags_visibility (flags f)) | None \<Rightarrow> Vis_Not_Found)"
| "field_visibility_core (Static_Shape_Oop_Object shape bindings assertion) name =
     (case find_index shape name of
        Some i \<Rightarrow> Vis_Found (flags_visibility (snd (shape ! i))) | None \<Rightarrow> Vis_Not_Found)"
| "field_visibility_core (Omit_Fields_Core omit prev_layers) name =
     (if name \<in> set omit then Vis_Omit prev_layers else Vis_Not_Found)"
| "field_visibility_core (Standalone_Super_Core sup_idx this) name =
     (case field_visibility_idx this name sup_idx of Some v \<Rightarrow> Vis_Found v | None \<Rightarrow> Vis_Not_Found)"
| "field_visibility_idx self name idx =
     (let (skip, exists, early_vis) =
        (case for_each_rev_up_to
             (\<lambda>i core (skip, exists, early_vis).
                case field_visibility_core core name of
                  Vis_Found vis \<Rightarrow>
                    (if vis = Normal then Continue (skip - 1, exists \<or> skip = 0, early_vis)
                     else if skip = 0 then Break (skip, exists, Some vis)
                     else Continue (skip - 1, exists, early_vis))
                | Vis_Not_Found \<Rightarrow> Continue (skip - 1, exists, early_vis)
                | Vis_Omit new_skip \<Rightarrow> Continue (max skip (new_skip + 1) - 1, exists, early_vis))
             (obj_cores self) idx ((0 :: nat), False, None) of
           Continue st \<Rightarrow> st | Break st \<Rightarrow> st | Fail (e :: unit) \<Rightarrow> (0, False, None))
      in if early_vis \<noteq> None then early_vis else if exists then Some Normal else None)"
  by pat_completeness auto
termination
  by (relation "measure (\<lambda>x. case x of Inl (c, n) \<Rightarrow> 2 * size c | Inr (this, n, i) \<Rightarrow> 2 * size this + 1)")
    (auto dest: size_core_less(2))

definition obj_len :: "('c, 'a) obj_value \<Rightarrow> nat" where
  "obj_len self = layered_len (obj_cores self)"

definition has_field_include_hidden :: "('c, 'a) obj_value \<Rightarrow> string \<Rightarrow> bool" where
  "has_field_include_hidden self name = has_field_include_hidden_idx self name (obj_len self)"

definition obj_field_visibility :: "('c, 'a) obj_value \<Rightarrow> string \<Rightarrow> visibility option" where
  "obj_field_visibility self name = field_visibility_idx self name (obj_len self)"

definition has_field :: "('c, 'a) obj_value \<Rightarrow> string \<Rightarrow> bool" where
  "has_field self name =
     (case obj_field_visibility self name of Some Unhide \<Rightarrow> True | Some Normal \<Rightarrow> True | Some Hidden \<Rightarrow> False | None \<Rightarrow> False)"

definition has_field_ex :: "('c, 'a) obj_value \<Rightarrow> string \<Rightarrow> bool \<Rightarrow> bool" where
  "has_field_ex self name include_hidden =
     (if include_hidden then has_field_include_hidden self name else has_field self name)"

section \<open>Values\<close>

text \<open>
  What lies outside: the code of a field and of an assertion, run with the index of its core and the
  object that is \<open>self\<close>, and whether an assertion is being run; the sum of two values; the switch
  that skips assertions.
\<close>

record ('c, 'a, 'v, 'e) evaluator =
  evaluate :: "bool \<Rightarrow> 'c \<Rightarrow> nat \<Rightarrow> ('c, 'a) obj_value \<Rightarrow> 'e + 'v"
  run_assertion :: "'a \<Rightarrow> nat \<Rightarrow> ('c, 'a) obj_value \<Rightarrow> 'e + unit"
  evaluate_add_op :: "'v \<Rightarrow> 'v \<Rightarrow> 'e + 'v"
  skip_assertions :: bool

text \<open>
  An object without assertions counts as asserted from the start. While assertions run, no others
  are started, which is also what the code does for the object that is being asserted.
\<close>

function run_assertions_core ::
    "('c, 'a, 'v, 'e) evaluator \<Rightarrow> ('c, 'a) object_core \<Rightarrow> nat \<Rightarrow> ('c, 'a) obj_value \<Rightarrow> 'e + unit"
  and run_assertions :: "('c, 'a, 'v, 'e) evaluator \<Rightarrow> bool \<Rightarrow> ('c, 'a) obj_value \<Rightarrow> 'e + unit" where
  "run_assertions_core ev (Oop_Object entries assertion) idx this =
     (case assertion of Some a \<Rightarrow> run_assertion ev a idx this | None \<Rightarrow> Inr ())"
| "run_assertions_core ev (Static_Shape_Oop_Object shape bindings assertion) idx this =
     (case assertion of Some a \<Rightarrow> run_assertion ev a idx this | None \<Rightarrow> Inr ())"
| "run_assertions_core ev (Omit_Fields_Core omit prev_layers) idx this = Inr ()"
| "run_assertions_core ev (Standalone_Super_Core sup_idx inner) idx this = run_assertions ev True inner"
| "run_assertions ev in_assertion self =
     (if skip_assertions ev \<or> in_assertion \<or> \<not> obj_has_assertions self then Inr ()
      else
        (case for_each_enumerated
                (\<lambda>idx core assertion_err.
                   if assertion_err \<noteq> None then assertion_err
                   else case run_assertions_core ev core idx self of Inl e \<Rightarrow> Some e | Inr _ \<Rightarrow> None)
                (obj_cores self) None of
           Some e \<Rightarrow> Inl e
         | None \<Rightarrow> Inr ()))"
  by pat_completeness auto
termination
  by (relation "measure (\<lambda>x. case x of Inl (ev, c, n, this) \<Rightarrow> 2 * size c | Inr (ev, b, this) \<Rightarrow> 2 * size this + 1)")
    (auto dest: size_core_less(2))

datatype 'v get_for = Final 'v | Super_Plus 'v | Get_Omit nat | Get_Not_Found

fun try_fold_add :: "('c, 'a, 'v, 'e) evaluator \<Rightarrow> 'v \<Rightarrow> 'v list \<Rightarrow> 'e + 'v" where
  "try_fold_add ev a [] = Inr a"
| "try_fold_add ev a (b # bs) = and_then (evaluate_add_op ev a b) (\<lambda>v. try_fold_add ev v bs)"

text \<open>The sum of what the loop over the cores has collected, topmost value first.\<close>

definition add_up ::
  "('c, 'a, 'v, 'e) evaluator \<Rightarrow> 'v option \<times> 'v list \<times> nat \<times> 'v option \<Rightarrow> 'e + 'v option" where
  "add_up ev st =
     (case st of (first_add, add_stack, skip, early_return) \<Rightarrow>
        case early_return of
          Some v \<Rightarrow> Inr (Some v)
        | None \<Rightarrow>
            (case first_add of
               None \<Rightarrow> if add_stack = [] then Inr None else Inr (Some (List.last add_stack))
             | Some first \<Rightarrow>
                 if add_stack = [] then Inr (Some first)
                 else
                   (case rev (first # add_stack) of
                      init # values \<Rightarrow> and_then (try_fold_add ev init values) (\<lambda>v. Inr (Some v))
                    | [] \<Rightarrow> Inr None)))"

definition get_step ::
  "'v get_for \<Rightarrow> 'v option \<times> 'v list \<times> nat \<times> 'v option \<Rightarrow> ('e, 'v option \<times> 'v list \<times> nat \<times> 'v option) flow" where
  "get_step r st =
     (case st of (first_add, add_stack, skip, early_return) \<Rightarrow>
        case r of
          Final v \<Rightarrow>
            if skip = 0 then
              (if first_add = None then Break (first_add, add_stack, skip, Some v)
               else Break (first_add, add_stack @ [v], skip, early_return))
            else Continue (first_add, add_stack, skip - 1, early_return)
        | Super_Plus v \<Rightarrow>
            if skip = 0 then
              (if first_add = None then Continue (Some v, add_stack, skip - 1, early_return)
               else Continue (first_add, add_stack @ [v], skip - 1, early_return))
            else Continue (first_add, add_stack, skip - 1, early_return)
        | Get_Omit new_skip \<Rightarrow> Continue (first_add, add_stack, max skip (new_skip + 1) - 1, early_return)
        | Get_Not_Found \<Rightarrow> Continue (first_add, add_stack, skip - 1, early_return))"

function get_for_core ::
    "('c, 'a, 'v, 'e) evaluator \<Rightarrow> bool \<Rightarrow> ('c, 'a) object_core \<Rightarrow> string \<Rightarrow> nat \<Rightarrow> ('c, 'a) obj_value \<Rightarrow> bool \<Rightarrow>
     'e + 'v get_for"
  and obj_get_idx ::
    "('c, 'a, 'v, 'e) evaluator \<Rightarrow> bool \<Rightarrow> ('c, 'a) obj_value \<Rightarrow> string \<Rightarrow> nat \<Rightarrow> 'e + 'v option" where
  "get_for_core ev in_assertion (Oop_Object entries assertion) key idx this omit_only =
     (if omit_only then Inr Get_Not_Found
      else
        case map_of entries key of
          Some k \<Rightarrow>
            and_then (evaluate ev in_assertion (invoke k) idx this) (\<lambda>v.
              Inr (if flags_add (flags k) then Super_Plus v else Final v))
        | None \<Rightarrow> Inr Get_Not_Found)"
| "get_for_core ev in_assertion (Static_Shape_Oop_Object shape bindings assertion) key idx this omit_only =
     (if omit_only then Inr Get_Not_Found
      else
        case find_index shape key of
          None \<Rightarrow> Inr Get_Not_Found
        | Some i \<Rightarrow>
            and_then (evaluate ev in_assertion (bindings ! i) idx this) (\<lambda>v.
              Inr (if flags_add (snd (shape ! i)) then Super_Plus v else Final v)))"
| "get_for_core ev in_assertion (Omit_Fields_Core omit prev_layers) key idx this omit_only =
     (if key \<in> set omit then Inr (Get_Omit prev_layers) else Inr Get_Not_Found)"
| "get_for_core ev in_assertion (Standalone_Super_Core sup_idx inner) key idx this omit_only =
     (if omit_only then Inr Get_Not_Found
      else and_then (obj_get_idx ev in_assertion inner key sup_idx) (\<lambda>v.
             Inr (case v of Some v \<Rightarrow> Final v | None \<Rightarrow> Get_Not_Found)))"
| "obj_get_idx ev in_assertion self key idx =
     and_then (if \<not> in_assertion then run_assertions ev in_assertion self else Inr ()) (\<lambda>_.
       case for_each_rev_up_to
              (\<lambda>i core st.
                 case get_for_core ev in_assertion core key i self (fst (snd (snd st)) \<noteq> 0) of
                   Inl e \<Rightarrow> Fail e
                 | Inr r \<Rightarrow> get_step r st)
              (obj_cores self) idx (None, [], 0, None) of
         Fail e \<Rightarrow> Inl e
       | Continue st \<Rightarrow> add_up ev st
       | Break st \<Rightarrow> add_up ev st)"
  by pat_completeness auto
termination
  by (relation "measure (\<lambda>x. case x of Inl (ev, b, c, k, n, this, q) \<Rightarrow> 2 * size c | Inr (ev, b, this, k, n) \<Rightarrow> 2 * size this + 1)")
    (auto dest: size_core_less(2))

definition obj_get :: "('c, 'a, 'v, 'e) evaluator \<Rightarrow> bool \<Rightarrow> ('c, 'a) obj_value \<Rightarrow> string \<Rightarrow> 'e + 'v option" where
  "obj_get ev in_assertion self key = obj_get_idx ev in_assertion self key (obj_len self)"

section \<open>The list of fields\<close>

record field_visibility_data =
  omitted_until :: nat
  exists_visible :: "visibility option"

text \<open>The map of the fields found so far, as an association list; one event of the enumeration.\<close>

definition see_field ::
  "nat \<Rightarrow> string \<Rightarrow> enum_fields \<Rightarrow> (string \<times> field_visibility_data) list \<Rightarrow>
   ('e, (string \<times> field_visibility_data) list) flow" where
  "see_field omit_index name event out =
     (let data = (case map_of out name of
                    Some d \<Rightarrow> d
                  | None \<Rightarrow> \<lparr>omitted_until = omit_index, exists_visible = None\<rparr>);
          data =
            (case event of
               Omit_Field new_skip \<Rightarrow> data\<lparr>omitted_until := max (omitted_until data) (omit_index + new_skip + 1)\<rparr>
             | Normal_Field Normal \<Rightarrow>
                 if omitted_until data \<le> omit_index \<and> exists_visible data = None
                 then data\<lparr>exists_visible := Some Normal\<rparr> else data
             | Normal_Field Hidden \<Rightarrow>
                 if omitted_until data \<le> omit_index
                 then data\<lparr>exists_visible :=
                        (case exists_visible data of Some Unhide \<Rightarrow> Some Unhide | _ \<Rightarrow> Some Hidden)\<rparr> else data
             | Normal_Field Unhide \<Rightarrow>
                 if omitted_until data \<le> omit_index
                 then data\<lparr>exists_visible :=
                        (case exists_visible data of Some Hidden \<Rightarrow> Some Hidden | _ \<Rightarrow> Some Unhide)\<rparr> else data)
      in Continue (AList.update name data out))"

definition see_core ::
  "('c, 'a) object_core \<Rightarrow> nat \<times> (string \<times> field_visibility_data) list \<Rightarrow>
   (unit, nat \<times> (string \<times> field_visibility_data) list) flow" where
  "see_core core st =
     (case st of (omit_index, out) \<Rightarrow>
        Continue (omit_index + 1,
          case (enum_fields_core core (see_field omit_index) out :: (unit, _) flow) of
            Continue out \<Rightarrow> out | Break out \<Rightarrow> out | Fail e \<Rightarrow> out))"

definition fields_visibility :: "('c, 'a) obj_value \<Rightarrow> (string \<times> field_visibility_data) list" where
  "fields_visibility self =
     filter (\<lambda>(name, data). exists_visible data \<noteq> None)
       (case for_each_rev_up_to (\<lambda>i core. see_core core) (obj_cores self) (obj_len self) (0, []) of
          Continue (n, out) \<Rightarrow> out | Break (n, out) \<Rightarrow> out | Fail e \<Rightarrow> [])"

definition data_visible :: "field_visibility_data \<Rightarrow> bool" where
  "data_visible data \<longleftrightarrow> (case exists_visible data of Some v \<Rightarrow> is_visible v | None \<Rightarrow> False)"

definition fields_ex :: "('c, 'a) obj_value \<Rightarrow> bool \<Rightarrow> string list" where
  "fields_ex self include_hidden =
     sort (map fst (filter (\<lambda>(name, data). include_hidden \<or> data_visible data) (fields_visibility self)))"

definition fields_with_visibility :: "('c, 'a) obj_value \<Rightarrow> (string \<times> visibility) list" where
  "fields_with_visibility self =
     sort_key fst (map (\<lambda>(name, data). (name, case exists_visible data of Some v \<Rightarrow> v | None \<Rightarrow> Normal))
       (fields_visibility self))"

definition visible_len :: "('c, 'a) obj_value \<Rightarrow> nat" where
  "visible_len self = length (filter (\<lambda>(name, data). data_visible data) (fields_visibility self))"

text \<open>\<open>iter\<close>: the visible fields with their values. A field that is not there would be a panic, \<open>Inl None\<close>.\<close>

definition obj_iter ::
  "('c, 'a, 'v, 'e) evaluator \<Rightarrow> bool \<Rightarrow> ('c, 'a) obj_value \<Rightarrow> (string \<times> ('e option + 'v)) list" where
  "obj_iter ev in_assertion self =
     map (\<lambda>name. (name,
            case obj_get ev in_assertion self name of
              Inl e \<Rightarrow> Inl (Some e) | Inr (Some v) \<Rightarrow> Inr v | Inr None \<Rightarrow> Inl None))
       (fields_ex self False)"

section \<open>Inheritance\<close>

definition extend_from :: "('c, 'a) obj_value \<Rightarrow> ('c, 'a) obj_value \<Rightarrow> ('c, 'a) obj_value" where
  "extend_from self sup_obj =
     Obj_Value (extend_layered (obj_cores sup_obj) (obj_cores self)) (obj_has_assertions sup_obj \<or> obj_has_assertions self)"

text \<open>The operator \<open>+\<close> on objects.\<close>

definition obj_add :: "('c, 'a) obj_value \<Rightarrow> ('c, 'a) obj_value \<Rightarrow> ('c, 'a) obj_value" where
  "obj_add v1 v2 = extend_from v2 v1"

section \<open>Building\<close>

datatype obj_error = Duplicate_Field_Name string | Second_Assertion

record ('c, 'a) obj_value_builder =
  b_base :: "('c, 'a) object_core layered_cores option"
  b_sup :: "('c, 'a) object_core list"
  b_has_assertions :: bool
  b_entries :: "(string \<times> 'c obj_member) list"
  b_assertion :: "'a option"

definition builder_new :: "('c, 'a) obj_value_builder" where
  "builder_new = \<lparr>b_base = None, b_sup = [], b_has_assertions = False, b_entries = [], b_assertion = None\<rparr>"

definition with_super :: "('c, 'a) obj_value \<Rightarrow> ('c, 'a) obj_value_builder \<Rightarrow> ('c, 'a) obj_value_builder" where
  "with_super super_obj b =
     b\<lparr>b_has_assertions := b_has_assertions b \<or> obj_has_assertions super_obj, b_base := Some (obj_cores super_obj)\<rparr>"

text \<open>A second assertion is a panic.\<close>

definition builder_assert :: "'a \<Rightarrow> ('c, 'a) obj_value_builder \<Rightarrow> obj_error + ('c, 'a) obj_value_builder" where
  "builder_assert a b =
     (if b_assertion b \<noteq> None then Inl Second_Assertion
      else Inr (b\<lparr>b_has_assertions := True, b_assertion := Some a\<rparr>))"

definition builder_value ::
  "string \<Rightarrow> bool \<Rightarrow> visibility \<Rightarrow> 'c \<Rightarrow> ('c, 'a) obj_value_builder \<Rightarrow> ('c, 'a) obj_value_builder" where
  "builder_value name add vis code b =
     b\<lparr>b_entries := AList.update name (Obj_Member (flags_new add vis) code) (b_entries b)\<rparr>"

definition builder_binding ::
  "string \<Rightarrow> bool \<Rightarrow> visibility \<Rightarrow> 'c \<Rightarrow> ('c, 'a) obj_value_builder \<Rightarrow> obj_error + ('c, 'a) obj_value_builder" where
  "builder_binding name add vis code b =
     (if map_of (b_entries b) name \<noteq> None then Inl (Duplicate_Field_Name name)
      else Inr (builder_value name add vis code b))"

definition builder_commit :: "('c, 'a) obj_value_builder \<Rightarrow> ('c, 'a) obj_value_builder" where
  "builder_commit b =
     (if b_assertion b = None \<and> b_entries b = [] then b
      else b\<lparr>b_sup := b_sup b @ [Oop_Object (b_entries b) (b_assertion b)], b_entries := [], b_assertion := None\<rparr>)"

definition extend_with_core :: "('c, 'a) object_core \<Rightarrow> ('c, 'a) obj_value_builder \<Rightarrow> ('c, 'a) obj_value_builder" where
  "extend_with_core core b =
     (let b = builder_commit b
      in b\<lparr>b_has_assertions := b_has_assertions b \<or> core_has_assertion core, b_sup := b_sup b @ [core]\<rparr>)"

definition with_fields_omitted :: "string list \<Rightarrow> ('c, 'a) obj_value_builder \<Rightarrow> ('c, 'a) obj_value_builder" where
  "with_fields_omitted omit b =
     (let b = builder_commit b;
          prev_layers = (case b_base b of None \<Rightarrow> 0 | Some base \<Rightarrow> layered_len base) + length (b_sup b)
      in b\<lparr>b_sup := b_sup b @ [Omit_Fields_Core omit prev_layers]\<rparr>)"

definition obj_empty :: "('c, 'a) obj_value" where
  "obj_empty = Obj_Value (layered_new []) False"

definition builder_build :: "('c, 'a) obj_value_builder \<Rightarrow> ('c, 'a) obj_value" where
  "builder_build b =
     (let b = builder_commit b
      in case b_base b of
           Some base \<Rightarrow>
             Obj_Value (if b_sup b = [] then base else layered_extend base (b_sup b)) (b_has_assertions b)
         | None \<Rightarrow> if b_sup b = [] then obj_empty else Obj_Value (layered_new (b_sup b)) (b_has_assertions b))"

definition extend_with_raw_member ::
  "string \<Rightarrow> 'c obj_member \<Rightarrow> ('c, 'a) obj_value \<Rightarrow> ('c, 'a) obj_value" where
  "extend_with_raw_member key member self =
     builder_build
       (builder_value key (flags_add (flags member)) (flags_visibility (flags member)) (invoke member)
         (with_super self builder_new))"

text \<open>\<open>super\<close> on its own, for the code at core \<open>sup_idx\<close>; there is none at the lowest core.\<close>

definition standalone_super :: "nat \<Rightarrow> ('c, 'a) obj_value \<Rightarrow> ('c, 'a) obj_value option" where
  "standalone_super sup_idx this =
     (if sup_idx = 0 then None
      else Some (builder_build (extend_with_core (Standalone_Super_Core sup_idx this) builder_new)))"

definition field_in_super :: "nat \<Rightarrow> ('c, 'a) obj_value \<Rightarrow> string \<Rightarrow> bool" where
  "field_in_super sup_idx this field = has_field_include_hidden_idx this field sup_idx"

text \<open>The library functions of \<open>crates/jrsonnet-stdlib/src/objects.rs\<close>.\<close>

definition object_remove_key :: "('c, 'a) obj_value \<Rightarrow> string \<Rightarrow> ('c, 'a) obj_value" where
  "object_remove_key self key = builder_build (with_fields_omitted [key] (with_super self builder_new))"

end
