(* ===== verification/Object_Facts.thy ===== *)
theory Object_Facts
  imports Jsonnet_Objects
begin

text \<open>
  What an object means: its layers, bottom first, each a map of fields, with removed fields gone. Every
  lookup of \<open>Jsonnet_Objects\<close> is the textbook inheritance of Jsonnet on the layers.
\<close>

section \<open>The layers\<close>

fun core_layer :: "('c, 'a) object_core \<Rightarrow> (string \<times> 'c obj_member) list" where
  "core_layer (Oop_Object entries assertion) = entries"
| "core_layer (Static_Shape_Oop_Object shape bindings assertion) =
     map2 (\<lambda>(name, f) code. (name, Obj_Member f code)) shape bindings"
| "core_layer _ = []"

text \<open>A core that removes fields removes them from as many layers below it as it says, and adds none.\<close>

fun layers_step ::
  "(string \<times> 'c obj_member) list list \<Rightarrow> ('c, 'a) object_core \<Rightarrow> (string \<times> 'c obj_member) list list" where
  "layers_step ls (Omit_Fields_Core omit prev_layers) =
     (let n = length ls - prev_layers
      in take n ls @ map (filter (\<lambda>(name, m). name \<notin> set omit)) (drop n ls) @ [[]])"
| "layers_step ls core = ls @ [core_layer core]"

definition layers :: "('c, 'a) object_core list \<Rightarrow> (string \<times> 'c obj_member) list list" where
  "layers cs = foldl layers_step [] cs"

text \<open>The definitions of a field, topmost first, with the index of their layer.\<close>

definition found :: "string \<Rightarrow> (string \<times> 'c obj_member) list list \<Rightarrow> (nat \<times> 'c obj_member) list" where
  "found key ls = List.map_filter (\<lambda>(i, l). map_option (Pair i) (map_of l key)) (rev (enumerate 0 ls))"

text \<open>The topmost explicit visibility counts.\<close>

fun jsonnet_visibility :: "visibility list \<Rightarrow> visibility option" where
  "jsonnet_visibility [] = None"
| "jsonnet_visibility (v # vs) =
     (if v \<noteq> Normal then Some v
      else case jsonnet_visibility vs of None \<Rightarrow> Some Normal | Some w \<Rightarrow> Some w)"

text \<open>A field declared with \<open>+:\<close> is added to the field below, if there is one.\<close>

fun jsonnet_get ::
  "('c, 'a, 'v, 'e) evaluator \<Rightarrow> bool \<Rightarrow> ('c, 'a) obj_value \<Rightarrow> (nat \<times> 'c obj_member) list \<Rightarrow> 'e + 'v option" where
  "jsonnet_get ev in_assertion self [] = Inr None"
| "jsonnet_get ev in_assertion self ((i, m) # below) =
     and_then (evaluate ev in_assertion (invoke m) i self) (\<lambda>v.
       if flags_add (flags m) then
         and_then (jsonnet_get ev in_assertion self below) (\<lambda>w.
           case w of None \<Rightarrow> Inr (Some v) | Some w \<Rightarrow> and_then (evaluate_add_op ev w v) (\<lambda>s. Inr (Some s)))
       else Inr (Some v))"

section \<open>Objects without a separate super\<close>

fun plain_core :: "('c, 'a) object_core \<Rightarrow> bool" where
  "plain_core (Oop_Object entries assertion) \<longleftrightarrow> distinct (map fst entries)"
| "plain_core (Static_Shape_Oop_Object shape bindings assertion) \<longleftrightarrow>
     distinct (map fst shape) \<and> length shape = length bindings"
| "plain_core (Omit_Fields_Core omit prev_layers) \<longleftrightarrow> distinct omit"
| "plain_core (Standalone_Super_Core sup_idx this) \<longleftrightarrow> False"

definition plain_obj :: "('c, 'a) obj_value \<Rightarrow> bool" where
  "plain_obj self \<longleftrightarrow> lengths_ok (obj_cores self) \<and> list_all plain_core (cores_of (obj_cores self))"

fun omits :: "string \<Rightarrow> ('c, 'a) object_core \<Rightarrow> nat option" where
  "omits key (Omit_Fields_Core omit prev_layers) = (if key \<in> set omit then Some prev_layers else None)"
| "omits key _ = None"

lemma map_of_filter_names:
  "map_of (filter (\<lambda>(name, m). name \<notin> A) l) key = (if key \<in> A then None else map_of l key)"
  by (induction l) auto

lemma find_index_nth: "find_index fs name = Some i \<Longrightarrow> i < length fs \<and> fst (fs ! i) = name"
  by (induction fs arbitrary: i) (auto split: if_splits)

lemma map_of_shape:
  "length shape = length bindings \<Longrightarrow>
   map_of (map2 (\<lambda>(name, f) code. (name, Obj_Member f code)) shape bindings) name =
   map_option (\<lambda>i. Obj_Member (snd (shape ! i)) (bindings ! i)) (find_index shape name)"
proof (induction shape bindings rule: list_induct2)
  case (Cons x xs y ys)
  then show ?case by (cases x) (auto simp: option.map_comp comp_def)
qed simp

lemma find_index_None: "find_index fs name = None \<longleftrightarrow> name \<notin> fst ` set fs"
  by (induction fs) auto

lemma plain_has:
  "plain_core c \<Longrightarrow> has_field_include_hidden_core c key =
    (case omits key c of Some n \<Rightarrow> Has_Omit n
     | None \<Rightarrow> if map_of (core_layer c) key \<noteq> None then Exists else Has_Not_Found)"
  by (cases c) (auto simp: map_of_shape simp del: has_field_include_hidden_idx.simps)

lemma plain_visibility:
  "plain_core c \<Longrightarrow> field_visibility_core c key =
    (case omits key c of Some n \<Rightarrow> Vis_Omit n
     | None \<Rightarrow> (case map_of (core_layer c) key of Some m \<Rightarrow> Vis_Found (flags_visibility (flags m)) | None \<Rightarrow> Vis_Not_Found))"
  by (cases c) (auto simp: map_of_shape simp del: field_visibility_idx.simps split: option.splits)

lemma plain_get:
  "plain_core c \<Longrightarrow> get_for_core ev in_assertion c key idx this omit_only =
    (case omits key c of Some n \<Rightarrow> Inr (Get_Omit n)
     | None \<Rightarrow>
         (case map_of (core_layer c) key of
            Some m \<Rightarrow>
              if omit_only then Inr Get_Not_Found
              else and_then (evaluate ev in_assertion (invoke m) idx this) (\<lambda>v.
                     Inr (if flags_add (flags m) then Super_Plus v else Final v))
          | None \<Rightarrow> Inr Get_Not_Found))"
  by (cases c) (auto simp: map_of_shape simp del: obj_get_idx.simps split: option.splits)

section \<open>Cores seen from above\<close>

text \<open>The definitions of a field that are not removed, walking down with \<open>skip\<close> cores still to skip.\<close>

fun seen :: "string \<Rightarrow> nat \<Rightarrow> (nat \<times> ('c, 'a) object_core) list \<Rightarrow> (nat \<times> 'c obj_member) list" where
  "seen key skip [] = []"
| "seen key skip ((i, c) # cs) =
     (case omits key c of
        Some n \<Rightarrow> seen key (max skip (n + 1) - 1) cs
      | None \<Rightarrow>
          (case map_of (core_layer c) key of
             Some m \<Rightarrow> (if skip = 0 then [(i, m)] else []) @ seen key (skip - 1) cs
           | None \<Rightarrow> seen key (skip - 1) cs))"

definition hide_top :: "nat \<Rightarrow> 'm option list \<Rightarrow> 'm option list" where
  "hide_top k xs = take (length xs - k) xs @ replicate (min k (length xs)) None"

definition found_in :: "'m option list \<Rightarrow> (nat \<times> 'm) list" where
  "found_in xs = List.map_filter (\<lambda>(i, l). map_option (Pair i) l) (rev (enumerate 0 xs))"

lemma enumerate_map: "enumerate n (map f xs) = map (\<lambda>(i, x). (i, f x)) (enumerate n xs)"
  by (induction xs arbitrary: n) simp_all

lemma map_filter_map: "List.map_filter f (map g xs) = List.map_filter (\<lambda>x. f (g x)) xs"
  by (induction xs) (auto simp: map_filter_simps split: option.splits)

lemma found_found_in: "found key ls = found_in (map (\<lambda>l. map_of l key) ls)"
  by (simp add: found_def found_in_def enumerate_map rev_map map_filter_map case_prod_unfold)

lemma found_in_snoc [simp]:
  "found_in (xs @ [None]) = found_in xs" "found_in (xs @ [Some m]) = (length xs, m) # found_in xs" "found_in [] = []"
  by (simp_all add: found_in_def enumerate_append_eq map_filter_simps)

lemma hide_top_simps [simp]: "hide_top 0 xs = xs" "length (hide_top k xs) = length xs" "hide_top k [] = []"
  by (simp_all add: hide_top_def)

lemma hide_top_Suc [simp]: "hide_top (Suc k) (xs @ [x]) = hide_top k xs @ [None]"
  by (simp add: hide_top_def replicate_append_same)

lemma hide_top_snoc: "hide_top k (xs @ [x]) = hide_top (k - 1) xs @ [if k = 0 then x else None]"
  by (cases k) simp_all

lemma hide_top_hide_top: "hide_top k (hide_top n xs) = hide_top (max k n) xs"
proof (induction xs arbitrary: k n rule: rev_induct)
  case (snoc x xs)
  have "max (k - 1) (n - 1) = max k n - 1" "(k = 0 \<and> n = 0) = (max k n = 0)" by auto
  then show ?case using snoc by (simp add: hide_top_snoc)
qed simp

lemma hide_top_take_drop:
  "length (xs) - k = n \<Longrightarrow> take n xs @ map (\<lambda>x. None) (drop n xs) = hide_top k xs"
  by (auto simp: hide_top_def map_replicate_const min_def)

lemma layers_snoc [simp]: "layers (cs @ [c]) = layers_step (layers cs) c" "layers [] = []"
  by (simp_all add: layers_def)

lemma length_layers [simp]: "length (layers cs) = length cs"
proof (induction cs rule: rev_induct)
  case (snoc c cs)
  then show ?case by (cases c) (simp_all add: Let_def)
qed simp

lemma lookup_layers_step:
  "map (\<lambda>l. map_of l key) (layers_step ls c) =
    (case omits key c of
       Some n \<Rightarrow> hide_top n (map (\<lambda>l. map_of l key) ls) @ [None]
     | None \<Rightarrow> map (\<lambda>l. map_of l key) ls @ [map_of (core_layer c) key])"
proof (cases c)
  case (Omit_Fields_Core omit prev_layers)
  let ?n = "length ls - prev_layers"
  show ?thesis
  proof (cases "key \<in> set omit")
    case True
    then show ?thesis
      using hide_top_take_drop [of "map (\<lambda>l. map_of l key) ls" prev_layers ?n] Omit_Fields_Core
      by (simp add: Let_def map_of_filter_names comp_def take_map drop_map)
  next
    case False
    have "map (\<lambda>l. map_of l key) (take ?n ls) @ map (\<lambda>l. map_of l key) (drop ?n ls) = map (\<lambda>l. map_of l key) ls"
      by (simp flip: map_append)
    then show ?thesis using False Omit_Fields_Core by (simp add: Let_def map_of_filter_names comp_def)
  qed
qed simp_all

lemma seen_found_in:
  "seen key skip (rev (enumerate 0 cs)) = found_in (hide_top skip (map (\<lambda>l. map_of l key) (layers cs)))"
proof (induction cs arbitrary: skip rule: rev_induct)
  case (snoc c cs)
  have m: "max skip (Suc n) - Suc 0 = max (skip - Suc 0) n" for n by auto
  show ?case
    using snoc
    by (auto simp: enumerate_append_eq lookup_layers_step hide_top_snoc hide_top_hide_top m split: option.splits)
qed simp

lemma seen_found: "seen key 0 (rev (enumerate 0 cs)) = found key (layers cs)"
  by (simp add: seen_found_in found_found_in)

lemma take_enumerate: "take n (enumerate m xs) = enumerate m (take n xs)"
  by (induction xs arbitrary: n m) (auto simp: take_Cons split: nat.splits)

lemma plain_loop:
  assumes "plain_obj self"
  shows "for_each_rev_up_to f (obj_cores self) idx s =
      flow_loop (\<lambda>(i, c). f i c) (rev (enumerate 0 (take idx (cores_of (obj_cores self))))) s"
    and "(i, c) \<in> set (rev (enumerate 0 (take idx (cores_of (obj_cores self))))) \<Longrightarrow> plain_core c"
proof -
  show "for_each_rev_up_to f (obj_cores self) idx s =
      flow_loop (\<lambda>(i, c). f i c) (rev (enumerate 0 (take idx (cores_of (obj_cores self))))) s"
    using assms by (simp add: plain_obj_def for_each_rev_flat take_enumerate)
  assume "(i, c) \<in> set (rev (enumerate 0 (take idx (cores_of (obj_cores self)))))"
  then have "c \<in> set (take idx (cores_of (obj_cores self)))"
    by (metis enumerate_eq_zip in_set_zipE set_rev)
  then show "plain_core c" using assms by (auto simp: plain_obj_def list_all_iff dest: in_set_takeD)
qed

section \<open>The lookups\<close>

lemma has_field_layers:
  fixes self :: "('c, 'a) obj_value"
  assumes "plain_obj self"
  shows "has_field_include_hidden_idx self key idx \<longleftrightarrow> found key (layers (take idx (cores_of (obj_cores self)))) \<noteq> []"
proof -
  define step :: "nat \<Rightarrow> ('c, 'a) object_core \<Rightarrow> nat \<times> bool \<Rightarrow> (unit, nat \<times> bool) flow" where
    "step = (\<lambda>i core (skip, hit).
                case has_field_include_hidden_core core key of
                  Exists \<Rightarrow> if skip = 0 then Break (skip, True) else Continue (skip - 1, hit)
                | Has_Omit new_skip \<Rightarrow> Continue (max skip (new_skip + 1) - 1, hit)
                | Has_Not_Found \<Rightarrow> Continue (skip - 1, hit))"
  have loop: "(case flow_loop (\<lambda>(i, c). step i c) xs (skip, False) of
        Continue (skip, hit) \<Rightarrow> hit | Break (skip, hit) \<Rightarrow> hit | Fail e \<Rightarrow> False) \<longleftrightarrow> seen key skip xs \<noteq> []"
    if "\<And>i c. (i, c) \<in> set xs \<Longrightarrow> plain_core c" for xs skip
    using that
  proof (induction xs arbitrary: skip)
    case (Cons x xs)
    obtain i c where x: "x = (i, c)" by (cases x)
    have "plain_core c" using Cons.prems x by auto
    have IH: "(case flow_loop (\<lambda>(i, c). step i c) xs (skip, False) of
        Continue (skip, hit) \<Rightarrow> hit | Break (skip, hit) \<Rightarrow> hit | Fail e \<Rightarrow> False) \<longleftrightarrow> seen key skip xs \<noteq> []" for skip
      by (rule Cons.IH) (use Cons.prems x in auto)
    have "step i c (skip, False) =
      (case omits key c of Some n \<Rightarrow> Continue (max skip (n + 1) - 1, False)
       | None \<Rightarrow> (case map_of (core_layer c) key of
           Some m \<Rightarrow> if skip = 0 then Break (skip, True) else Continue (skip - 1, False)
         | None \<Rightarrow> Continue (skip - 1, False)))"
      using \<open>plain_core c\<close> by (auto simp: step_def plain_has split: option.splits)
    with IH show ?case by (auto simp: x split: option.splits)
  qed simp
  show ?thesis
    using loop [of "rev (enumerate 0 (take idx (cores_of (obj_cores self))))" 0, OF plain_loop(2) [OF assms]] plain_loop(1) [OF assms, of step idx "(0, False)"]
    by (simp add: seen_found flip: step_def)
qed

lemma visibility_layers:
  fixes self :: "('c, 'a) obj_value"
  assumes "plain_obj self"
  shows "field_visibility_idx self key idx =
    jsonnet_visibility (map (\<lambda>(i, m). flags_visibility (flags m)) (found key (layers (take idx (cores_of (obj_cores self))))))"
proof -
  define step :: "nat \<Rightarrow> ('c, 'a) object_core \<Rightarrow> nat \<times> bool \<times> visibility option \<Rightarrow> (unit, nat \<times> bool \<times> visibility option) flow" where
    "step = (\<lambda>i core (skip, exists, early_vis).
                case field_visibility_core core key of
                  Vis_Found vis \<Rightarrow>
                    (if vis = Normal then Continue (skip - 1, exists \<or> skip = 0, early_vis)
                     else if skip = 0 then Break (skip, exists, Some vis)
                     else Continue (skip - 1, exists, early_vis))
                | Vis_Not_Found \<Rightarrow> Continue (skip - 1, exists, early_vis)
                | Vis_Omit new_skip \<Rightarrow> Continue (max skip (new_skip + 1) - 1, exists, early_vis))"
  define res :: "(unit, nat \<times> bool \<times> visibility option) flow \<Rightarrow> visibility option" where
    "res r = (let (skip, exists, early_vis) = (case r of Continue st \<Rightarrow> st | Break st \<Rightarrow> st | Fail e \<Rightarrow> (0, False, None))
        in if early_vis \<noteq> None then early_vis else if exists then Some Normal else None)" for r
  have loop: "res (flow_loop (\<lambda>(i, c). step i c) xs (skip, exists, None)) =
      (case jsonnet_visibility (map (\<lambda>(i, m). flags_visibility (flags m)) (seen key skip xs)) of
         Some v \<Rightarrow> Some v | None \<Rightarrow> if exists then Some Normal else None)"
    if "\<And>i c. (i, c) \<in> set xs \<Longrightarrow> plain_core c" for xs skip exists
    using that
  proof (induction xs arbitrary: skip exists)
    case (Cons x xs)
    obtain i c where x: "x = (i, c)" by (cases x)
    have "plain_core c" using Cons.prems x by auto
    have IH: "res (flow_loop (\<lambda>(i, c). step i c) xs (skip, exists, None)) =
      (case jsonnet_visibility (map (\<lambda>(i, m). flags_visibility (flags m)) (seen key skip xs)) of
         Some v \<Rightarrow> Some v | None \<Rightarrow> if exists then Some Normal else None)" for skip exists
      by (rule Cons.IH) (use Cons.prems x in auto)
    have "step i c (skip, exists, None) =
      (case omits key c of Some n \<Rightarrow> Continue (max skip (n + 1) - 1, exists, None)
       | None \<Rightarrow> (case map_of (core_layer c) key of
           Some m \<Rightarrow> (if flags_visibility (flags m) = Normal then Continue (skip - 1, exists \<or> skip = 0, None)
                     else if skip = 0 then Break (skip, exists, Some (flags_visibility (flags m)))
                     else Continue (skip - 1, exists, None))
         | None \<Rightarrow> Continue (skip - 1, exists, None)))"
      using \<open>plain_core c\<close> by (auto simp: step_def plain_visibility split: option.splits)
    moreover have "res (Break (skip, exists, Some v)) = Some v" for v by (simp add: res_def)
    ultimately show ?case using IH by (auto simp: x split: option.splits)
  qed (simp add: res_def)
  show ?thesis
    using loop [of "rev (enumerate 0 (take idx (cores_of (obj_cores self))))" 0 False, OF plain_loop(2) [OF assms]] plain_loop(1) [OF assms, of step idx "(0, False, None)"]
    by (simp add: seen_found res_def flip: step_def split: option.splits)
qed

text \<open>What is still to be added on top of a value, topmost summand first.\<close>

definition add_pending :: "('c, 'a, 'v, 'e) evaluator \<Rightarrow> 'v list \<Rightarrow> 'v option \<Rightarrow> 'e + 'v option" where
  "add_pending ev p w =
     (case (case w of None \<Rightarrow> rev p | Some v \<Rightarrow> v # rev p) of
        [] \<Rightarrow> Inr None | init # values \<Rightarrow> and_then (try_fold_add ev init values) (\<lambda>v. Inr (Some v)))"

lemma add_pending_snoc:
  "add_pending ev (p @ [v]) w =
    (case w of None \<Rightarrow> add_pending ev p (Some v)
     | Some u \<Rightarrow> and_then (evaluate_add_op ev u v) (\<lambda>s. add_pending ev p (Some s)))"
  by (cases w; cases "evaluate_add_op ev (the w) v") (simp_all add: add_pending_def)

lemma add_up_pending:
  "add_up ev (None, [], skip, None) = add_pending ev [] None"
  "add_up ev (Some f, st, skip, None) = add_pending ev (f # st) None"
  by (cases st rule: rev_cases; simp add: add_up_def add_pending_def)+

lemma get_layers:
  fixes ev :: "('c, 'a, 'v, 'e) evaluator"
  assumes "plain_obj self"
  shows "obj_get_idx ev in_assertion self key idx =
    and_then (if \<not> in_assertion then run_assertions ev in_assertion self else Inr ()) (\<lambda>_.
      jsonnet_get ev in_assertion self (found key (layers (take idx (cores_of (obj_cores self))))))"
proof -
  define step where "step = (\<lambda>i core st.
                 case get_for_core ev in_assertion core key i self (fst (snd (snd st)) \<noteq> 0) of
                   Inl e \<Rightarrow> Fail e
                 | Inr r \<Rightarrow> get_step r st)"
  define res :: "('e, 'v option \<times> 'v list \<times> nat \<times> 'v option) flow \<Rightarrow> 'e + 'v option"
    where "res r = (case r of Fail e \<Rightarrow> Inl e | Continue st \<Rightarrow> add_up ev st | Break st \<Rightarrow> add_up ev st)" for r
  define state where "state p skip = (case p of [] \<Rightarrow> (None, [], skip, None :: 'v option) | f # st \<Rightarrow> (Some f, st, skip, None))"
    for p :: "'v list" and skip :: nat
  have state: "fst (snd (snd (state p skip))) = skip" for p skip by (cases p) (simp_all add: state_def)
  have steps: "get_step Get_Not_Found (state p skip) = (Continue (state p (skip - 1)) :: ('e, _) flow)"
    "get_step (Get_Omit n) (state p skip) = (Continue (state p (max skip (n + 1) - 1)) :: ('e, _) flow)"
    "get_step (Super_Plus v) (state p 0) = (Continue (state (p @ [v]) 0) :: ('e, _) flow)"
    "res (get_step (Final v) (state p 0)) = add_pending ev p (Some v)" for p skip n v
    by (cases p; simp add: state_def get_step_def res_def add_up_def add_pending_def)+
  have loop: "res (flow_loop (\<lambda>(i, c). step i c) xs (state p skip)) =
      and_then (jsonnet_get ev in_assertion self (seen key skip xs)) (add_pending ev p)"
    if "\<And>i c. (i, c) \<in> set xs \<Longrightarrow> plain_core c" for xs skip p
    using that
  proof (induction xs arbitrary: skip p)
    case Nil
    show ?case by (cases p) (simp_all add: res_def state_def add_up_pending)
  next
    case (Cons x xs)
    obtain i c where x: "x = (i, c)" by (cases x)
    have c: "plain_core c" using Cons.prems x by auto
    have IH: "res (flow_loop (\<lambda>(i, c). step i c) xs (state p skip)) =
      and_then (jsonnet_get ev in_assertion self (seen key skip xs)) (add_pending ev p)" for skip p
      by (rule Cons.IH) (use Cons.prems x in auto)
    show ?case
    proof (cases "omits key c = None \<and> skip = 0 \<and> map_of (core_layer c) key \<noteq> None")
      case True
      then obtain m where m: "map_of (core_layer c) key = Some m" by auto
      show ?thesis
      proof (cases "evaluate ev in_assertion (invoke m) i self")
        case (Inl e)
        then show ?thesis using c True m by (simp add: x step_def state plain_get res_def)
      next
        case (Inr v)
        have "step i c (state p 0) = get_step (if flags_add (flags m) then Super_Plus v else Final v) (state p 0)"
          using c True m Inr by (simp add: step_def state plain_get)
        moreover have "res (flow_bind (get_step (Final v) (state p 0)) f) = res (get_step (Final v) (state p 0))" for f
          by (cases p) (simp_all add: state_def get_step_def)
        ultimately show ?thesis using True m Inr IH [of "p @ [v]" 0] steps
          by (cases "jsonnet_get ev in_assertion self (seen key 0 xs)")
            (auto simp: x add_pending_snoc and_then_def split: option.splits sum.splits)
      qed
    next
      case False
      then have "step i c (state p skip) =
          Continue (state p (case omits key c of Some n \<Rightarrow> max skip (n + 1) - 1 | None \<Rightarrow> skip - 1))"
        using c steps by (auto simp: step_def state plain_get split: option.splits)
      then show ?thesis using False IH by (auto simp: x split: option.splits)
    qed
  qed
  have "add_pending ev [] = Inr" by (auto simp: add_pending_def split: option.splits)
  then have "res (flow_loop (\<lambda>(i, c). step i c) (rev (enumerate 0 (take idx (cores_of (obj_cores self))))) (None, [], 0, None)) =
      jsonnet_get ev in_assertion self (found key (layers (take idx (cores_of (obj_cores self)))))"
    using loop [of "rev (enumerate 0 (take idx (cores_of (obj_cores self))))" "[]" 0, OF plain_loop(2) [OF assms]] by (simp add: seen_found state_def and_then_def split: sum.splits)
  moreover have "obj_get_idx ev in_assertion self key idx =
      and_then (if \<not> in_assertion then run_assertions ev in_assertion self else Inr ()) (\<lambda>_.
        res (for_each_rev_up_to step (obj_cores self) idx (None, [], 0, None)))"
    by (simp only: obj_get_idx.simps res_def step_def)
  ultimately show ?thesis by (simp only: plain_loop(1) [OF assms])
qed

section \<open>The list of fields\<close>

text \<open>What enumerating a core tells of one field.\<close>

definition event :: "string \<Rightarrow> ('c, 'a) object_core \<Rightarrow> enum_fields option" where
  "event key c =
     (case omits key c of
        Some n \<Rightarrow> Some (Omit_Field n)
      | None \<Rightarrow> map_option (\<lambda>m. Normal_Field (flags_visibility (flags m))) (map_of (core_layer c) key))"

definition update_data :: "nat \<Rightarrow> enum_fields \<Rightarrow> field_visibility_data option \<Rightarrow> field_visibility_data" where
  "update_data k ev d =
     (case (see_field k ''x'' ev (case d of None \<Rightarrow> [] | Some d \<Rightarrow> [(''x'', d)]) :: (unit, _) flow) of
        Continue out \<Rightarrow> the (map_of out ''x'') | _ \<Rightarrow> the d)"

lemma see_field_update:
  "see_field k name ev out = Continue (AList.update name (update_data k ev (map_of out name)) out)"
  by (cases "map_of out name") (simp_all add: see_field_def update_data_def Let_def)

lemma see_fields:
  assumes "distinct (map fst evs)"
  shows "\<exists>out'. (flow_loop (\<lambda>(name, ev). see_field k name ev) evs out :: ('e, _) flow) = Continue out' \<and>
    (\<forall>name. map_of out' name =
       (case map_of evs name of Some ev \<Rightarrow> Some (update_data k ev (map_of out name)) | None \<Rightarrow> map_of out name)) \<and>
    (distinct (map fst out) \<longrightarrow> distinct (map fst out'))"
  using assms
proof (induction evs arbitrary: out)
  case (Cons x evs)
  obtain name ev where x: "x = (name, ev)" by (cases x)
  let ?out = "AList.update name (update_data k ev (map_of out name)) out"
  obtain out' where out': "(flow_loop (\<lambda>(name, ev). see_field k name ev) evs ?out :: ('e, _) flow) = Continue out'"
    "\<And>name. map_of out' name = (case map_of evs name of Some ev \<Rightarrow> Some (update_data k ev (map_of ?out name)) | None \<Rightarrow> map_of ?out name)"
    "distinct (map fst ?out) \<Longrightarrow> distinct (map fst out')"
    using Cons.IH [of ?out] Cons.prems by auto
  have "name \<notin> dom (map_of evs)" using Cons.prems x by (simp add: dom_map_of_conv_image_fst)
  then show ?case using out' by (auto simp: x see_field_update [of k name ev out] update_conv' distinct_update split: option.splits)
qed simp

lemma map_of_map_snd: "map_of (map (\<lambda>p. (fst p, f (snd p))) l) name = map_option f (map_of l name)"
  by (induction l) auto

lemma see_plain_core:
  assumes "plain_core c"
  shows "\<exists>out'. see_core c (k, out) = Continue (k + 1, out') \<and>
    (\<forall>name. map_of out' name =
       (case event name c of Some ev \<Rightarrow> Some (update_data k ev (map_of out name)) | None \<Rightarrow> map_of out name)) \<and>
    (distinct (map fst out) \<longrightarrow> distinct (map fst out'))"
proof -
  have "\<exists>evs. distinct (map fst evs) \<and> (\<forall>name. map_of evs name = event name c) \<and>
    (enum_fields_core c (see_field k) out :: (unit, _) flow) = flow_loop (\<lambda>(name, ev). see_field k name ev) evs out"
  proof (cases c)
    case (Oop_Object entries assertion)
    let ?evs = "map (\<lambda>(name, m). (name, Normal_Field (flags_visibility (flags m)))) entries"
    show ?thesis using assms Oop_Object
      by (intro exI [of _ ?evs])
        (auto simp: event_def map_of_map_snd [of "\<lambda>m. Normal_Field (flags_visibility (flags m))"] comp_def case_prod_unfold flow_loop_map intro!: flow_loop_cong)
  next
    case (Static_Shape_Oop_Object shape bindings assertion)
    let ?evs = "map (\<lambda>(name, f). (name, Normal_Field (flags_visibility f))) shape"
    have "map_of ?evs name = map_option (\<lambda>i. Normal_Field (flags_visibility (snd (shape ! i)))) (find_index shape name)" for name
      by (induction shape) (auto simp: option.map_comp comp_def)
    then have "map_of ?evs name = event name c" for name
      using assms Static_Shape_Oop_Object by (simp add: event_def map_of_shape option.map_comp comp_def)
    moreover have "distinct (map fst ?evs)" using assms Static_Shape_Oop_Object by (simp add: comp_def case_prod_unfold)
    moreover have "(enum_fields_core c (see_field k) out :: (unit, _) flow) = flow_loop (\<lambda>(name, ev). see_field k name ev) ?evs out"
      unfolding Static_Shape_Oop_Object by (simp add: case_prod_unfold flow_loop_map)
    ultimately show ?thesis by blast
  next
    case (Omit_Fields_Core omit prev_layers)
    let ?evs = "map (\<lambda>name. (name, Omit_Field prev_layers)) omit"
    have "map_of ?evs name = (if name \<in> set omit then Some (Omit_Field prev_layers) else None)" for name
      by (induction omit) auto
    then show ?thesis using assms Omit_Fields_Core
      by (intro exI [of _ ?evs]) (auto simp: event_def flow_loop_map comp_def)
  qed (use assms in simp)
  then obtain evs where evs: "distinct (map fst evs)" "\<And>name. map_of evs name = event name c"
    "(enum_fields_core c (see_field k) out :: (unit, _) flow) = flow_loop (\<lambda>(name, ev). see_field k name ev) evs out"
    by auto
  from see_fields [OF evs(1), of k out] obtain out' where
    "(flow_loop (\<lambda>(name, ev). see_field k name ev) evs out :: (unit, _) flow) = Continue out'"
    "\<forall>name. map_of out' name =
       (case map_of evs name of Some ev \<Rightarrow> Some (update_data k ev (map_of out name)) | None \<Rightarrow> map_of out name)"
    "distinct (map fst out) \<longrightarrow> distinct (map fst out')" by blast
  with evs show ?thesis by (simp add: see_core_def)
qed

text \<open>What is known of a field after some cores, and what is still skipped.\<close>

definition known :: "field_visibility_data option \<Rightarrow> visibility option" where
  "known d = (case d of None \<Rightarrow> None | Some d \<Rightarrow> exists_visible d)"

definition skipped :: "nat \<Rightarrow> field_visibility_data option \<Rightarrow> nat" where
  "skipped k d = (case d of None \<Rightarrow> 0 | Some d \<Rightarrow> omitted_until d - k)"

fun refine_visibility :: "visibility option \<Rightarrow> visibility option \<Rightarrow> visibility option" where
  "refine_visibility None w = w"
| "refine_visibility (Some Normal) w = (case w of None \<Rightarrow> Some Normal | Some w \<Rightarrow> Some w)"
| "refine_visibility (Some v) w = Some v"

lemma visibility_option_cases:
  "(e = None \<Longrightarrow> P) \<Longrightarrow> (e = Some Normal \<Longrightarrow> P) \<Longrightarrow> (e = Some Hidden \<Longrightarrow> P) \<Longrightarrow> (e = Some Unhide \<Longrightarrow> P) \<Longrightarrow> P"
  by (metis option.exhaust visibility.exhaust)

lemma update_data_omit:
  "known (Some (update_data k (Omit_Field n) d)) = known d"
  "skipped (k + 1) (Some (update_data k (Omit_Field n) d)) = max (skipped k d) (n + 1) - 1"
  by (cases d; simp add: update_data_def see_field_def known_def skipped_def Let_def; linarith)+

lemma update_data_normal:
  "known (Some (update_data k (Normal_Field v) d)) =
    (if skipped k d = 0 then refine_visibility (known d) (Some v) else known d)"
  "skipped (k + 1) (Some (update_data k (Normal_Field v) d)) = skipped k d - 1"
proof -
  note defs = update_data_def see_field_def known_def skipped_def Let_def
  show "known (Some (update_data k (Normal_Field v) d)) =
      (if skipped k d = 0 then refine_visibility (known d) (Some v) else known d)"
  proof (cases d)
    case None
    then show ?thesis by (cases v) (simp_all add: defs)
  next
    case (Some dd)
    show ?thesis unfolding Some
      by (rule visibility_option_cases [of "exists_visible dd"]; cases v; simp add: defs)
  qed
  show "skipped (k + 1) (Some (update_data k (Normal_Field v) d)) = skipped k d - 1"
    by (cases d; cases v; simp add: defs)
qed

lemma skipped_Suc: "skipped (k + 1) d = skipped k d - 1"
  by (cases d) (simp_all add: skipped_def)

lemma see_plain_cores:
  assumes "\<And>i c. (i, c) \<in> set xs \<Longrightarrow> plain_core c"
  shows "\<exists>n out'. flow_loop (\<lambda>(i, c). see_core c) xs (k, out) = Continue (n, out') \<and>
    (\<forall>name. known (map_of out' name) = refine_visibility (known (map_of out name))
       (jsonnet_visibility (map (\<lambda>(i, m). flags_visibility (flags m)) (seen name (skipped k (map_of out name)) xs)))) \<and>
    (distinct (map fst out) \<longrightarrow> distinct (map fst out'))"
  using assms
proof (induction xs arbitrary: k out)
  case Nil
  have "refine_visibility v None = v" for v by (cases "(v, None :: visibility option)" rule: refine_visibility.cases) auto
  then show ?case by simp
next
  case (Cons x xs)
  obtain i c where x: "x = (i, c)" by (cases x)
  obtain out1 where out1: "see_core c (k, out) = Continue (k + 1, out1)"
    "\<And>name. map_of out1 name =
       (case event name c of Some ev \<Rightarrow> Some (update_data k ev (map_of out name)) | None \<Rightarrow> map_of out name)"
    "distinct (map fst out) \<longrightarrow> distinct (map fst out1)"
    using see_plain_core [of c k out] Cons.prems x by auto
  obtain n out' where out': "flow_loop (\<lambda>(i, c). see_core c) xs (k + 1, out1) = Continue (n, out')"
    "\<And>name. known (map_of out' name) = refine_visibility (known (map_of out1 name))
       (jsonnet_visibility (map (\<lambda>(i, m). flags_visibility (flags m)) (seen name (skipped (k + 1) (map_of out1 name)) xs)))"
    "distinct (map fst out1) \<longrightarrow> distinct (map fst out')"
    using Cons.IH [of "k + 1" out1] Cons.prems x by auto
  have "refine_visibility (refine_visibility d (Some v)) (jsonnet_visibility vs) = refine_visibility d (jsonnet_visibility (v # vs))" for d v vs
    by (rule visibility_option_cases [of d]; cases v; cases "jsonnet_visibility vs"; simp)
  then have "known (map_of out' name) = refine_visibility (known (map_of out name))
      (jsonnet_visibility (map (\<lambda>(i, m). flags_visibility (flags m)) (seen name (skipped k (map_of out name)) (x # xs))))" for name
    unfolding out'(2) out1(2)
    by (auto simp: x event_def update_data_omit update_data_normal skipped_Suc [of k "map_of out name"]
        simp del: Suc_eq_plus1 One_nat_def jsonnet_visibility.simps(2) split: option.splits)
  then show ?case using out1(1,3) out'(1,3) by (intro exI [of _ n] exI [of _ out']) (simp add: x)
qed

declare has_field_include_hidden_idx.simps [simp del] field_visibility_idx.simps [simp del] obj_get_idx.simps [simp del]
  run_assertions.simps [simp del] enum_fields_idx.simps [simp del]

end
