(* ===== verification/Object_Iteration.thy ===== *)
theory Object_Iteration
  imports Object_Properties
begin

text \<open>
  Iterating over any object, those with a \<open>super\<close> of their own included: a field the enumeration
  lists is a field the lookup finds, so \<open>iter\<close> never runs into its \<open>expect\<close>. The converse fails.
\<close>

section \<open>Objects with super inside\<close>

inductive core_ok :: "('c, 'a) object_core \<Rightarrow> bool" and obj_ok :: "('c, 'a) obj_value \<Rightarrow> bool" where
  Oop_ok: "core_ok (Oop_Object entries assertion)"
| Static_ok: "core_ok (Static_Shape_Oop_Object shape bindings assertion)"
| Omit_ok: "core_ok (Omit_Fields_Core omit prev_layers)"
| Super_ok: "obj_ok this \<Longrightarrow> core_ok (Standalone_Super_Core sup_idx this)"
| Obj_ok: "lengths_ok l \<Longrightarrow> (\<forall>c \<in> set (cores_of l). core_ok c) \<Longrightarrow> obj_ok (Obj_Value l b)"

inductive_simps core_ok_super [simp]: "core_ok (Standalone_Super_Core sup_idx this)"
inductive_simps obj_ok_value [simp]: "obj_ok (Obj_Value l b)"

section \<open>The lookup of a field\<close>

fun finds :: "string \<Rightarrow> nat \<Rightarrow> (nat \<times> ('c, 'a) object_core) list \<Rightarrow> bool" where
  "finds key skip [] \<longleftrightarrow> False"
| "finds key skip ((i, c) # cs) \<longleftrightarrow>
     (case has_field_include_hidden_core c key of
        Exists \<Rightarrow> skip = 0 \<or> finds key (skip - 1) cs
      | Has_Omit n \<Rightarrow> finds key (max skip (n + 1) - 1) cs
      | Has_Not_Found \<Rightarrow> finds key (skip - 1) cs)"

lemma has_finds:
  assumes "lengths_ok (obj_cores self)"
  shows "has_field_include_hidden_idx self key idx \<longleftrightarrow> finds key 0 (rev (take idx (enumerate 0 (cores_of (obj_cores self)))))"
proof -
  define step :: "nat \<Rightarrow> ('a, 'b) object_core \<Rightarrow> nat \<times> bool \<Rightarrow> (unit, nat \<times> bool) flow" where
    "step = (\<lambda>i core (skip, hit).
                case has_field_include_hidden_core core key of
                  Exists \<Rightarrow> if skip = 0 then Break (skip, True) else Continue (skip - 1, hit)
                | Has_Omit new_skip \<Rightarrow> Continue (max skip (new_skip + 1) - 1, hit)
                | Has_Not_Found \<Rightarrow> Continue (skip - 1, hit))"
  have "(case flow_loop (\<lambda>(i, c). step i c) xs (skip, False) of
        Continue (skip, hit) \<Rightarrow> hit | Break (skip, hit) \<Rightarrow> hit | Fail e \<Rightarrow> False) \<longleftrightarrow> finds key skip xs" for xs skip
  proof (induction xs arbitrary: skip)
    case (Cons x xs)
    obtain i c where x: "x = (i, c)" by (cases x)
    show ?case using Cons by (cases "has_field_include_hidden_core c key") (auto simp: x step_def)
  qed simp
  then show ?thesis
    by (simp add: has_field_include_hidden_idx.simps for_each_rev_flat [OF assms] flip: step_def)
qed

text \<open>What a core answers to \<open>get\<close>, compared with what it answers to \<open>has\<close>.\<close>

definition core_gets ::
  "('c, 'a, 'v, 'e) evaluator \<Rightarrow> bool \<Rightarrow> string \<Rightarrow> ('c, 'a) object_core \<Rightarrow> bool" where
  "core_gets ev in_assertion key c \<longleftrightarrow>
     (\<forall>i this.
        get_for_core ev in_assertion c key i this True =
          (case has_field_include_hidden_core c key of Has_Omit n \<Rightarrow> Inr (Get_Omit n) | _ \<Rightarrow> Inr Get_Not_Found) \<and>
        (case has_field_include_hidden_core c key of
           Has_Omit n \<Rightarrow> get_for_core ev in_assertion c key i this False = Inr (Get_Omit n)
         | Exists \<Rightarrow> get_for_core ev in_assertion c key i this False \<noteq> Inr Get_Not_Found \<and>
             (\<forall>n. get_for_core ev in_assertion c key i this False \<noteq> Inr (Get_Omit n))
         | Has_Not_Found \<Rightarrow> \<forall>n. get_for_core ev in_assertion c key i this False \<noteq> Inr (Get_Omit n)))"

lemma add_pending_Some: "p \<noteq> [] \<or> w \<noteq> None \<Longrightarrow> add_pending ev p w \<noteq> Inr None"
  by (cases "case w of None \<Rightarrow> rev p | Some v \<Rightarrow> v # rev p")
    (auto simp: add_pending_def and_then_def split: option.splits sum.splits)

lemma get_loop_found:
  fixes ev :: "('c, 'a, 'v, 'e) evaluator"
  assumes "\<And>i c. (i, c) \<in> set xs \<Longrightarrow> core_gets ev in_assertion key c"
    and "first_add \<noteq> None \<or> finds key skip xs" "first_add = None \<Longrightarrow> add_stack = []"
  shows "(case flow_loop (\<lambda>(i, core) st.
                 case get_for_core ev in_assertion core key i self (fst (snd (snd st)) \<noteq> 0) of
                   Inl e \<Rightarrow> Fail e
                 | Inr r \<Rightarrow> get_step r st) xs (first_add, add_stack, skip, None) of
         Fail e \<Rightarrow> Inl e | Continue st \<Rightarrow> add_up ev st | Break st \<Rightarrow> add_up ev st) \<noteq> Inr None"
  using assms
proof (induction xs arbitrary: first_add add_stack skip)
  case Nil
  then obtain f where "first_add = Some f" by auto
  then show ?case using add_pending_Some [of "f # add_stack" None ev] by (simp add: add_up_pending)
next
  case (Cons x xs)
  obtain i c where x: "x = (i, c)" by (cases x)
  have gets: "core_gets ev in_assertion key c" using Cons.prems(1) x by auto
  note IH = Cons.IH [OF Cons.prems(1)]
  have break: "add_up ev (first_add, add_stack, skip, Some v) \<noteq> Inr None" for v by (simp add: add_up_def)
  have sum: "add_up ev (Some f, add_stack @ [v], skip, None) \<noteq> Inr None" for f v
    using add_pending_Some [of "f # add_stack @ [v]" None ev] by (simp add: add_up_pending)
  define res where "res fl = (case fl of Fail e \<Rightarrow> Inl e | Continue st \<Rightarrow> add_up ev st | Break st \<Rightarrow> add_up ev st)"
    for fl :: "('e, 'v option \<times> 'v list \<times> nat \<times> 'v option) flow"
  define step where "step = (\<lambda>(i :: nat, core) st.
                 case get_for_core ev in_assertion core key i self (fst (snd (snd st)) \<noteq> 0) of
                   Inl e \<Rightarrow> Fail e
                 | Inr r \<Rightarrow> get_step r st)"
  have IH: "res (flow_loop step xs (fa, st, sk, None)) \<noteq> Inr None"
    if "fa \<noteq> None \<or> finds key sk xs" "fa = None \<Longrightarrow> st = []" for fa st sk
    unfolding res_def step_def by (rule Cons.IH) (use Cons.prems(1) that in auto)
  have head: "res (flow_loop step (x # xs) (first_add, add_stack, skip, None)) \<noteq> Inr None"
  proof (cases "skip = 0")
    case False
    then have "step x (first_add, add_stack, skip, None) =
        Continue (first_add, add_stack, (case has_field_include_hidden_core c key of Has_Omit n \<Rightarrow> max skip (n + 1) - 1 | _ \<Rightarrow> skip - 1), None)"
      using gets by (auto simp: step_def x core_gets_def get_step_def split: has_field_include_hidden.splits)
    moreover have "first_add \<noteq> None \<or> finds key
        (case has_field_include_hidden_core c key of Has_Omit n \<Rightarrow> max skip (n + 1) - 1 | _ \<Rightarrow> skip - 1) xs"
      using Cons.prems(2) False by (auto simp: x split: has_field_include_hidden.splits)
    ultimately show ?thesis using IH Cons.prems(3) by simp
  next
    case True
    have here: "step x (first_add, add_stack, skip, None) =
        (case get_for_core ev in_assertion c key i self False of Inl e \<Rightarrow> Fail e | Inr r \<Rightarrow> get_step r (first_add, add_stack, 0, None))"
      using True by (simp add: step_def x)
    show ?thesis
    proof (cases "get_for_core ev in_assertion c key i self False")
      case (Inl e)
      then show ?thesis using here by (simp add: res_def)
    next
      case (Inr r)
      show ?thesis
      proof (cases r)
        case (Final v)
        then show ?thesis using here Inr break sum True
          by (cases first_add) (auto simp: res_def get_step_def add_up_def)
      next
        case (Super_Plus v)
        then show ?thesis using here Inr IH [of "Some v" 0 add_stack] IH [of first_add 0 "add_stack @ [v]"] Cons.prems(3)
          by (cases first_add) (auto simp: get_step_def)
      next
        case (Get_Omit n)
        then have "has_field_include_hidden_core c key = Has_Omit n"
          using gets Inr by (auto simp: core_gets_def split: has_field_include_hidden.splits)
        then show ?thesis using here Inr Get_Omit Cons.prems(2,3) True IH [of first_add n add_stack]
          by (auto simp: x get_step_def)
      next
        case Get_Not_Found
        then have "has_field_include_hidden_core c key = Has_Not_Found"
          using gets Inr by (cases "has_field_include_hidden_core c key") (auto simp: core_gets_def)
        then show ?thesis using here Inr Get_Not_Found Cons.prems(2,3) True IH [of first_add 0 add_stack]
          by (auto simp: x get_step_def)
      qed
    qed
  qed
  then show ?case by (simp only: res_def step_def not_False_eq_True)
qed

lemma gets_all:
  fixes ev :: "('c, 'a, 'v, 'e) evaluator"
  shows "core_ok c \<Longrightarrow> core_gets ev in_assertion key c"
    and "obj_ok self \<Longrightarrow> has_field_include_hidden_idx self key idx \<Longrightarrow> obj_get_idx ev in_assertion self key idx \<noteq> Inr None"
proof (induction c and self arbitrary: and idx rule: core_ok_obj_ok.inducts)
  case (Oop_ok entries assertion)
  show ?case by (auto simp: core_gets_def and_then_def split: option.splits sum.splits)
next
  case (Static_ok shape bindings assertion)
  show ?case by (auto simp: core_gets_def and_then_def split: option.splits sum.splits)
next
  case (Omit_ok omit prev_layers)
  show ?case by (auto simp: core_gets_def)
next
  case (Super_ok this sup_idx)
  then show ?case by (auto simp: core_gets_def and_then_def split: option.splits sum.splits)
next
  case (Obj_ok l b)
  let ?self = "Obj_Value l b"
  have "finds key 0 (rev (take idx (enumerate 0 (cores_of l))))"
    using Obj_ok.prems has_finds [of ?self key idx] Obj_ok.hyps by simp
  moreover have "core_gets ev in_assertion key c" if "(i, c) \<in> set (rev (take idx (enumerate 0 (cores_of l))))" for i c
    using that Obj_ok by (auto dest!: in_set_takeD simp: in_set_enumerate_eq)
  ultimately have "(case flow_loop (\<lambda>(i, core) st.
                 case get_for_core ev in_assertion core key i ?self (fst (snd (snd st)) \<noteq> 0) of
                   Inl e \<Rightarrow> Fail e
                 | Inr r \<Rightarrow> get_step r st) (rev (take idx (enumerate 0 (cores_of l)))) (None, [], 0, None) of
         Fail e \<Rightarrow> Inl e | Continue st \<Rightarrow> add_up ev st | Break st \<Rightarrow> add_up ev st) \<noteq> Inr None"
    by (intro get_loop_found) auto
  moreover have "lengths_ok l" by (rule Obj_ok.hyps)
  ultimately show ?case
    unfolding obj_get_idx.simps obj_cores.simps for_each_rev_flat [OF \<open>lengths_ok l\<close>]
    by (auto simp: and_then_def split: sum.split)
qed

section \<open>The enumeration of a core\<close>

lemma update_data_same_core:
  "skipped k (Some (update_data k (Normal_Field v) d)) = skipped k d"
  "skipped k (Some (update_data k (Omit_Field n) d)) = max (skipped k d) (n + 1)"
proof -
  note defs = update_data_def see_field_def skipped_def Let_def
  show "skipped k (Some (update_data k (Normal_Field v) d)) = skipped k d" by (cases d; cases v; simp add: defs)
  show "skipped k (Some (update_data k (Omit_Field n) d)) = max (skipped k d) (n + 1)" by (cases d; simp add: defs; linarith)
qed

lemma known_Normal_unless: "skipped k d \<noteq> 0 \<Longrightarrow> known (Some (update_data k (Normal_Field v) d)) = known d"
  by (simp add: update_data_normal)

text \<open>
  What enumerating a core at position \<open>k\<close> can do to a field: nothing is un-skipped, and the field
  becomes known only if it was not skipped and the core has it.
\<close>

definition core_enumerates :: "string \<Rightarrow> ('c, 'a) object_core \<Rightarrow> bool" where
  "core_enumerates name c \<longleftrightarrow>
     (\<forall>k out. \<exists>out'. (enum_fields_core c (see_field k) out :: (unit, _) flow) = Continue out' \<and>
        skipped k (map_of out name) \<le> skipped k (map_of out' name) \<and>
        (\<forall>n. has_field_include_hidden_core c name = Has_Omit n \<longrightarrow> n + 1 \<le> skipped k (map_of out' name)) \<and>
        (known (map_of out name) = None \<and> known (map_of out' name) \<noteq> None \<longrightarrow>
           skipped k (map_of out name) = 0 \<and> has_field_include_hidden_core c name = Exists))"

lemma see_normals:
  "\<exists>out'. (flow_loop (\<lambda>(name, v). see_field k name (Normal_Field v)) evs out :: ('e, _) flow) = Continue out' \<and>
     skipped k (map_of out' name) = skipped k (map_of out name) \<and>
     (known (map_of out name) = None \<and> known (map_of out' name) \<noteq> None \<longrightarrow>
       skipped k (map_of out name) = 0 \<and> name \<in> fst ` set evs)"
proof (induction evs arbitrary: out)
  case Nil
  show ?case by (intro exI [of _ out]) (cases "known (map_of out name)"; simp)
next
  case (Cons x evs)
  obtain nm v where x: "x = (nm, v)" by (cases x)
  let ?out = "AList.update nm (update_data k (Normal_Field v) (map_of out nm)) out"
  obtain out' where out': "(flow_loop (\<lambda>(name, v). see_field k name (Normal_Field v)) evs ?out :: ('e, _) flow) = Continue out'"
    "skipped k (map_of out' name) = skipped k (map_of ?out name)"
    "known (map_of ?out name) = None \<and> known (map_of out' name) \<noteq> None \<longrightarrow>
       skipped k (map_of ?out name) = 0 \<and> name \<in> fst ` set evs"
    using Cons [of ?out] by auto
  have same: "skipped k (map_of ?out name) = skipped k (map_of out name)"
    by (simp add: update_conv' update_data_same_core)
  have "name = nm \<and> skipped k (map_of out name) = 0"
    if "known (map_of out name) = None" "known (map_of ?out name) \<noteq> None"
    using that known_Normal_unless [of k "map_of out nm" v]
    by (cases "skipped k (map_of out nm) = 0") (auto simp: update_conv' split: if_splits)
  then show ?case using out' same by (intro exI [of _ out']) (auto simp: x see_field_update [of k nm _ out])
qed

lemma see_omits:
  "\<exists>out'. (flow_loop (\<lambda>name. see_field k name (Omit_Field n)) omit out :: ('e, _) flow) = Continue out' \<and>
     skipped k (map_of out name) \<le> skipped k (map_of out' name) \<and>
     (name \<in> set omit \<longrightarrow> n + 1 \<le> skipped k (map_of out' name)) \<and> known (map_of out' name) = known (map_of out name)"
proof (induction omit arbitrary: out)
  case (Cons nm omit)
  let ?out = "AList.update nm (update_data k (Omit_Field n) (map_of out nm)) out"
  obtain out' where out': "(flow_loop (\<lambda>name. see_field k name (Omit_Field n)) omit ?out :: ('e, _) flow) = Continue out'"
    "skipped k (map_of ?out name) \<le> skipped k (map_of out' name)"
    "name \<in> set omit \<longrightarrow> n + 1 \<le> skipped k (map_of out' name)" "known (map_of out' name) = known (map_of ?out name)"
    using Cons [of ?out] by auto
  have "skipped k (map_of ?out name) = (if name = nm then max (skipped k (map_of out name)) (n + 1) else skipped k (map_of out name))"
    "known (map_of ?out name) = known (map_of out name)"
    by (simp_all add: update_conv' update_data_same_core update_data_omit)
  then show ?case using out' by (intro exI [of _ out']) (auto simp: see_field_update [of k nm _ out] split: if_splits)
qed simp

text \<open>The inner cores of a separate \<open>super\<close> are all enumerated at the position of the outer core.\<close>

lemma enumerate_inner:
  assumes "list_all (\<lambda>(i, c). core_enumerates name c) xs" "sk \<le> skipped k (map_of out name)"
  shows "\<exists>out'. (flow_loop (\<lambda>(i, core). enum_fields_core core (see_field k)) xs out :: (unit, _) flow) = Continue out' \<and>
     skipped k (map_of out name) \<le> skipped k (map_of out' name) \<and>
     (known (map_of out name) = None \<and> known (map_of out' name) \<noteq> None \<longrightarrow>
       skipped k (map_of out name) = 0 \<and> finds name sk xs)"
  using assms
proof (induction xs arbitrary: out sk)
  case Nil
  show ?case by (intro exI [of _ out]) (cases "known (map_of out name)"; simp)
next
  case (Cons x xs)
  obtain i c where x: "x = (i, c)" by (cases x)
  have "core_enumerates name c" using Cons.prems(1) x by simp
  from this [unfolded core_enumerates_def, THEN spec [of _ k], THEN spec [of _ out]]
  obtain out1 where out1: "(enum_fields_core c (see_field k) out :: (unit, _) flow) = Continue out1"
    "skipped k (map_of out name) \<le> skipped k (map_of out1 name)"
    "\<forall>n. has_field_include_hidden_core c name = Has_Omit n \<longrightarrow> n + 1 \<le> skipped k (map_of out1 name)"
    "known (map_of out name) = None \<and> known (map_of out1 name) \<noteq> None \<longrightarrow>
       skipped k (map_of out name) = 0 \<and> has_field_include_hidden_core c name = Exists"
    by (elim exE conjE)
  define sk' where "sk' = (case has_field_include_hidden_core c name of Has_Omit n \<Rightarrow> max sk (n + 1) - 1 | _ \<Rightarrow> sk - 1)"
  have "sk' \<le> skipped k (map_of out1 name)"
    using out1(2,3) Cons.prems(2) by (auto simp: sk'_def split: has_field_include_hidden.splits)
  have "list_all (\<lambda>(i, c). core_enumerates name c) xs" using Cons.prems(1) by simp
  note IH = Cons.IH [OF this \<open>sk' \<le> _\<close>]
  obtain out' where out': "(flow_loop (\<lambda>(i, core). enum_fields_core core (see_field k)) xs out1 :: (unit, _) flow) = Continue out'"
    "skipped k (map_of out1 name) \<le> skipped k (map_of out' name)"
    "known (map_of out1 name) = None \<and> known (map_of out' name) \<noteq> None \<longrightarrow>
       skipped k (map_of out1 name) = 0 \<and> finds name sk' xs"
    using IH by (elim exE conjE)
  have "finds name sk (x # xs)" "skipped k (map_of out name) = 0" if "known (map_of out name) = None" "known (map_of out' name) \<noteq> None"
  proof -
    have "(skipped k (map_of out name) = 0 \<and> has_field_include_hidden_core c name = Exists) \<or>
        (skipped k (map_of out1 name) = 0 \<and> finds name sk' xs)"
      using that out1(4) out'(3) by (cases "known (map_of out1 name) = None") simp_all
    then show "skipped k (map_of out name) = 0" using out1(2) by auto
    then show "finds name sk (x # xs)"
      using \<open>_ \<or> _\<close> Cons.prems(2) by (auto simp: x sk'_def split: has_field_include_hidden.splits)
  qed
  then show ?case using out1(1,2) out'(1,2) by (intro exI [of _ out']) (simp add: x)
qed

lemma enumerates_all:
  fixes c :: "('c, 'a) object_core" and self :: "('c, 'a) obj_value"
  shows "core_ok c \<Longrightarrow> core_enumerates name c"
  "obj_ok self \<Longrightarrow> core_enumerates name (Standalone_Super_Core idx self)"
proof (induction c and self arbitrary: and idx rule: core_ok_obj_ok.inducts)
  case (Oop_ok entries assertion)
  show ?case unfolding core_enumerates_def
  proof (intro allI)
    fix k out
    let ?evs = "map (\<lambda>(nm, m). (nm, flags_visibility (flags m))) entries"
    have "(enum_fields_core (Oop_Object entries assertion) (see_field k) out :: (unit, _) flow) =
        flow_loop (\<lambda>(name, v). see_field k name (Normal_Field v)) ?evs out"
      by (simp add: flow_loop_map case_prod_unfold)
    moreover have "name \<in> fst ` set ?evs \<longleftrightarrow> map_of entries name \<noteq> None"
      by (force simp: map_of_eq_None_iff)
    ultimately show "\<exists>out'. (enum_fields_core (Oop_Object entries assertion) (see_field k) out :: (unit, _) flow) = Continue out' \<and>
        skipped k (map_of out name) \<le> skipped k (map_of out' name) \<and>
        (\<forall>n. has_field_include_hidden_core (Oop_Object entries assertion) name = Has_Omit n \<longrightarrow> n + 1 \<le> skipped k (map_of out' name)) \<and>
        (known (map_of out name) = None \<and> known (map_of out' name) \<noteq> None \<longrightarrow>
           skipped k (map_of out name) = 0 \<and> has_field_include_hidden_core (Oop_Object entries assertion) name = Exists)"
      using see_normals [of k ?evs out name] by auto
  qed
next
  case (Static_ok shape bindings assertion)
  show ?case unfolding core_enumerates_def
  proof (intro allI)
    fix k out
    let ?evs = "map (\<lambda>(nm, f). (nm, flags_visibility f)) shape"
    have "(enum_fields_core (Static_Shape_Oop_Object shape bindings assertion) (see_field k) out :: (unit, _) flow) =
        flow_loop (\<lambda>(name, v). see_field k name (Normal_Field v)) ?evs out"
      by (simp add: flow_loop_map case_prod_unfold)
    moreover have "name \<in> fst ` set ?evs \<longleftrightarrow> find_index shape name \<noteq> None"
      by (force simp: find_index_None)
    ultimately show "\<exists>out'. (enum_fields_core (Static_Shape_Oop_Object shape bindings assertion) (see_field k) out :: (unit, _) flow) = Continue out' \<and>
        skipped k (map_of out name) \<le> skipped k (map_of out' name) \<and>
        (\<forall>n. has_field_include_hidden_core (Static_Shape_Oop_Object shape bindings assertion) name = Has_Omit n \<longrightarrow> n + 1 \<le> skipped k (map_of out' name)) \<and>
        (known (map_of out name) = None \<and> known (map_of out' name) \<noteq> None \<longrightarrow>
           skipped k (map_of out name) = 0 \<and> has_field_include_hidden_core (Static_Shape_Oop_Object shape bindings assertion) name = Exists)"
      using see_normals [of k ?evs out name] by auto
  qed
next
  case (Omit_ok omit prev_layers)
  show ?case unfolding core_enumerates_def
  proof (intro allI)
    fix k out
    show "\<exists>out'. (enum_fields_core (Omit_Fields_Core omit prev_layers) (see_field k) out :: (unit, _) flow) = Continue out' \<and>
        skipped k (map_of out name) \<le> skipped k (map_of out' name) \<and>
        (\<forall>n. has_field_include_hidden_core (Omit_Fields_Core omit prev_layers) name = Has_Omit n \<longrightarrow> n + 1 \<le> skipped k (map_of out' name)) \<and>
        (known (map_of out name) = None \<and> known (map_of out' name) \<noteq> None \<longrightarrow>
           skipped k (map_of out name) = 0 \<and> has_field_include_hidden_core (Omit_Fields_Core omit prev_layers) name = Exists)"
    proof -
      obtain out' where "(flow_loop (\<lambda>name. see_field k name (Omit_Field prev_layers)) omit out :: (unit, _) flow) = Continue out'"
        "skipped k (map_of out name) \<le> skipped k (map_of out' name)"
        "name \<in> set omit \<longrightarrow> prev_layers + 1 \<le> skipped k (map_of out' name)" "known (map_of out' name) = known (map_of out name)"
        using see_omits [of k prev_layers omit out name] by (elim exE conjE)
      then show ?thesis by (intro exI [of _ out']) (cases "known (map_of out name)"; simp)
    qed
  qed
next
  case (Super_ok this sup_idx)
  then show ?case by blast
next
  case (Obj_ok l b)
  let ?self = "Obj_Value l b"
  let ?xs = "rev (take idx (enumerate 0 (cores_of l)))"
  have l: "lengths_ok l" by (rule Obj_ok.hyps)
  have en: "list_all (\<lambda>(i, c). core_enumerates name c) ?xs"
    using Obj_ok by (auto dest!: in_set_takeD simp: in_set_enumerate_eq list_all_iff)
  show ?case unfolding core_enumerates_def
  proof (intro allI)
    fix k out
    have "(enum_fields_core (Standalone_Super_Core idx ?self) (see_field k) out :: (unit, _) flow) =
        flow_loop (\<lambda>(i, core). enum_fields_core core (see_field k)) ?xs out"
      by (simp add: enum_fields_idx.simps for_each_rev_flat [OF l])
    moreover have "finds name 0 ?xs \<longleftrightarrow> has_field_include_hidden_core (Standalone_Super_Core idx ?self) name = Exists"
      using has_finds [of ?self name idx] l by simp
    ultimately show "\<exists>out'. (enum_fields_core (Standalone_Super_Core idx ?self) (see_field k) out :: (unit, _) flow) = Continue out' \<and>
        skipped k (map_of out name) \<le> skipped k (map_of out' name) \<and>
        (\<forall>n. has_field_include_hidden_core (Standalone_Super_Core idx ?self) name = Has_Omit n \<longrightarrow> n + 1 \<le> skipped k (map_of out' name)) \<and>
        (known (map_of out name) = None \<and> known (map_of out' name) \<noteq> None \<longrightarrow>
           skipped k (map_of out name) = 0 \<and> has_field_include_hidden_core (Standalone_Super_Core idx ?self) name = Exists)"
      using enumerate_inner [OF en, of 0 k out] by auto
  qed
qed

section \<open>The enumeration of an object\<close>

lemma enumerate_outer:
  assumes "list_all (\<lambda>(i, c). core_enumerates name c) xs" "sk \<le> skipped k (map_of out name)"
  shows "\<exists>n out'. flow_loop (\<lambda>(i, core). see_core core) xs (k, out) = Continue (n, out') \<and>
     (known (map_of out name) = None \<and> known (map_of out' name) \<noteq> None \<longrightarrow> finds name sk xs)"
  using assms
proof (induction xs arbitrary: k out sk)
  case Nil
  show ?case by (intro exI [of _ k] exI [of _ out]) (cases "known (map_of out name)"; simp)
next
  case (Cons x xs)
  obtain i c where x: "x = (i, c)" by (cases x)
  have "core_enumerates name c" using Cons.prems(1) x by simp
  from this [unfolded core_enumerates_def, THEN spec [of _ k], THEN spec [of _ out]]
  obtain out1 where out1: "(enum_fields_core c (see_field k) out :: (unit, _) flow) = Continue out1"
    "skipped k (map_of out name) \<le> skipped k (map_of out1 name)"
    "\<forall>n. has_field_include_hidden_core c name = Has_Omit n \<longrightarrow> n + 1 \<le> skipped k (map_of out1 name)"
    "known (map_of out name) = None \<and> known (map_of out1 name) \<noteq> None \<longrightarrow>
       skipped k (map_of out name) = 0 \<and> has_field_include_hidden_core c name = Exists"
    by (elim exE conjE)
  define sk' where "sk' = (case has_field_include_hidden_core c name of Has_Omit n \<Rightarrow> max sk (n + 1) - 1 | _ \<Rightarrow> sk - 1)"
  have "sk' \<le> skipped (k + 1) (map_of out1 name)"
    unfolding skipped_Suc using out1(2,3) Cons.prems(2) by (auto simp: sk'_def split: has_field_include_hidden.splits)
  have "list_all (\<lambda>(i, c). core_enumerates name c) xs" using Cons.prems(1) by simp
  note IH = Cons.IH [OF this \<open>sk' \<le> _\<close>]
  obtain n out' where out': "flow_loop (\<lambda>(i, core). see_core core) xs (k + 1, out1) = Continue (n, out')"
    "known (map_of out1 name) = None \<and> known (map_of out' name) \<noteq> None \<longrightarrow> finds name sk' xs"
    using IH by (elim exE conjE)
  have "finds name sk (x # xs)" if "known (map_of out name) = None" "known (map_of out' name) \<noteq> None"
  proof -
    have "(skipped k (map_of out name) = 0 \<and> has_field_include_hidden_core c name = Exists) \<or> finds name sk' xs"
      using that out1(4) out'(2) by (cases "known (map_of out1 name) = None") simp_all
    then show ?thesis using Cons.prems(2) by (auto simp: x sk'_def split: has_field_include_hidden.splits)
  qed
  moreover have "see_core c (k, out) = Continue (k + 1, out1)" by (simp add: see_core_def out1(1))
  ultimately show ?case using out'(1) by (intro exI [of _ n] exI [of _ out']) (simp add: x)
qed

text \<open>Every field is entered once.\<close>

lemma flow_loop_keeps:
  assumes "flow_loop f xs st = Continue st'" "P st"
    and "\<And>x st st'. x \<in> set xs \<Longrightarrow> P st \<Longrightarrow> f x st = Continue st' \<Longrightarrow> P st'"
  shows "P st'"
  using assms
proof (induction xs arbitrary: st)
  case (Cons x xs)
  then obtain st1 where "f x st = Continue st1" "flow_loop f xs st1 = Continue st'"
    by (cases "f x st") auto
  then show ?case using Cons.IH [of st1] Cons.prems(2,3) by auto
qed simp

definition core_distinct :: "('c, 'a) object_core \<Rightarrow> bool" where
  "core_distinct c \<longleftrightarrow>
     (\<forall>k out out'. distinct (map fst out) \<longrightarrow>
        (enum_fields_core c (see_field k) out :: (unit, _) flow) = Continue out' \<longrightarrow> distinct (map fst out'))"

lemma see_field_distinct:
  "distinct (map fst out) \<Longrightarrow> (see_field k nm ef out :: ('e, _) flow) = Continue out' \<Longrightarrow> distinct (map fst out')"
  by (auto simp: see_field_update distinct_update)

lemma distinct_all:
  fixes c :: "('c, 'a) object_core" and self :: "('c, 'a) obj_value"
  shows "core_ok c \<Longrightarrow> core_distinct c"
    and "obj_ok self \<Longrightarrow> core_distinct (Standalone_Super_Core idx self)"
proof (induction c and self arbitrary: and idx rule: core_ok_obj_ok.inducts)
  case (Oop_ok entries assertion)
  show ?case unfolding core_distinct_def
    by (auto elim!: flow_loop_keeps [where P = "\<lambda>out. distinct (map fst out)"] intro: see_field_distinct)
next
  case (Static_ok shape bindings assertion)
  show ?case unfolding core_distinct_def
    by (auto elim!: flow_loop_keeps [where P = "\<lambda>out. distinct (map fst out)"] intro: see_field_distinct)
next
  case (Omit_ok omit prev_layers)
  show ?case unfolding core_distinct_def
    by (auto elim!: flow_loop_keeps [where P = "\<lambda>out. distinct (map fst out)"] intro: see_field_distinct)
next
  case (Super_ok this sup_idx)
  then show ?case by blast
next
  case (Obj_ok l b)
  have cores: "core_distinct c" if "(i, c) \<in> set (rev (take idx (enumerate 0 (cores_of l))))" for i c
    using that Obj_ok by (auto dest!: in_set_takeD simp: in_set_enumerate_eq)
  show ?case unfolding core_distinct_def
  proof (intro allI impI)
    fix k and out out' :: "(string \<times> field_visibility_data) list"
    assume "distinct (map fst out)" and run: "(enum_fields_core (Standalone_Super_Core idx (Obj_Value l b)) (see_field k) out :: (unit, _) flow) = Continue out'"
    have "(flow_loop (\<lambda>(i, core). enum_fields_core core (see_field k)) (rev (take idx (enumerate 0 (cores_of l)))) out :: (unit, _) flow) = Continue out'"
      using run by (simp add: enum_fields_idx.simps for_each_rev_flat [OF Obj_ok.hyps(1)])
    then show "distinct (map fst out')"
      by (rule flow_loop_keeps [where P = "\<lambda>out. distinct (map fst out)"])
        (use cores \<open>distinct (map fst out)\<close> in \<open>auto simp: core_distinct_def\<close>)
  qed
qed

lemma outer_distinct:
  assumes "flow_loop (\<lambda>(i, core). see_core core) xs (k, out) = Continue (n, out')" "distinct (map fst out)"
    and "\<And>i c. (i, c) \<in> set xs \<Longrightarrow> core_ok c"
  shows "distinct (map fst out')"
proof -
  have "distinct (map fst (snd st'))"
    if x: "x \<in> set xs" and st: "distinct (map fst (snd st))" and run: "(case x of (i, core) \<Rightarrow> see_core core) st = Continue st'"
    for x and st st' :: "nat \<times> (string \<times> field_visibility_data) list"
  proof -
    obtain i c k out where eq: "x = (i, c)" "st = (k, out)" by (cases x; cases st)
    have ok: "core_ok c" using x assms(3) eq by blast
    obtain out1 where out1: "(enum_fields_core c (see_field k) out :: (unit, _) flow) = Continue out1"
      using enumerates_all(1) [OF ok] unfolding core_enumerates_def by blast
    then have "distinct (map fst out1)"
      using distinct_all(1) [OF ok] st eq by (auto simp: core_distinct_def)
    then show ?thesis using run by (auto simp: eq see_core_def out1)
  qed
  then have "distinct (map fst (snd (n, out')))"
    using assms(2) by (intro flow_loop_keeps [OF assms(1), of "\<lambda>st. distinct (map fst (snd st))"]) auto
  then show ?thesis by simp
qed

lemma listed_field_found:
  assumes "obj_ok self" "(name, d) \<in> set (fields_visibility self)"
  shows "has_field_include_hidden self name"
proof -
  obtain l b where self: "self = Obj_Value l b" by (cases self)
  let ?xs = "rev (take (obj_len self) (enumerate 0 (cores_of l)))"
  have l: "lengths_ok l" and cores: "\<forall>c \<in> set (cores_of l). core_ok c" using assms(1) self by simp_all
  have ok: "\<And>i c. (i, c) \<in> set ?xs \<Longrightarrow> core_ok c"
    using cores by (auto dest!: in_set_takeD simp: in_set_enumerate_eq)
  then have en: "list_all (\<lambda>(i, c). core_enumerates name c) ?xs"
    by (force simp: list_all_iff intro!: enumerates_all(1))
  obtain n out where out: "flow_loop (\<lambda>(i, core). see_core core) ?xs (0, []) = Continue (n, out)"
    "known (map_of out name) \<noteq> None \<longrightarrow> finds name 0 ?xs"
    using enumerate_outer [OF en, of 0 0 "[]"] by (auto simp: known_def [of None])
  have "(name, d) \<in> set out" "exists_visible d \<noteq> None"
    using assms(2) out(1) by (auto simp: fields_visibility_def self for_each_rev_flat [OF l])
  moreover have "distinct (map fst out)" using outer_distinct [OF out(1) _ ok] by simp
  ultimately have "known (map_of out name) \<noteq> None" by (simp add: map_of_is_SomeI known_def)
  then show ?thesis
    using out(2) has_finds [of self name "obj_len self"] l by (simp add: has_field_include_hidden_def self)
qed

section \<open>Iterating\<close>

text \<open>
  C12. Iterating over an object never panics: every field the enumeration lists is found by the
  lookup, for objects built with a \<open>super\<close> of their own, at any depth, as for all others.
\<close>

theorem iteration_never_panics:
  assumes "obj_ok self" "(name, r) \<in> set (obj_iter ev in_assertion self)"
  shows "r \<noteq> Inl None"
proof -
  obtain d where "(name, d) \<in> set (fields_visibility self)"
    using assms(2) by (auto simp: obj_iter_def fields_ex_def)
  then have "has_field_include_hidden_idx self name (obj_len self)"
    using listed_field_found [OF assms(1)] by (simp add: has_field_include_hidden_def)
  then have "obj_get_idx ev in_assertion self name (obj_len self) \<noteq> Inr None"
    by (rule gets_all(2) [OF assms(1)])
  then have "obj_get ev in_assertion self name \<noteq> Inr None"
    by (auto simp: obj_get_def and_then_def split: sum.splits)
  then show ?thesis using assms(2) by (auto simp: obj_iter_def split: sum.splits option.splits)
qed

lemma obj_ok_one_field: "obj_ok (one_field name add vis code)"
  by (simp add: one_field_def builder_build_def builder_value_def builder_new_def builder_commit_def Oop_ok)

lemma obj_ok_add: "obj_ok a \<Longrightarrow> obj_ok b \<Longrightarrow> obj_ok (obj_add a b)"
  by (cases a; cases b) (auto simp: obj_add_def extend_from_def)

lemma obj_ok_remove_key: "obj_ok b \<Longrightarrow> obj_ok (object_remove_key b k)"
  using cores_remove_key [of b k]
  by (cases b; cases "object_remove_key b k") (auto simp: Omit_ok)

lemma obj_ok_super: "obj_ok this \<Longrightarrow> obj_ok (the (standalone_super (Suc n) this))"
  by (simp add: standalone_super_def builder_build_def extend_with_core_def builder_new_def builder_commit_def)

text \<open>An object whose \<open>super\<close> was taken out with \<open>{ x: super }\<close> and extended again.\<close>

definition hiding_super :: "(int, unit) obj_value" where
  "hiding_super =
     (let removed = object_remove_key (one_field ''x'' False Normal 1) ''x'';
          this = obj_add removed (one_field ''y'' False Normal 3)
      in obj_add (one_field ''x'' False Normal 2) (the (standalone_super 2 this)))"

theorem iteration_never_panics_witness:
  "(''y'', Inr 3) \<in> set (obj_iter constants False (obj_add hiding_super (one_field ''y'' False Normal 3))) \<and>
   list_all (\<lambda>(name, r). r \<noteq> Inl None) (obj_iter constants False (obj_add hiding_super (one_field ''y'' False Normal 3)))"
proof -
  have "obj_ok (obj_add hiding_super (one_field ''y'' False Normal 3))"
    unfolding hiding_super_def Let_def numeral_2_eq_2
    by (intro obj_ok_add obj_ok_super obj_ok_remove_key obj_ok_one_field)
  moreover have "(''y'', Inr 3) \<in> set (obj_iter constants False (obj_add hiding_super (one_field ''y'' False Normal 3)))"
    by code_simp
  ultimately show ?thesis using iteration_never_panics by (fastforce simp: list_all_iff)
qed


end
