(* ===== verification/Spec2Isabelle.thy ===== *)
theory Spec2Isabelle
  imports Patch_Properties Array_Caches Set_Facts Redaction Cluster_Properties Yaml_Properties Object_Iteration
begin

text \<open>
  Verification of the core logic of Rustanka (\<open>rtk\<close>), the Rust rewrite of Grafana Tanka.
\<close>

end
